(* ===== verification/Ecmh_Prelude.thy ===== *)
theory Ecmh_Prelude
  imports Main "HOL-Library.Word"
begin

text \<open>
  Shared vocabulary of the ecmh development: the C integer types, results that may fault, IPv6
  addresses with the classification macros of \<^verbatim>\<open>netinet/in.h\<close>, byte strings in network order,
  and the list lemmas that several components use. The collections \<open>ecmh_defs\<close> (definitions that
  component proofs unfold) and \<open>frame\<close> (what an operation leaves alone) are filled by the
  components.
\<close>

unbundle bit_operations_syntax

named_theorems ecmh_defs
named_theorems frame

section \<open>Machine types\<close>

type_synonym u8 = "8 word"
type_synonym u16 = "16 word"
type_synonym u32 = "32 word"
type_synonym u64 = "64 word"
type_synonym byte = "8 word"
type_synonym bytes = "8 word list"
type_synonym time_t = int
type_synonym ifindex = nat

section \<open>Results that may fault\<close>

text \<open>
  What C leaves undefined and what ends the process is a value: a null dereference, a read
  outside a buffer, the use of a freed object, the freeing of memory that is not from \<^verbatim>\<open>malloc\<close>.
\<close>

datatype fault = Null_deref | Out_of_bounds | Use_after_free | Invalid_free

type_synonym 'a res = "fault + 'a"

definition bindR :: "'a res \<Rightarrow> ('a \<Rightarrow> 'b res) \<Rightarrow> 'b res" where
  "bindR m f = (case m of Inl e \<Rightarrow> Inl e | Inr x \<Rightarrow> f x)"

lemma bindR_simps [simp]:
  "bindR (Inl e) f = Inl e"
  "bindR (Inr x) f = f x"
  by (simp_all add: bindR_def)

lemma bindR_Inr_iff:
  "bindR m f = Inr y \<longleftrightarrow> (\<exists>x. m = Inr x \<and> f x = Inr y)"
  by (cases m) auto

lemma bindR_cong [fundef_cong]:
  "m = m' \<Longrightarrow> (\<And>x. m' = Inr x \<Longrightarrow> f x = f' x) \<Longrightarrow> bindR m f = bindR m' f'"
  by (cases m') auto

fun foldR :: "('a \<Rightarrow> 's \<Rightarrow> 's res) \<Rightarrow> 'a list \<Rightarrow> 's \<Rightarrow> 's res" where
  "foldR f [] s = Inr s"
| "foldR f (x # xs) s = bindR (f x s) (foldR f xs)"

lemma foldR_append:
  "foldR f (xs @ ys) s = bindR (foldR f xs s) (foldR f ys)"
proof (induction xs arbitrary: s)
  case (Cons x xs)
  then show ?case by (cases "f x s") auto
qed simp

lemma foldR_invariant:
  assumes "foldR f xs s = Inr t" and "P s"
    and "\<And>x u v. x \<in> set xs \<Longrightarrow> P u \<Longrightarrow> f x u = Inr v \<Longrightarrow> P v"
  shows "P t"
  using assms
proof (induction xs arbitrary: s)
  case (Cons x xs)
  then obtain u where "f x s = Inr u" "foldR f xs u = Inr t"
    by (auto simp: bindR_Inr_iff)
  with Cons show ?case by (metis list.set_intros)
qed simp

section \<open>IPv6 addresses\<close>

text \<open>
  A \<^verbatim>\<open>struct in6_addr\<close> is 16 bytes; \<open>s6_addr a i\<close> is its \<open>i\<close>-th byte, the first being the most
  significant, so equality of words is \<^verbatim>\<open>IN6_ARE_ADDR_EQUAL\<close>.
\<close>

type_synonym in6_addr = "128 word"

definition s6_addr :: "in6_addr \<Rightarrow> nat \<Rightarrow> byte" where
  "s6_addr a i = ucast (drop_bit (8 * (15 - i)) a)"

definition in6addr_any :: in6_addr where
  "in6addr_any = 0"

definition IN6_IS_ADDR_UNSPECIFIED :: "in6_addr \<Rightarrow> bool" where
  "IN6_IS_ADDR_UNSPECIFIED a \<longleftrightarrow> a = 0"

definition IN6_IS_ADDR_LOOPBACK :: "in6_addr \<Rightarrow> bool" where
  "IN6_IS_ADDR_LOOPBACK a \<longleftrightarrow> a = 1"

definition IN6_IS_ADDR_MULTICAST :: "in6_addr \<Rightarrow> bool" where
  "IN6_IS_ADDR_MULTICAST a \<longleftrightarrow> s6_addr a 0 = 0xff"

definition IN6_IS_ADDR_LINKLOCAL :: "in6_addr \<Rightarrow> bool" where
  "IN6_IS_ADDR_LINKLOCAL a \<longleftrightarrow> s6_addr a 0 = 0xfe \<and> s6_addr a 1 AND 0xc0 = 0x80"

definition IN6_IS_ADDR_MC_NODELOCAL :: "in6_addr \<Rightarrow> bool" where
  "IN6_IS_ADDR_MC_NODELOCAL a \<longleftrightarrow> IN6_IS_ADDR_MULTICAST a \<and> s6_addr a 1 AND 0x0f = 0x01"

definition IN6_IS_ADDR_MC_LINKLOCAL :: "in6_addr \<Rightarrow> bool" where
  "IN6_IS_ADDR_MC_LINKLOCAL a \<longleftrightarrow> IN6_IS_ADDR_MULTICAST a \<and> s6_addr a 1 AND 0x0f = 0x02"

lemmas in6_class_defs =
  IN6_IS_ADDR_UNSPECIFIED_def IN6_IS_ADDR_LOOPBACK_def IN6_IS_ADDR_MULTICAST_def
  IN6_IS_ADDR_LINKLOCAL_def IN6_IS_ADDR_MC_NODELOCAL_def IN6_IS_ADDR_MC_LINKLOCAL_def s6_addr_def

lemma linklocal_not_multicast: "IN6_IS_ADDR_LINKLOCAL a \<Longrightarrow> \<not> IN6_IS_ADDR_MULTICAST a"
  by (simp add: IN6_IS_ADDR_LINKLOCAL_def IN6_IS_ADDR_MULTICAST_def)

lemma multicast_not_unspecified: "IN6_IS_ADDR_MULTICAST a \<Longrightarrow> \<not> IN6_IS_ADDR_UNSPECIFIED a"
  by (auto simp: IN6_IS_ADDR_MULTICAST_def IN6_IS_ADDR_UNSPECIFIED_def s6_addr_def)

section \<open>Bytes in network order\<close>

text \<open>
  \<open>be_bytes n w\<close> is the \<open>n\<close>-byte big-endian image of a word and \<open>be_word\<close> reads one back;
  \<^verbatim>\<open>htons\<close>, \<^verbatim>\<open>ntohs\<close> and \<^verbatim>\<open>memcpy\<close> of address fields are these two.
\<close>

definition be_bytes :: "nat \<Rightarrow> 'a::len word \<Rightarrow> bytes" where
  "be_bytes n w = map (\<lambda>i. ucast (drop_bit (8 * (n - 1 - i)) w)) [0..<n]"

definition be_nat :: "bytes \<Rightarrow> nat" where
  "be_nat bs = foldl (\<lambda>a b. a * 256 + unat b) 0 bs"

definition be_word :: "bytes \<Rightarrow> 'a::len word" where
  "be_word bs = of_nat (be_nat bs)"

lemma length_be_bytes [simp]: "length (be_bytes n w) = n"
  by (simp add: be_bytes_def)

lemma be_nat_snoc: "be_nat (bs @ [b]) = be_nat bs * 256 + unat b"
  by (simp add: be_nat_def)

lemma be_nat_Nil [simp]: "be_nat [] = 0"
  by (simp add: be_nat_def)

lemma unat_byte_of_drop:
  "unat (ucast (drop_bit k (w :: 'a::len word)) :: byte) = unat w div 2 ^ k mod 256"
proof -
  have "unat (drop_bit k w) = unat w div 2 ^ k"
    unfolding unat_drop_bit_eq by (simp only: drop_bit_eq_div)
  then show ?thesis
    by (simp add: unsigned_ucast_eq take_bit_eq_mod del: drop_bit_eq_div)
qed

lemma be_nat_digits:
  "be_nat (map (\<lambda>i. ucast (drop_bit (8 * (n - 1 - i)) w)) [0..<m])
     = unat (w :: 'a::len word) div 256 ^ (n - m) mod 256 ^ m" if "m \<le> n"
  using that
proof (induction m)
  case 0
  then show ?case by simp
next
  case (Suc m)
  let ?q = "unat w div 256 ^ (n - Suc m)"
  have k: "n - m = Suc (n - Suc m)" using Suc.prems by simp
  have "unat w div 256 ^ (n - m) = ?q div 256"
    unfolding k power_Suc2 by (rule div_mult2_eq)
  moreover have "unat (ucast (drop_bit (8 * (n - 1 - m)) w) :: byte) = ?q mod 256"
    by (simp add: unat_byte_of_drop power_mult)
  moreover have "?q mod 256 ^ Suc m = ?q div 256 mod 256 ^ m * 256 + ?q mod 256"
    by (simp add: mod_mult2_eq)
  ultimately show ?case
    using Suc by (simp add: be_nat_snoc)
qed

lemma be_nat_be_bytes: "be_nat (be_bytes n (w :: 'a::len word)) = unat w mod 256 ^ n"
  using be_nat_digits [of n n w] by (simp add: be_bytes_def)

lemma be_word_be_bytes:
  assumes "LENGTH('a) \<le> 8 * n"
  shows "be_word (be_bytes n (w :: 'a::len word)) = w"
proof -
  have "(2::nat) ^ LENGTH('a) \<le> 2 ^ (8 * n)" using assms by (intro power_increasing) auto
  then have "unat w < 256 ^ n"
    using order.strict_trans2 [OF unsigned_less [of w]] by (simp add: power_mult)
  then show ?thesis by (simp add: be_word_def be_nat_be_bytes)
qed

lemma be_word_in6 [simp]: "be_word (be_bytes 16 (a :: in6_addr)) = a"
  by (simp add: be_word_be_bytes)

lemma be_word_u16 [simp]: "be_word (be_bytes 2 (a :: u16)) = a"
  by (simp add: be_word_be_bytes)

text \<open>Reading \<open>n\<close> bytes at an offset of a buffer faults when they are not all there.\<close>

definition read_bytes :: "bytes \<Rightarrow> nat \<Rightarrow> nat \<Rightarrow> bytes res" where
  "read_bytes buf off n =
     (if off + n \<le> length buf then Inr (take n (drop off buf)) else Inl Out_of_bounds)"

lemma read_bytes_Inr_iff [simp]:
  "read_bytes buf off n = Inr bs \<longleftrightarrow> off + n \<le> length buf \<and> bs = take n (drop off buf)"
  by (auto simp: read_bytes_def)

section \<open>Numbers in text\<close>

text \<open>The conversion \<^verbatim>\<open>%u\<close>, and its inverse.\<close>

fun decimal :: "nat \<Rightarrow> string" where
  "decimal n = (if n < 10 then [] else decimal (n div 10)) @ [''0123456789'' ! (n mod 10)]"

declare decimal.simps [simp del]

definition read_decimal :: "string \<Rightarrow> nat" where
  "read_decimal ds = foldl (\<lambda>a d. 10 * a + (of_char d - 48)) 0 ds"

lemma digit_value: "d < 10 \<Longrightarrow> of_char (''0123456789'' ! d) - 48 = d"
proof -
  assume "d < 10"
  then have "d \<in> {0, 1, 2, 3, 4, 5, 6, 7, 8, 9}" by auto
  then show ?thesis by auto
qed

lemma read_decimal_decimal: "read_decimal (decimal n) = n"
proof (induction n rule: decimal.induct)
  case (1 n)
  have "read_decimal (decimal n) = 10 * (if n < 10 then 0 else n div 10) + (of_char (''0123456789'' ! (n mod 10)) - 48)"
    using 1 by (subst decimal.simps) (simp add: read_decimal_def)
  also have "\<dots> = n" by (subst digit_value) (simp_all)
  finally show ?case .
qed

lemma decimal_inject [simp]: "decimal m = decimal n \<longleftrightarrow> m = n"
  by (metis read_decimal_decimal)

section \<open>Lists addressed by position\<close>

text \<open>
  A pointer to an element of a list is the element's position; unlinking the node at a position
  and writing through the pointer are these two.
\<close>

definition remove_nth :: "nat \<Rightarrow> 'a list \<Rightarrow> 'a list" where
  "remove_nth i xs = take i xs @ drop (Suc i) xs"

fun index_of :: "('a \<Rightarrow> bool) \<Rightarrow> 'a list \<Rightarrow> nat option" where
  "index_of P [] = None"
| "index_of P (x # xs) = (if P x then Some 0 else map_option Suc (index_of P xs))"

lemma length_remove_nth [simp]: "i < length xs \<Longrightarrow> length (remove_nth i xs) = length xs - 1"
  by (simp add: remove_nth_def)

lemma remove_nth_Cons_0 [simp]: "remove_nth 0 (x # xs) = xs"
  by (simp add: remove_nth_def)

lemma remove_nth_Cons_Suc [simp]: "remove_nth (Suc i) (x # xs) = x # remove_nth i xs"
  by (simp add: remove_nth_def)

lemma remove_nth_Nil [simp]: "remove_nth i [] = []"
  by (simp add: remove_nth_def)

lemma set_remove_nth_subset: "set (remove_nth i xs) \<subseteq> set xs"
  unfolding remove_nth_def by (auto dest: in_set_takeD in_set_dropD)

lemma map_remove_nth: "map f (remove_nth i xs) = remove_nth i (map f xs)"
  by (simp add: remove_nth_def take_map drop_map)

lemma distinct_remove_nth: "distinct xs \<Longrightarrow> distinct (remove_nth i xs)"
proof (induction i arbitrary: xs)
  case 0
  then show ?case by (cases xs) (auto simp: remove_nth_def)
next
  case (Suc i)
  then show ?case
    by (cases xs) (auto simp: remove_nth_Nil dest: subsetD [OF set_remove_nth_subset])
qed

lemma nth_remove_nth:
  "i < length xs \<Longrightarrow> remove_nth i xs ! j = (if j < i then xs ! j else xs ! Suc j)"
  by (auto simp: remove_nth_def nth_append min_def)

lemma index_of_None: "index_of P xs = None \<longleftrightarrow> (\<forall>x \<in> set xs. \<not> P x)"
  by (induction xs) auto

lemma index_of_SomeD:
  "index_of P xs = Some i \<Longrightarrow> i < length xs \<and> P (xs ! i) \<and> (\<forall>j < i. \<not> P (xs ! j))"
proof (induction xs arbitrary: i)
  case (Cons x xs)
  then show ?case
    by (cases i) (auto split: if_splits simp: nth_Cons split: nat.splits)
qed simp

lemma map_list_update_id: "f v = f (xs ! i) \<Longrightarrow> map f (xs[i := v]) = map f xs"
  by (metis list_update_id map_update)

lemma set_update_subset: "set (xs[i := v]) \<subseteq> insert v (set xs)"
  by (rule set_update_subset_insert)

end
