(* ===== verification/Linklist.thy ===== *)
theory Linklist
  imports Ecmh_Prelude
begin

text \<open>
  The doubly linked list of \<^verbatim>\<open>src/linklist.c\<close>, twice. First at the level of pointers: a heap of
  \<^verbatim>\<open>struct listnode\<close> cells, every operation with its loads and stores, and the theorems that on
  a well-formed list each operation is the list operation it is meant to be, never faults and
  keeps the list well formed. Then at the level of sequences: the set operations of the same
  file (\<^verbatim>\<open>list_union\<close>, \<^verbatim>\<open>list_intersect\<close> and so on) over the sequence of data pointers, with
  \<open>None\<close> for a node whose data pointer is \<^verbatim>\<open>NULL\<close>, which \<^verbatim>\<open>LIST_LOOP\<close> skips.
\<close>

section \<open>Cells, heaps and the list header\<close>

record 'a listnode =
  nd_next :: "nat option"
  nd_prev :: "nat option"
  nd_data :: "'a option"

record list_hdr =
  head :: "nat option"
  tail :: "nat option"
  count :: int

type_synonym 'a heap = "nat \<Rightarrow> 'a listnode option"

text \<open>\<^verbatim>\<open>memset(new, 0, sizeof(struct list))\<close>\<close>

definition list_new :: list_hdr where
  "list_new = \<lparr>head = None, tail = None, count = 0\<rparr>"

definition list_isempty :: "list_hdr \<Rightarrow> bool" where
  "list_isempty l \<longleftrightarrow> head l = None \<and> tail l = None"

definition deref :: "'a heap \<Rightarrow> nat option \<Rightarrow> 'a listnode res" where
  "deref h p = (case p of None \<Rightarrow> Inl Null_deref
     | Some a \<Rightarrow> (case h a of None \<Rightarrow> Inl Use_after_free | Some n \<Rightarrow> Inr n))"

definition set_next :: "nat option \<Rightarrow> nat option \<Rightarrow> 'a heap \<Rightarrow> 'a heap res" where
  "set_next p v h = bindR (deref h p) (\<lambda>n. Inr (h(the p \<mapsto> n\<lparr>nd_next := v\<rparr>)))"

definition set_prev :: "nat option \<Rightarrow> nat option \<Rightarrow> 'a heap \<Rightarrow> 'a heap res" where
  "set_prev p v h = bindR (deref h p) (\<lambda>n. Inr (h(the p \<mapsto> n\<lparr>nd_prev := v\<rparr>)))"

text \<open>
  \<^verbatim>\<open>malloc\<close> is a parameter: it returns an address that is not in use, or \<^verbatim>\<open>NULL\<close>.
\<close>

definition malloc_fresh :: "('a heap \<Rightarrow> nat option) \<Rightarrow> bool" where
  "malloc_fresh malloc \<longleftrightarrow> (\<forall>h p. malloc h = Some p \<longrightarrow> h p = None)"

definition listnode_new :: "('a heap \<Rightarrow> nat option) \<Rightarrow> 'a heap \<Rightarrow> nat option \<times> 'a heap" where
  "listnode_new malloc h = (case malloc h of None \<Rightarrow> (None, h)
     | Some n \<Rightarrow> (Some n, h(n \<mapsto> \<lparr>nd_next = None, nd_prev = None, nd_data = None\<rparr>)))"

definition listnode_add ::
  "('a heap \<Rightarrow> nat option) \<Rightarrow> 'a option \<Rightarrow> 'a heap \<times> list_hdr \<Rightarrow> (nat option \<times> 'a heap \<times> list_hdr) res"
where
  "listnode_add malloc val = (\<lambda>(h, l).
     case listnode_new malloc h of
       (None, h) \<Rightarrow> Inr (None, h, l)
     | (Some node, h) \<Rightarrow>
         bindR (deref h (Some node)) (\<lambda>n.
         let h = h(node \<mapsto> n\<lparr>nd_prev := tail l, nd_data := val\<rparr>) in
         bindR (if head l = None then Inr (h, l\<lparr>head := Some node\<rparr>)
                else bindR (set_next (tail l) (Some node) h) (\<lambda>h. Inr (h, l))) (\<lambda>(h, l).
         let l = l\<lparr>tail := Some node\<rparr>;
             l = (if count l < 0 then l\<lparr>count := 0\<rparr> else l) in
         Inr (Some node, h, l\<lparr>count := count l + 1\<rparr>))))"

text \<open>The four unlinking lines shared by the delete operations and \<^verbatim>\<open>list_movefront_node\<close>.\<close>

definition unlink_node :: "nat \<Rightarrow> 'a heap \<times> list_hdr \<Rightarrow> ('a heap \<times> list_hdr) res" where
  "unlink_node p = (\<lambda>(h, l).
     bindR (deref h (Some p)) (\<lambda>node.
     bindR (if nd_prev node \<noteq> None
            then bindR (set_next (nd_prev node) (nd_next node) h) (\<lambda>h. Inr (h, l))
            else Inr (h, l\<lparr>head := nd_next node\<rparr>)) (\<lambda>(h, l).
     bindR (deref h (Some p)) (\<lambda>node.
     if nd_next node \<noteq> None
     then bindR (set_prev (nd_next node) (nd_prev node) h) (\<lambda>h. Inr (h, l))
     else Inr (h, l\<lparr>tail := nd_prev node\<rparr>)))))"

definition list_delete_node :: "nat \<Rightarrow> 'a heap \<times> list_hdr \<Rightarrow> ('a heap \<times> list_hdr) res" where
  "list_delete_node p s = bindR (unlink_node p s) (\<lambda>(h, l).
     Inr (h(p := None), l\<lparr>count := count l - 1\<rparr>))"

definition list_movefront_node :: "nat \<Rightarrow> 'a heap \<times> list_hdr \<Rightarrow> ('a heap \<times> list_hdr) res" where
  "list_movefront_node p s =
     (if head (snd s) = Some p then Inr s
      else bindR (unlink_node p s) (\<lambda>(h, l).
        bindR (if head l \<noteq> None
               then bindR (deref h (head l)) (\<lambda>hd.
                    bindR (set_prev (Some p) (nd_prev hd) h) (\<lambda>h. set_prev (head l) (Some p) h))
               else Inr h) (\<lambda>h.
        bindR (set_next (Some p) (head l) h) (\<lambda>h.
        Inr (h, l\<lparr>head := Some p\<rparr>)))))"

text \<open>
  The pointer loops. On a heap whose \<^verbatim>\<open>next\<close> pointers form a cycle they do not end, which is
  the outer \<open>None\<close>. \<open>find_node\<close> is the loop of \<^verbatim>\<open>listnode_delete\<close> (which compares data pointers,
  \<^verbatim>\<open>NULL\<close> ones too) and of \<^verbatim>\<open>list_hasmember\<close> (whose test fails on \<^verbatim>\<open>NULL\<close> data).
\<close>

partial_function (option) find_node ::
  "('a option \<Rightarrow> bool) \<Rightarrow> 'a heap \<Rightarrow> nat option \<Rightarrow> nat option res option"
where
  "find_node test h p = (case p of None \<Rightarrow> Some (Inr None)
     | Some a \<Rightarrow> (case h a of None \<Rightarrow> Some (Inl Use_after_free)
         | Some n \<Rightarrow> if test (nd_data n) then Some (Inr (Some a))
                    else find_node test h (nd_next n)))"

definition listnode_delete ::
  "'a option \<Rightarrow> 'a heap \<times> list_hdr \<Rightarrow> ('a heap \<times> list_hdr) res option"
where
  "listnode_delete val s =
     (case find_node (\<lambda>d. d = val) (fst s) (head (snd s)) of
        None \<Rightarrow> None
      | Some (Inl e) \<Rightarrow> Some (Inl e)
      | Some (Inr None) \<Rightarrow> Some (Inr s)
      | Some (Inr (Some p)) \<Rightarrow> Some (list_delete_node p s))"

text \<open>
  \<^verbatim>\<open>list_delete_all_node\<close> passes each data pointer to the destructor \<^verbatim>\<open>list->del\<close> (when there is
  one) and frees the node; the model returns the data pointers in the order of those calls.
\<close>

partial_function (option) delete_nodes ::
  "'a heap \<Rightarrow> nat option \<Rightarrow> 'a option list \<Rightarrow> ('a option list \<times> 'a heap) res option"
where
  "delete_nodes h p deleted = (case p of None \<Rightarrow> Some (Inr (deleted, h))
     | Some a \<Rightarrow> (case h a of None \<Rightarrow> Some (Inl Use_after_free)
         | Some n \<Rightarrow> delete_nodes (h(a := None)) (nd_next n) (deleted @ [nd_data n])))"

definition list_delete_all_node ::
  "'a heap \<times> list_hdr \<Rightarrow> ('a option list \<times> 'a heap \<times> list_hdr) res option"
where
  "list_delete_all_node s = (case delete_nodes (fst s) (head (snd s)) [] of
      None \<Rightarrow> None
    | Some (Inl e) \<Rightarrow> Some (Inl e)
    | Some (Inr (ds, h)) \<Rightarrow> Some (Inr (ds, h, (snd s)\<lparr>head := None, tail := None, count := 0\<rparr>)))"

text \<open>\<^verbatim>\<open>list_delete\<close> is the same loop, after which the header itself is freed.\<close>

definition list_delete :: "'a heap \<times> list_hdr \<Rightarrow> ('a option list \<times> 'a heap) res option" where
  "list_delete s = delete_nodes (fst s) (head (snd s)) []"

section \<open>Well-formed lists\<close>

text \<open>
  \<open>dseg h pv f ps l nx\<close>: from \<open>f\<close> the \<^verbatim>\<open>next\<close> pointers visit exactly \<open>ps\<close> and end in \<open>nx\<close>, the
  \<^verbatim>\<open>prev\<close> pointers go back from \<open>l\<close> to \<open>pv\<close>.
\<close>

fun dseg :: "'a heap \<Rightarrow> nat option \<Rightarrow> nat option \<Rightarrow> nat list \<Rightarrow> nat option \<Rightarrow> nat option \<Rightarrow> bool" where
  "dseg h pv f [] l nx \<longleftrightarrow> f = nx \<and> l = pv"
| "dseg h pv f (a # as) l nx \<longleftrightarrow>
     f = Some a \<and> (\<exists>n. h a = Some n \<and> nd_prev n = pv \<and> dseg h (Some a) (nd_next n) as l nx)"

definition dll :: "'a heap \<times> list_hdr \<Rightarrow> nat list \<Rightarrow> bool" where
  "dll s ps \<longleftrightarrow> dseg (fst s) None (head (snd s)) ps (tail (snd s)) None \<and> distinct ps
     \<and> count (snd s) = int (length ps)"

text \<open>The data pointers along a list of nodes: what the list represents.\<close>

definition datas :: "'a heap \<Rightarrow> nat list \<Rightarrow> 'a option list" where
  "datas h ps = map (\<lambda>p. case h p of None \<Rightarrow> None | Some n \<Rightarrow> nd_data n) ps"

text \<open>Two heaps agree on every data pointer and on which cells are allocated.\<close>

definition same_data :: "'a heap \<Rightarrow> 'a heap \<Rightarrow> bool" where
  "same_data h h' \<longleftrightarrow> (\<forall>p. map_option nd_data (h' p) = map_option nd_data (h p))"

lemma same_data_refl [simp]: "same_data h h"
  by (simp add: same_data_def)

lemma same_data_trans: "same_data h h' \<Longrightarrow> same_data h' h'' \<Longrightarrow> same_data h h''"
  by (simp add: same_data_def)

lemma same_data_datas: "same_data h h' \<Longrightarrow> datas h' ps = datas h ps"
  unfolding datas_def same_data_def
  by (rule map_cong) (auto split: option.splits, (metis option.simps option.map)+)

lemma same_data_upd: "h p = Some n \<Longrightarrow> nd_data n' = nd_data n \<Longrightarrow> same_data h (h(p \<mapsto> n'))"
  by (simp add: same_data_def)

lemma datas_upd [simp]: "p \<notin> set ps \<Longrightarrow> datas (h(p := v)) ps = datas h ps"
  unfolding datas_def by (rule map_cong) auto

lemma datas_append [simp]: "datas h (ps @ qs) = datas h ps @ datas h qs"
  by (simp add: datas_def)

lemma datas_Nil [simp]: "datas h [] = []"
  by (simp add: datas_def)

lemma datas_Cons: "datas h (p # ps) = datas h [p] @ datas h ps"
  by (simp add: datas_def)

lemma dseg_append:
  "dseg h pv f (as @ bs) l nx \<longleftrightarrow> (\<exists>m k. dseg h pv f as m k \<and> dseg h m k bs l nx)"
  by (induction as arbitrary: pv f) auto

lemma dseg_upd [simp]:
  "a \<notin> set ps \<Longrightarrow> dseg (h(a := v)) pv f ps l nx = dseg h pv f ps l nx"
  by (induction ps arbitrary: pv f) auto

lemma dseg_alloc: "dseg h pv f ps l nx \<Longrightarrow> p \<in> set ps \<Longrightarrow> h p \<noteq> None"
  by (induction ps arbitrary: pv f) auto

lemma dseg_nonempty_last: "dseg h pv f (as @ [q]) l nx \<Longrightarrow> l = Some q"
  by (auto simp: dseg_append)

lemma dseg_set_next:
  assumes "dseg h pv f (as @ [q]) l nx" and "distinct (as @ [q])"
  obtains h' where "set_next (Some q) v h = Inr h'" "dseg h' pv f (as @ [q]) l v"
    "same_data h h'" "\<And>a. a \<noteq> q \<Longrightarrow> h' a = h a"
proof -
  from assms(1) obtain m n where as: "dseg h pv f as m (Some q)"
    and q: "h q = Some n" "nd_prev n = m" and l: "l = Some q"
    by (auto simp: dseg_append)
  let ?h' = "h(q \<mapsto> n\<lparr>nd_next := v\<rparr>)"
  show thesis
  proof
    show "set_next (Some q) v h = Inr ?h'" using q by (simp add: set_next_def deref_def)
    show "dseg ?h' pv f (as @ [q]) l v"
      using as q l assms(2) by (auto simp: dseg_append)
    show "same_data h ?h'" using q by (simp add: same_data_upd)
  qed simp
qed

lemma dseg_set_prev:
  assumes "dseg h pv f (b # bs) l nx" and "distinct (b # bs)"
  obtains h' where "set_prev (Some b) v h = Inr h'" "dseg h' v f (b # bs) l nx"
    "same_data h h'" "\<And>a. a \<noteq> b \<Longrightarrow> h' a = h a"
proof -
  from assms(1) obtain n where b: "h b = Some n" "f = Some b"
    and bs: "dseg h (Some b) (nd_next n) bs l nx"
    by auto
  let ?h' = "h(b \<mapsto> n\<lparr>nd_prev := v\<rparr>)"
  show thesis
  proof
    show "set_prev (Some b) v h = Inr ?h'" using b by (simp add: set_prev_def deref_def)
    show "dseg ?h' v f (b # bs) l nx" using b bs assms(2) by simp
    show "same_data h ?h'" using b by (simp add: same_data_upd)
  qed simp
qed

lemma dseg_frame:
  "(\<And>a. a \<in> set ps \<Longrightarrow> h' a = h a) \<Longrightarrow> dseg h' pv f ps l nx = dseg h pv f ps l nx"
  by (induction ps arbitrary: pv f) auto


section \<open>The operations on well-formed lists\<close>

lemma unlink_prev_half:
  assumes "dseg h None f as m (Some p)" "distinct as" "p \<notin> set as"
    and "h p = Some n" "nd_prev n = m" "f = head l"
  obtains h' l' where
    "(if nd_prev n \<noteq> None then bindR (set_next (nd_prev n) (nd_next n) h) (\<lambda>h. Inr (h, l))
      else Inr (h, l\<lparr>head := nd_next n\<rparr>)) = Inr (h', l')"
    "dseg h' None (head l') as m (nd_next n)" "same_data h h'"
    "\<And>a. a \<notin> set as \<Longrightarrow> h' a = h a" "tail l' = tail l" "count l' = count l"
proof (cases as rule: rev_cases)
  case Nil
  with assms that [of h "l\<lparr>head := nd_next n\<rparr>"] show thesis by simp
next
  case (snoc as' q)
  with assms have seg: "dseg h None f (as' @ [q]) m (Some p)" and d: "distinct (as' @ [q])"
    by simp_all
  obtain h' where h': "set_next (Some q) (nd_next n) h = Inr h'"
      "dseg h' None f (as' @ [q]) m (nd_next n)" "same_data h h'" "\<And>a. a \<noteq> q \<Longrightarrow> h' a = h a"
    using dseg_set_next [OF seg d] by blast
  moreover have "nd_prev n = Some q" using dseg_nonempty_last [OF seg] assms(5) by simp
  ultimately show thesis using snoc assms(6) by (intro that [of h' l]) auto
qed

lemma unlink_next_half:
  assumes "dseg h (Some p) (nd_next n) bs (tail l) None" "distinct bs"
    and "h p = Some n" "nd_prev n = m"
  obtains h' l' where
    "(if nd_next n \<noteq> None then bindR (set_prev (nd_next n) (nd_prev n) h) (\<lambda>h. Inr (h, l))
      else Inr (h, l\<lparr>tail := nd_prev n\<rparr>)) = Inr (h', l')"
    "dseg h' m (nd_next n) bs (tail l') None" "same_data h h'"
    "\<And>a. a \<notin> set bs \<Longrightarrow> h' a = h a" "head l' = head l" "count l' = count l"
proof (cases bs)
  case Nil
  with assms that [of h "l\<lparr>tail := nd_prev n\<rparr>"] show thesis by simp
next
  case (Cons b bs')
  with assms have seg: "dseg h (Some p) (nd_next n) (b # bs') (tail l) None"
    and d: "distinct (b # bs')" by simp_all
  obtain h' where "set_prev (Some b) m h = Inr h'"
      "dseg h' m (nd_next n) (b # bs') (tail l) None" "same_data h h'" "\<And>a. a \<noteq> b \<Longrightarrow> h' a = h a"
    using dseg_set_prev [OF seg d] by blast
  moreover have "nd_next n = Some b" using seg by simp
  ultimately show thesis using Cons assms(4) by (intro that [of h' l]) auto
qed

text \<open>
  Unlinking the node in the middle joins the two halves; the node's own cell is not touched.
\<close>

lemma unlink_node_dll:
  assumes "dll (h, l) (as @ p # bs)"
  obtains h' l' where "unlink_node p (h, l) = Inr (h', l')"
    "dseg h' None (head l') (as @ bs) (tail l') None" "same_data h h'" "h' p = h p"
    "\<And>a. a \<notin> set (as @ bs) \<Longrightarrow> h' a = h a" "count l' = count l"
proof -
  from assms have dist: "distinct (as @ p # bs)" by (simp add: dll_def)
  from assms obtain m n where as: "dseg h None (head l) as m (Some p)"
    and p: "h p = Some n" "nd_prev n = m" and bs: "dseg h (Some p) (nd_next n) bs (tail l) None"
    by (auto simp: dll_def dseg_append)
  have d: "distinct as" "distinct bs" "p \<notin> set as" "p \<notin> set bs" "set as \<inter> set bs = {}"
    using dist by auto
  obtain h1 l1 where
    one: "(if nd_prev n \<noteq> None then bindR (set_next (nd_prev n) (nd_next n) h) (\<lambda>h. Inr (h, l))
      else Inr (h, l\<lparr>head := nd_next n\<rparr>)) = Inr (h1, l1)"
    and seg1: "dseg h1 None (head l1) as m (nd_next n)" "same_data h h1"
    and out1: "\<And>a. a \<notin> set as \<Longrightarrow> h1 a = h a" and l1: "tail l1 = tail l" "count l1 = count l"
    using unlink_prev_half [OF as d(1,3) p refl] by blast
  have p1: "h1 p = Some n" using out1 d(3) p by simp
  have fr1: "\<And>a. a \<in> set bs \<Longrightarrow> h1 a = h a" using out1 d(5) by auto
  have bs1: "dseg h1 (Some p) (nd_next n) bs (tail l1) None"
    using bs l1 by (simp add: dseg_frame [OF fr1])
  obtain h2 l2 where
    two: "(if nd_next n \<noteq> None then bindR (set_prev (nd_next n) (nd_prev n) h1) (\<lambda>h. Inr (h, l1))
      else Inr (h1, l1\<lparr>tail := nd_prev n\<rparr>)) = Inr (h2, l2)"
    and seg2: "dseg h2 m (nd_next n) bs (tail l2) None" "same_data h1 h2"
    and out2: "\<And>a. a \<notin> set bs \<Longrightarrow> h2 a = h1 a" and l2: "head l2 = head l1" "count l2 = count l1"
    using unlink_next_half [OF bs1 d(2) p1 p(2)] by blast
  have fr2: "\<And>a. a \<in> set as \<Longrightarrow> h2 a = h1 a" using out2 d(5) by auto
  have "dseg h2 None (head l2) as m (nd_next n)"
    using seg1(1) l2 by (simp add: dseg_frame [OF fr2])
  then have join: "dseg h2 None (head l2) (as @ bs) (tail l2) None"
    using seg2(1) by (auto simp: dseg_append)
  have d0: "deref h (Some p) = Inr n" and d1: "deref h1 (Some p) = Inr n"
    using p p1 by (simp_all add: deref_def)
  have "unlink_node p (h, l) = Inr (h2, l2)"
    by (simp only: unlink_node_def prod.case d0 d1 bindR_simps one two)
  moreover have "same_data h h2" using seg1(2) seg2(2) by (rule same_data_trans)
  moreover have "\<And>a. a \<notin> set (as @ bs) \<Longrightarrow> h2 a = h a" using out1 out2 by simp
  moreover have "h2 p = h p" using out1 out2 d by simp
  ultimately show thesis using join l1 l2 by (intro that [of h2 l2]) auto
qed

lemma list_delete_node_dll:
  assumes "dll (h, l) (as @ p # bs)"
  obtains h' l' where "list_delete_node p (h, l) = Inr (h', l')" "dll (h', l') (as @ bs)"
    "h' p = None" "datas h' (as @ bs) = datas h (as @ bs)"
    "\<And>a. a \<notin> set (as @ p # bs) \<Longrightarrow> h' a = h a"
proof -
  obtain h1 l1 where u: "unlink_node p (h, l) = Inr (h1, l1)"
    "dseg h1 None (head l1) (as @ bs) (tail l1) None" "same_data h h1"
    "\<And>a. a \<notin> set (as @ bs) \<Longrightarrow> h1 a = h a" "count l1 = count l"
    using unlink_node_dll [OF assms] by blast
  have d: "p \<notin> set (as @ bs)" "distinct (as @ bs)" "count l = int (length (as @ bs)) + 1"
    using assms by (auto simp: dll_def)
  show thesis
  proof
    show "list_delete_node p (h, l) = Inr (h1(p := None), l1\<lparr>count := count l1 - 1\<rparr>)"
      using u(1) by (simp add: list_delete_node_def)
    show "dll (h1(p := None), l1\<lparr>count := count l1 - 1\<rparr>) (as @ bs)"
      using u d by (simp add: dll_def)
    show "datas (h1(p := None)) (as @ bs) = datas h (as @ bs)"
      using d(1) same_data_datas [OF u(3), of "as @ bs"] by simp
  qed (use u d in auto)
qed

lemma find_node_dseg:
  assumes "dseg h pv f ps l None"
  shows "find_node test h f = Some (Inr (find (\<lambda>p. test (hd (datas h [p]))) ps))"
  using assms
proof (induction ps arbitrary: pv f)
  case Nil
  then show ?case by (simp add: find_node.simps)
next
  case (Cons a as)
  then obtain n where n: "h a = Some n" "f = Some a" "dseg h (Some a) (nd_next n) as l None" by auto
  with Cons.IH [OF n(3)] show ?case
    by (simp add: find_node.simps [of test h "Some a"] datas_def)
qed

lemma find_split:
  "find P xs = Some x \<Longrightarrow> \<exists>as bs. xs = as @ x # bs \<and> P x \<and> (\<forall>y \<in> set as. \<not> P y)"
proof (induction xs)
  case (Cons y ys)
  show ?case
  proof (cases "P y")
    case True
    with Cons.prems show ?thesis by (intro exI [of _ "[]"] exI [of _ ys]) auto
  next
    case False
    with Cons obtain as bs where "ys = as @ x # bs" "P x" "\<forall>z \<in> set as. \<not> P z" by auto
    with False show ?thesis by (intro exI [of _ "y # as"] exI [of _ bs]) auto
  qed
qed simp

lemma datas_notin:
  "\<forall>y \<in> set as. hd (datas h [y]) \<noteq> v \<Longrightarrow> v \<notin> set (datas h as)"
  by (auto simp: datas_def)

lemma delete_nodes_dseg:
  assumes "dseg h pv f ps l None" "distinct ps"
  obtains h' where "delete_nodes h f ds = Some (Inr (ds @ datas h ps, h'))"
    "\<And>a. h' a = (if a \<in> set ps then None else h a)"
  using assms
proof (induction ps arbitrary: pv f h ds thesis)
  case Nil
  then show ?case by (simp add: delete_nodes.simps)
next
  case (Cons a as)
  then obtain n where n: "h a = Some n" "f = Some a" "dseg h (Some a) (nd_next n) as l None" by auto
  then have "dseg (h(a := None)) (Some a) (nd_next n) as l None" using Cons.prems by simp
  then obtain h' where "delete_nodes (h(a := None)) (nd_next n) (ds @ [nd_data n])
      = Some (Inr ((ds @ [nd_data n]) @ datas (h(a := None)) as, h'))"
    "\<And>b. h' b = (if b \<in> set as then None else (h(a := None)) b)"
    using Cons.IH Cons.prems by (metis distinct.simps(2))
  moreover have "datas h (a # as) = nd_data n # datas h as" using n by (simp add: datas_def)
  ultimately show ?case
    using n Cons.prems by (intro Cons.prems(1) [of h']) (auto simp: delete_nodes.simps [of h "Some a"])
qed

text \<open>Appending: the pointers of \<^verbatim>\<open>listnode_add\<close>.\<close>

lemma listnode_add_dll:
  assumes "dll (h, l) ps" and "malloc h = Some n" and "h n = None"
  obtains h' l' where "listnode_add malloc v (h, l) = Inr (Some n, h', l')" "dll (h', l') (ps @ [n])"
    "datas h' (ps @ [n]) = datas h ps @ [v]" "\<And>a. a \<notin> set (ps @ [n]) \<Longrightarrow> h' a = h a"
proof -
  have seg: "dseg h None (head l) ps (tail l) None" and dist: "distinct ps"
    and cnt: "count l = int (length ps)"
    using assms(1) by (simp_all add: dll_def)
  have nin: "n \<notin> set ps" using dseg_alloc [OF seg, of n] assms(3) by auto
  let ?c = "\<lparr>nd_next = None, nd_prev = tail l, nd_data = v\<rparr>"
  let ?h = "h(n \<mapsto> ?c)"
  have new: "listnode_new malloc h = (Some n, h(n \<mapsto> \<lparr>nd_next = None, nd_prev = None, nd_data = None\<rparr>))"
    using assms by (simp add: listnode_new_def)
  show thesis
  proof (cases ps rule: rev_cases)
    case Nil
    then show thesis
      using seg cnt assms new
      by (intro that [of ?h "l\<lparr>head := Some n, tail := Some n, count := count l + 1\<rparr>"])
        (auto simp: listnode_add_def dll_def datas_def deref_def)
  next
    case (snoc as q)
    have seg1: "dseg ?h None (head l) (as @ [q]) (tail l) None" using seg snoc nin by simp
    obtain h' where h': "set_next (Some q) (Some n) ?h = Inr h'"
      "dseg h' None (head l) (as @ [q]) (tail l) (Some n)" "same_data ?h h'"
      "\<And>a. a \<noteq> q \<Longrightarrow> h' a = ?h a"
      using dseg_set_next [OF seg1 dist [unfolded snoc]] by blast
    have tl: "tail l = Some q" using dseg_nonempty_last [OF seg1] .
    have hd: "head l \<noteq> None" using seg snoc by (cases as) auto
    have nq: "n \<noteq> q" using nin snoc by simp
    have n': "h' n = Some ?c" using h'(4) [OF nq] by simp
    show thesis
    proof
      show "listnode_add malloc v (h, l)
          = Inr (Some n, h', l\<lparr>tail := Some n, count := count l + 1\<rparr>)"
        using new h'(1) tl hd cnt by (auto simp: listnode_add_def deref_def Let_def)
      have "dseg h' None (head l) ((as @ [q]) @ [n]) (Some n) None"
        unfolding dseg_append [of _ _ _ "as @ [q]"] using h'(2) n' tl by auto
      then show "dll (h', l\<lparr>tail := Some n, count := count l + 1\<rparr>) (ps @ [n])"
        using snoc dist nin cnt by (simp add: dll_def)
      show "datas h' (ps @ [n]) = datas h ps @ [v]"
        using same_data_datas [OF h'(3), of ps] n' nin by (simp add: datas_def)
      show "\<And>a. a \<notin> set (ps @ [n]) \<Longrightarrow> h' a = h a" using h'(4) snoc by auto
    qed
  qed
qed


lemma list_movefront_node_dll:
  assumes "dll (h, l) (as @ p # bs)"
  obtains h' l' where "list_movefront_node p (h, l) = Inr (h', l')" "dll (h', l') (p # as @ bs)"
    "same_data h h'" "\<And>a. a \<notin> set (as @ p # bs) \<Longrightarrow> h' a = h a"
proof (cases as)
  case Nil
  with assms have "head l = Some p" by (simp add: dll_def)
  with Nil assms show thesis by (intro that [of h l]) (simp_all add: list_movefront_node_def)
next
  case (Cons q qs)
  have dist: "distinct (as @ p # bs)" and cnt: "count l = int (length (p # as @ bs))"
    using assms by (simp_all add: dll_def)
  have hd: "head l = Some q" and qp: "q \<noteq> p" using assms Cons by (auto simp: dll_def)
  obtain h1 l1 where u: "unlink_node p (h, l) = Inr (h1, l1)"
    "dseg h1 None (head l1) (as @ bs) (tail l1) None" "same_data h h1" "h1 p = h p"
    "\<And>a. a \<notin> set (as @ bs) \<Longrightarrow> h1 a = h a" "count l1 = count l"
    using unlink_node_dll [OF assms] by blast
  obtain n where n: "h1 p = Some n" using u(4) assms by (auto simp: dll_def dseg_append)
  obtain nq where q: "h1 q = Some nq" "nd_prev nq = None" "head l1 = Some q"
      "dseg h1 (Some q) (nd_next nq) (qs @ bs) (tail l1) None"
    using u(2) Cons by auto
  let ?h = "h1(p \<mapsto> n\<lparr>nd_prev := None, nd_next := Some q\<rparr>, q \<mapsto> nq\<lparr>nd_prev := Some p\<rparr>)"
  show thesis
  proof
    show "list_movefront_node p (h, l) = Inr (?h, l1\<lparr>head := Some p\<rparr>)"
      using hd qp u(1) n q
      by (simp add: list_movefront_node_def set_prev_def set_next_def deref_def fun_upd_twist)
    have "dseg ?h (Some q) (nd_next nq) (qs @ bs) (tail l1) None"
      using q(4) dist Cons by simp
    then show "dll (?h, l1\<lparr>head := Some p\<rparr>) (p # as @ bs)"
      using dist cnt u(6) Cons qp by (auto simp: dll_def)
    have "same_data h1 (h1(p \<mapsto> n\<lparr>nd_prev := None, nd_next := Some q\<rparr>))"
      using n by (simp add: same_data_upd)
    moreover have "same_data (h1(p \<mapsto> n\<lparr>nd_prev := None, nd_next := Some q\<rparr>)) ?h"
      using q qp by (intro same_data_upd [of _ q nq]) simp_all
    ultimately show "same_data h ?h" using u(3) same_data_trans by blast
    show "\<And>a. a \<notin> set (as @ p # bs) \<Longrightarrow> ?h a = h a" using u(5) Cons by simp
  qed
qed


section \<open>Correctness of the pointer operations\<close>

text \<open>
  \<^verbatim>\<open>listnode_add\<close> on a well-formed list never faults. When \<^verbatim>\<open>malloc\<close> fails it returns
  \<^verbatim>\<open>NULL\<close> and changes nothing; otherwise the list is well formed again, with one node more at the
  end that holds the value, every other data pointer where it was, and no cell outside the list
  written.
\<close>

lemma listnode_add_correct:
  assumes "dll (h, l) ps" and "malloc_fresh malloc"
  shows "(malloc h = None \<and> listnode_add malloc v (h, l) = Inr (None, h, l)) \<or>
    (\<exists>n h' l'. listnode_add malloc v (h, l) = Inr (Some n, h', l') \<and> dll (h', l') (ps @ [n])
      \<and> datas h' (ps @ [n]) = datas h ps @ [v] \<and> (\<forall>a. a \<notin> set (ps @ [n]) \<longrightarrow> h' a = h a))"
proof (cases "malloc h")
  case None
  then show ?thesis by (simp add: listnode_add_def listnode_new_def)
next
  case (Some n)
  with assms(2) have "h n = None" by (simp add: malloc_fresh_def)
  with assms(1) Some obtain h' l' where
    "listnode_add malloc v (h, l) = Inr (Some n, h', l')" "dll (h', l') (ps @ [n])"
    "datas h' (ps @ [n]) = datas h ps @ [v]" "\<And>a. a \<notin> set (ps @ [n]) \<Longrightarrow> h' a = h a"
    using listnode_add_dll [of h l ps malloc n v] by blast
  then show ?thesis by blast
qed


text \<open>
  \<^verbatim>\<open>list_movefront_node\<close> on any node of a well-formed list moves that node to the front and
  keeps the order of the others, all data pointers and everything outside the list.
\<close>

lemma list_movefront_node_correct:
  assumes "dll (h, l) (as @ p # bs)"
  shows "\<exists>h' l'. list_movefront_node p (h, l) = Inr (h', l') \<and> dll (h', l') (p # as @ bs)
    \<and> datas h' (p # as @ bs) = datas h (p # as @ bs) \<and> (\<forall>a. a \<notin> set (as @ p # bs) \<longrightarrow> h' a = h a)"
proof -
  obtain h' l' where "list_movefront_node p (h, l) = Inr (h', l')" "dll (h', l') (p # as @ bs)"
    "same_data h h'" "\<And>a. a \<notin> set (as @ p # bs) \<Longrightarrow> h' a = h a"
    using list_movefront_node_dll [OF assms] by blast
  then show ?thesis using same_data_datas by blast
qed

text \<open>
  \<^verbatim>\<open>list_delete_all_node\<close> on a well-formed list ends, calls the destructor once on each data
  pointer in list order, frees every node of the list and nothing else, and leaves the empty list.
\<close>

lemma list_delete_all_node_correct:
  assumes "dll (h, l) ps"
  shows "\<exists>h' l'. list_delete_all_node (h, l) = Some (Inr (datas h ps, h', l')) \<and> dll (h', l') []
    \<and> list_isempty l' \<and> (\<forall>a. h' a = (if a \<in> set ps then None else h a))"
proof -
  have "dseg h None (head l) ps (tail l) None" "distinct ps" using assms by (simp_all add: dll_def)
  then obtain h' where "delete_nodes h (head l) [] = Some (Inr ([] @ datas h ps, h'))"
    "\<And>a. h' a = (if a \<in> set ps then None else h a)"
    using delete_nodes_dseg [of h None "head l" ps "tail l" "[]"] by metis
  then show ?thesis by (simp add: list_delete_all_node_def dll_def list_isempty_def)
qed

lemma list_delete_correct:
  assumes "dll (h, l) ps"
  shows "\<exists>h'. list_delete (h, l) = Some (Inr (datas h ps, h')) \<and> (\<forall>a. h' a = (if a \<in> set ps then None else h a))"
  using list_delete_all_node_correct [OF assms] unfolding list_delete_def list_delete_all_node_def
  by (auto split: option.splits sum.splits)

text \<open>A concrete list of two nodes, at which the theorems apply.\<close>

definition example_heap :: "nat heap" where
  "example_heap = [10 \<mapsto> \<lparr>nd_next = Some 20, nd_prev = None, nd_data = Some 7\<rparr>,
                   20 \<mapsto> \<lparr>nd_next = None, nd_prev = Some 10, nd_data = Some 8\<rparr>]"

definition example_hdr :: list_hdr where
  "example_hdr = \<lparr>head = Some 10, tail = Some 20, count = 2\<rparr>"

definition example_malloc :: "nat heap \<Rightarrow> nat option" where
  "example_malloc h = (if h 30 = None then Some 30 else None)"

lemma example_dll: "dll (example_heap, example_hdr) [10, 20]"
  by (simp add: dll_def example_heap_def example_hdr_def)

lemma example_malloc_fresh: "malloc_fresh example_malloc"
  by (simp add: malloc_fresh_def example_malloc_def)

lemma listnode_add_correct_witness:
  "\<exists>n h' l'. listnode_add example_malloc (Some 9) (example_heap, example_hdr) = Inr (Some n, h', l')
     \<and> dll (h', l') ([10, 20] @ [n]) \<and> datas h' ([10, 20] @ [n]) = [Some 7, Some 8, Some 9]"
proof -
  have "example_malloc example_heap \<noteq> None"
    by (simp add: example_malloc_def example_heap_def)
  moreover have "datas example_heap [10, 20] = [Some 7, Some 8]"
    by (simp add: datas_def example_heap_def)
  ultimately show ?thesis
    using listnode_add_correct [OF example_dll example_malloc_fresh, of "Some 9"] by auto
qed


lemma list_movefront_node_correct_example:
  "\<exists>h' l'. list_movefront_node 20 (example_heap, example_hdr) = Inr (h', l')
     \<and> dll (h', l') [20, 10] \<and> datas h' [20, 10] = [Some 8, Some 7]"
proof -
  have "dll (example_heap, example_hdr) ([10] @ 20 # [])" using example_dll by simp
  moreover have "datas example_heap [20, 10] = [Some 8, Some 7]"
    by (simp add: datas_def example_heap_def)
  ultimately show ?thesis
    using list_movefront_node_correct [of example_heap example_hdr "[10]" 20 "[]"] by auto
qed

lemma list_delete_all_node_correct_witness:
  "\<exists>h' l'. list_delete_all_node (example_heap, example_hdr) = Some (Inr ([Some 7, Some 8], h', l'))
     \<and> list_isempty l' \<and> h' 10 = None \<and> h' 20 = None"
  using list_delete_all_node_correct [OF example_dll] by (auto simp: datas_def example_heap_def)


section \<open>The set operations on sequences\<close>

text \<open>
  From here on a list is the sequence of its data pointers, front to back. \<open>cmp\<close> is the
  \<^verbatim>\<open>list->cmp\<close> function pointer (\<open>None\<close> for \<^verbatim>\<open>NULL\<close>), \<open>copy\<close> the \<^verbatim>\<open>list->copy\<close> one; each
  operation takes the pointers of the argument whose fields the code reads.
\<close>

fun list_hasmember :: "('a \<Rightarrow> 'a \<Rightarrow> bool) option \<Rightarrow> 'a option list \<Rightarrow> 'a \<Rightarrow> 'a option" where
  "list_hasmember cmp [] needle = None"
| "list_hasmember cmp (None # xs) needle = list_hasmember cmp xs needle"
| "list_hasmember cmp (Some e # xs) needle =
     (if (case cmp of Some c \<Rightarrow> c e needle | None \<Rightarrow> e = needle) then Some e
      else list_hasmember cmp xs needle)"

fun list_intersect_a :: "('a \<Rightarrow> 'a \<Rightarrow> bool) option \<Rightarrow> ('a \<Rightarrow> 'a) \<Rightarrow> 'a option list
    \<Rightarrow> 'a option list \<Rightarrow> 'a option list \<Rightarrow> 'a option list" where
  "list_intersect_a cmp_b copy b [] result = result"
| "list_intersect_a cmp_b copy b (None # as) result = list_intersect_a cmp_b copy b as result"
| "list_intersect_a cmp_b copy b (Some e # as) result =
     list_intersect_a cmp_b copy b as
       (if list_hasmember cmp_b b e \<noteq> None then result @ [Some (copy e)] else result)"

fun list_intersect_b :: "('a \<Rightarrow> 'a \<Rightarrow> bool) option \<Rightarrow> ('a \<Rightarrow> 'a) \<Rightarrow> 'a option list
    \<Rightarrow> 'a option list \<Rightarrow> 'a option list \<Rightarrow> 'a option list" where
  "list_intersect_b cmp_a copy a [] result = result"
| "list_intersect_b cmp_a copy a (None # bs) result = list_intersect_b cmp_a copy a bs result"
| "list_intersect_b cmp_a copy a (Some e # bs) result =
     list_intersect_b cmp_a copy a bs
       (if list_hasmember cmp_a a e \<noteq> None \<and> list_hasmember cmp_a result e = None
        then result @ [Some (copy e)] else result)"

definition list_intersect :: "('a \<Rightarrow> 'a \<Rightarrow> bool) option \<Rightarrow> ('a \<Rightarrow> 'a)
    \<Rightarrow> ('a \<Rightarrow> 'a \<Rightarrow> bool) option \<Rightarrow> 'a option list \<Rightarrow> 'a option list \<Rightarrow> 'a option list" where
  "list_intersect cmp_a copy_a cmp_b a b =
     list_intersect_b cmp_a copy_a a b (list_intersect_a cmp_b copy_a b a [])"

definition copy_elem :: "('a \<Rightarrow> 'a) option \<Rightarrow> 'a \<Rightarrow> 'a" where
  "copy_elem copy e = (case copy of Some f \<Rightarrow> f e | None \<Rightarrow> e)"

fun list_union_add :: "('a \<Rightarrow> 'a \<Rightarrow> bool) option \<Rightarrow> ('a \<Rightarrow> 'a) option
    \<Rightarrow> 'a option list \<Rightarrow> 'a option list \<Rightarrow> 'a option list" where
  "list_union_add cmp copy [] result = result"
| "list_union_add cmp copy (None # bs) result = list_union_add cmp copy bs result"
| "list_union_add cmp copy (Some e # bs) result =
     list_union_add cmp copy bs
       (if list_hasmember cmp result e = None then result @ [Some (copy_elem copy e)] else result)"

fun list_copy_all :: "('a \<Rightarrow> 'a) option \<Rightarrow> 'a option list \<Rightarrow> 'a option list \<Rightarrow> 'a option list" where
  "list_copy_all copy [] result = result"
| "list_copy_all copy (None # as) result = list_copy_all copy as result"
| "list_copy_all copy (Some e # as) result =
     list_copy_all copy as (result @ [Some (copy_elem copy e)])"

text \<open>The second argument of \<^verbatim>\<open>list_union\<close> may be \<^verbatim>\<open>NULL\<close>.\<close>

definition list_union :: "('a \<Rightarrow> 'a \<Rightarrow> bool) option \<Rightarrow> ('a \<Rightarrow> 'a) option
    \<Rightarrow> 'a option list \<Rightarrow> 'a option list option \<Rightarrow> 'a option list" where
  "list_union cmp_a copy_a a b = (let result = list_copy_all copy_a a [] in
     case b of None \<Rightarrow> result | Some b \<Rightarrow> list_union_add cmp_a copy_a b result)"

fun list_difference :: "('a \<Rightarrow> 'a) \<Rightarrow> ('a \<Rightarrow> 'a \<Rightarrow> bool) option
    \<Rightarrow> 'a option list \<Rightarrow> 'a option list \<Rightarrow> 'a option list" where
  "list_difference copy_a cmp_b [] b = []"
| "list_difference copy_a cmp_b (None # as) b = list_difference copy_a cmp_b as b"
| "list_difference copy_a cmp_b (Some e # as) b =
     (if list_hasmember cmp_b b e = None then [Some (copy_a e)] else []) @
     list_difference copy_a cmp_b as b"

text \<open>
  \<^verbatim>\<open>list_remove_all\<close> deletes, for each element of \<open>b\<close>, the first element of \<open>a\<close> that compares
  equal: \<^verbatim>\<open>list_hasmember\<close> returns its pointer and \<^verbatim>\<open>listnode_delete\<close> unlinks the node with it.
\<close>

definition elem_matches :: "('a \<Rightarrow> 'a \<Rightarrow> bool) option \<Rightarrow> 'a \<Rightarrow> 'a option \<Rightarrow> bool" where
  "elem_matches cmp needle x = (case x of None \<Rightarrow> False
     | Some e \<Rightarrow> (case cmp of Some c \<Rightarrow> c e needle | None \<Rightarrow> e = needle))"

fun list_remove_all :: "('a \<Rightarrow> 'a \<Rightarrow> bool) option \<Rightarrow> 'a option list \<Rightarrow> 'a option list \<Rightarrow> 'a option list" where
  "list_remove_all cmp_a a [] = a"
| "list_remove_all cmp_a a (None # bs) = list_remove_all cmp_a a bs"
| "list_remove_all cmp_a a (Some e # bs) =
     list_remove_all cmp_a (case index_of (elem_matches cmp_a e) a of
        None \<Rightarrow> a | Some i \<Rightarrow> remove_nth i a) bs"

text \<open>
  \<^verbatim>\<open>list_add_all\<close> overwrites its loop variable with the result of \<^verbatim>\<open>list_hasmember\<close>, so what it
  adds for an element that is missing from \<open>a\<close> is that result, \<^verbatim>\<open>NULL\<close>.
\<close>

fun list_add_all :: "('a \<Rightarrow> 'a \<Rightarrow> bool) option \<Rightarrow> 'a option list \<Rightarrow> 'a option list \<Rightarrow> 'a option list" where
  "list_add_all cmp_a a [] = a"
| "list_add_all cmp_a a (None # bs) = list_add_all cmp_a a bs"
| "list_add_all cmp_a a (Some e # bs) =
     list_add_all cmp_a (case list_hasmember cmp_a a e of None \<Rightarrow> a @ [None] | Some _ \<Rightarrow> a) bs"

section \<open>What the set operations compute\<close>

text \<open>The elements \<^verbatim>\<open>LIST_LOOP\<close> visits.\<close>

definition elems :: "'a option list \<Rightarrow> 'a list" where
  "elems xs = List.map_filter id xs"

lemma elems_simps [simp]:
  "elems [] = []" "elems (None # xs) = elems xs" "elems (Some e # xs) = e # elems xs"
  "elems (xs @ ys) = elems xs @ elems ys" "elems (map Some es) = es"
  by (simp_all add: elems_def map_filter_def)

lemma elems_replicate_None [simp]: "elems (replicate n None) = []"
  by (induction n) simp_all

lemma set_elems: "set (elems xs) = {e. Some e \<in> set xs}"
proof (induction xs)
  case (Cons x xs)
  then show ?case by (cases x) auto
qed simp

lemma list_hasmember_find:
  "list_hasmember (Some c) xs needle = find (\<lambda>e. c e needle) (elems xs)"
  by (induction "Some c" xs needle rule: list_hasmember.induct) auto

lemma list_hasmember_None:
  "list_hasmember (Some c) xs needle = None \<longleftrightarrow> (\<forall>e \<in> set (elems xs). \<not> c e needle)"
  by (auto simp: list_hasmember_find find_None_iff)

text \<open>\<^verbatim>\<open>list_hasmember\<close> is the pointer loop of the section on cells.\<close>

lemma find_node_list_hasmember:
  assumes "dll (h, l) ps"
  shows "\<exists>p. find_node (elem_matches cmp needle) h (head l) = Some (Inr p)
     \<and> list_hasmember cmp (datas h ps) needle = (case p of None \<Rightarrow> None | Some a \<Rightarrow> hd (datas h [a]))"
proof -
  let ?t = "elem_matches cmp needle"
  have "list_hasmember cmp xs needle
      = (case find ?t xs of None \<Rightarrow> None | Some d \<Rightarrow> d)" for xs
    by (induction cmp xs needle rule: list_hasmember.induct) (auto simp: elem_matches_def)
  moreover have "find ?t (datas h ps)
      = map_option (\<lambda>a. hd (datas h [a])) (find (\<lambda>p. ?t (hd (datas h [p]))) ps)"
    by (induction ps) (auto simp: datas_def)
  moreover have "find_node ?t h (head l) = Some (Inr (find (\<lambda>p. ?t (hd (datas h [p]))) ps))"
    using assms by (intro find_node_dseg [of h None _ _ "tail l"]) (simp add: dll_def)
  ultimately show ?thesis by (auto split: option.splits)
qed

lemma list_difference_filter:
  "list_difference id (Some c) xs b
     = map Some (filter (\<lambda>e. \<forall>x \<in> set (elems b). \<not> c x e) (elems xs))"
  by (induction "id :: 'a \<Rightarrow> 'a" "Some c" xs b rule: list_difference.induct)
    (auto simp: list_hasmember_None)

lemma list_intersect_a_filter:
  "list_intersect_a (Some c) id b xs r
     = r @ map Some (filter (\<lambda>e. \<exists>x \<in> set (elems b). c x e) (elems xs))"
  by (induction "Some c" "id :: 'a \<Rightarrow> 'a" b xs r rule: list_intersect_a.induct)
    (auto simp: list_hasmember_None)

text \<open>
  When the comparison is symmetric the second loop of \<^verbatim>\<open>list_intersect\<close> adds nothing.
\<close>

lemma list_intersect_b_idle:
  assumes "\<And>x y. c x y \<Longrightarrow> c y x"
    and "\<And>e x. e \<in> set (elems ys) \<Longrightarrow> x \<in> set (elems a) \<Longrightarrow> c x e \<Longrightarrow> x \<in> set (elems r)"
  shows "list_intersect_b (Some c) id a ys r = r"
  using assms(2)
proof (induction "Some c" "id :: 'a \<Rightarrow> 'a" a ys r rule: list_intersect_b.induct)
  case (3 a e bs r)
  then have "\<not> (list_hasmember (Some c) a e \<noteq> None \<and> list_hasmember (Some c) r e = None)"
    unfolding list_hasmember_None by auto
  then have keep: "(if list_hasmember (Some c) a e \<noteq> None \<and> list_hasmember (Some c) r e = None
      then r @ [Some (id e)] else r) = r" by (rule if_not_P)
  have "list_intersect_b (Some c) id a bs r = r"
    by (rule "3.hyps" [unfolded keep]) (use "3.prems" in auto)
  then show ?case by (simp only: list_intersect_b.simps keep)
qed simp_all

lemma list_intersect_filter:
  assumes sym: "\<And>x y. c x y \<Longrightarrow> c y x"
  shows "list_intersect (Some c) id (Some c) a b
     = map Some (filter (\<lambda>e. \<exists>x \<in> set (elems b). c x e) (elems a))"
  unfolding list_intersect_def list_intersect_a_filter
  using sym by (subst list_intersect_b_idle) auto

lemma list_copy_all_map: "list_copy_all copy xs r = r @ map (\<lambda>e. Some (copy_elem copy e)) (elems xs)"
  by (induction copy xs r rule: list_copy_all.induct) auto

lemma list_union_add_subset:
  "set (elems (list_union_add cmp (Some id) bs r)) \<subseteq> set (elems r) \<union> set (elems bs)"
  by (induction cmp "Some id :: ('a \<Rightarrow> 'a) option" bs r rule: list_union_add.induct)
    (auto simp: copy_elem_def)

lemma list_union_add_prefix: "\<exists>ys. list_union_add cmp copy bs r = r @ ys"
proof (induction cmp copy bs r rule: list_union_add.induct)
  case (3 cmp copy e bs r)
  then show ?case by (cases "list_hasmember cmp r e = None") auto
qed auto

end
