(* ===== verification/Tables.thy ===== *)
theory Tables
  imports Ecmh_Prelude
begin

text \<open>
  The interfaces that several components of the daemon share. \<open>keyed_table\<close> is the contract of the
  lookup functions (\<^verbatim>\<open>group_find\<close>, \<^verbatim>\<open>grpint_find\<close>, \<^verbatim>\<open>mrec_find\<close>, \<^verbatim>\<open>have_route\<close>): a list searched
  front to back for a key. \<open>source_sets\<close> is the contract of the list operations that the MLDv2
  state machine uses as set operations on sources. \<open>guarded_system\<close> is the contract between the
  event loop and its handlers: each one keeps the invariant. \<open>fixed_record\<close> is the contract of a
  packet format with its reader. The providers interpret them on
  their own definitions.
\<close>

section \<open>Tables searched by key\<close>

locale keyed_table =
  fixes key :: "'r \<Rightarrow> 'k" and find_key :: "'r list \<Rightarrow> 'k \<Rightarrow> nat option"
  assumes find_key_Some: "find_key t k = Some i \<Longrightarrow> i < length t \<and> key (t ! i) = k"
    and find_key_None: "find_key t k = None \<longleftrightarrow> k \<notin> key ` set t"
begin

lemma find_unique:
  assumes "distinct (map key t)" and "i < length t" and "key (t ! i) = k"
  shows "find_key t k = Some i"
proof (cases "find_key t k")
  case None
  then have "k \<notin> key ` set t" by (simp add: find_key_None)
  with assms show ?thesis by (metis imageI nth_mem)
next
  case (Some j)
  then have "j < length t" "key (t ! j) = k" using find_key_Some by auto
  with assms have "map key t ! i = map key t ! j" by simp
  with assms \<open>j < length t\<close> have "i = j" by (metis length_map nth_eq_iff_index_eq)
  with Some show ?thesis by simp
qed

lemma distinct_add: "distinct (map key t) \<Longrightarrow> find_key t (key r) = None \<Longrightarrow> distinct (map key (t @ [r]))"
  by (auto simp: find_key_None)

lemma find_add_new:
  assumes "distinct (map key t)" and "find_key t (key r) = None"
  shows "find_key (t @ [r]) (key r) = Some (length t)"
  by (rule find_unique) (use distinct_add [OF assms] in simp_all)

lemma find_add_old:
  assumes "distinct (map key t)" and "find_key t (key r) = None" and "k \<noteq> key r"
  shows "find_key (t @ [r]) k = find_key t k"
proof (cases "find_key t k")
  case None
  with assms(3) have "find_key (t @ [r]) k = None" by (auto simp: find_key_None)
  with None show ?thesis by simp
next
  case (Some i)
  then have "i < length t" "key (t ! i) = k" using find_key_Some by auto
  with Some assms show ?thesis
    using find_unique [OF distinct_add [OF assms(1,2)], of i k] by (simp add: nth_append)
qed

lemma distinct_update:
  "distinct (map key t) \<Longrightarrow> key r = key (t ! i) \<Longrightarrow> distinct (map key (t[i := r]))"
  by (simp only: map_list_update_id)

lemma find_update:
  assumes "distinct (map key t)" and "key r = key (t ! i)"
  shows "find_key (t[i := r]) k = find_key t k"
proof (cases "find_key t k")
  case None
  have "map key (t[i := r]) = map key t" using assms by (simp add: map_list_update_id)
  then have "key ` set (t[i := r]) = key ` set t" by (metis list.set_map)
  with None show ?thesis by (metis find_key_None)
next
  case (Some j)
  then have "j < length t" "key (t ! j) = k" using find_key_Some by auto
  with assms have "key (t[i := r] ! j) = k" by (cases "i = j") auto
  with Some \<open>j < length t\<close> show ?thesis
    using find_unique [OF distinct_update [OF assms]] by simp
qed

lemma distinct_remove: "distinct (map key t) \<Longrightarrow> distinct (map key (remove_nth i t))"
  by (simp add: map_remove_nth distinct_remove_nth)

lemma find_remove_self:
  assumes "distinct (map key t)" and "i < length t"
  shows "find_key (remove_nth i t) (key (t ! i)) = None"
proof -
  have "distinct (map key (take i t @ (t ! i) # drop (Suc i) t))"
    using assms by (simp add: id_take_nth_drop [symmetric])
  then show ?thesis by (auto simp: find_key_None remove_nth_def)
qed

end

lemma index_of_key_table:
  "keyed_table key (\<lambda>t k. index_of (\<lambda>r. key r = k) t)"
  by unfold_locales (auto simp: index_of_None dest: index_of_SomeD)

section \<open>Source lists used as sets\<close>

locale source_sets =
  fixes keys :: "'l \<Rightarrow> 'k set" and wf :: "'l \<Rightarrow> bool"
    and un :: "'l \<Rightarrow> 'l \<Rightarrow> 'l" and inter :: "'l \<Rightarrow> 'l \<Rightarrow> 'l" and diff :: "'l \<Rightarrow> 'l \<Rightarrow> 'l"
    and rem :: "'l \<Rightarrow> 'l \<Rightarrow> 'l"
  assumes keys_un: "keys (un a b) = keys a \<union> keys b"
    and keys_inter: "keys (inter a b) = keys a \<inter> keys b"
    and keys_diff: "keys (diff a b) = keys a - keys b"
    and keys_rem: "wf a \<Longrightarrow> keys (rem a b) = keys a - keys b"
    and wf_un: "wf a \<Longrightarrow> wf (un a b)"
    and wf_inter: "wf a \<Longrightarrow> wf (inter a b)"
    and wf_diff: "wf a \<Longrightarrow> wf (diff a b)"
    and wf_rem: "wf a \<Longrightarrow> wf (rem a b)"
begin

lemmas keys_ops = keys_un keys_inter keys_diff

text \<open>The lists of the switch to EXCLUDE: what is requested and what is excluded partition \<open>b\<close>.\<close>

lemma keys_switch_requested: "keys (diff (inter a b) (diff a b)) = keys a \<inter> keys b"
  by (auto simp: keys_ops)

lemma keys_switch_excluded: "keys (diff (diff b a) (diff a b)) = keys b - keys a"
  by (auto simp: keys_ops)

lemma switch_disjoint: "keys (diff (inter a b) (diff a b)) \<inter> keys (diff (diff b a) (diff a b)) = {}"
  by (auto simp: keys_ops)

text \<open>Removing \<open>x - a\<close> and then \<open>y - a\<close> from both lists of an EXCLUDE state cuts each to \<open>a\<close>.\<close>

lemma keys_rem_twice:
  assumes "wf x" "wf y" and "x' = rem x (diff x a)" "y' = rem y (diff x a)"
  shows "keys (rem x' (diff y' a)) = keys x \<inter> keys a" "keys (rem y' (diff y' a)) = keys y \<inter> keys a"
  using assms by (auto simp: keys_ops keys_rem wf_rem)

end

section \<open>Event systems with an invariant\<close>

locale guarded_system =
  fixes start :: "'s \<Rightarrow> bool" and step :: "'s \<Rightarrow> 's \<Rightarrow> bool" and inv :: "'s \<Rightarrow> bool"
  assumes start_inv: "start s \<Longrightarrow> inv s"
    and step_inv: "inv s \<Longrightarrow> step s t \<Longrightarrow> inv t"
begin

lemma steps_inv: "step\<^sup>*\<^sup>* s t \<Longrightarrow> inv s \<Longrightarrow> inv t"
  by (induction rule: rtranclp_induct) (auto intro: step_inv)

lemma reachable_inv: "start s \<Longrightarrow> step\<^sup>*\<^sup>* s t \<Longrightarrow> inv t"
  using start_inv steps_inv by blast

end

section \<open>Records of fixed width\<close>

text \<open>
  A structure that lies in a buffer as a fixed number of bytes: reading at its offset gives it back,
  whatever is in front of it and behind it.
\<close>

locale fixed_record =
  fixes enc :: "'r \<Rightarrow> bytes" and read_at :: "bytes \<Rightarrow> nat \<Rightarrow> 'r res" and size_of :: nat
  assumes size: "length (enc r) = size_of"
    and read_back: "length pre = off \<Longrightarrow> read_at (pre @ enc r @ post) off = Inr r"
    and in_bounds: "off + size_of \<le> length buf \<Longrightarrow> \<exists>r. read_at buf off = Inr r"
begin

lemma length_sequence: "length (concat (map enc rs)) = size_of * length rs"
  by (induction rs) (simp_all add: size)

lemma read_first: "length pre = off \<Longrightarrow> read_at (pre @ concat (map enc (r # rs)) @ post) off = Inr r"
  using read_back [of pre off r "concat (map enc rs) @ post"] by simp

lemma read_nth:
  "i < length rs \<Longrightarrow> length pre = off \<Longrightarrow> read_at (pre @ concat (map enc rs) @ post) (off + size_of * i) = Inr (rs ! i)"
proof (induction rs arbitrary: pre off i)
  case (Cons r rs)
  show ?case
  proof (cases i)
    case 0
    then show ?thesis using read_first Cons.prems by simp
  next
    case (Suc j)
    then show ?thesis
      using Cons.IH [of j "pre @ enc r" "off + size_of"] Cons.prems by (simp add: size add.assoc)
  qed
qed simp

end

end
