(* ===== verification/Sources.thy ===== *)
theory Sources
  imports Linklist Tables
begin

text \<open>
  Sources and membership records: \<^verbatim>\<open>src/msrc.c\<close> and \<^verbatim>\<open>src/mrec.c\<close>. A source is an address with a
  timer; \<^verbatim>\<open>msrc_cmp\<close> looks at the address only. The list operations of \<open>Linklist\<close>, with
  \<^verbatim>\<open>msrc_cmp\<close> and \<^verbatim>\<open>msrc_getcopy\<close> as their function pointers, are shown to be the set operations
  on addresses (interpretation of \<open>source_sets\<close>).
\<close>

section \<open>msrc.c\<close>

record msrc =
  ms_addr :: in6_addr
  ms_timer :: time_t

definition msrc_create :: "in6_addr \<Rightarrow> int \<Rightarrow> msrc" where
  "msrc_create addr timer_value = \<lparr>ms_addr = addr, ms_timer = timer_value\<rparr>"

definition msrc_getcopy :: "msrc \<Rightarrow> msrc" where
  "msrc_getcopy src = \<lparr>ms_addr = ms_addr src, ms_timer = ms_timer src\<rparr>"

definition msrc_cmp :: "msrc \<Rightarrow> msrc \<Rightarrow> bool" where
  "msrc_cmp a b \<longleftrightarrow> ms_addr a = ms_addr b"

type_synonym srclist = "msrc option list"

text \<open>
  The source lists are all made with \<^verbatim>\<open>cmp = msrc_cmp\<close> and \<^verbatim>\<open>copy = msrc_getcopy\<close>
  (\<^verbatim>\<open>grpint_create\<close>, \<^verbatim>\<open>mrec_create\<close>), and results inherit them; these are the list operations with
  those pointers. \<open>src_hasmember\<close> takes the address the callers pass: a \<^verbatim>\<open>struct msrc\<close> starts with
  its address, and the comparison reads nothing else.
\<close>

definition src_hasmember :: "srclist \<Rightarrow> in6_addr \<Rightarrow> msrc option" where
  "src_hasmember l a = list_hasmember (Some msrc_cmp) l (msrc_create a 0)"

definition src_union :: "srclist \<Rightarrow> srclist \<Rightarrow> srclist" where
  "src_union a b = list_union (Some msrc_cmp) (Some msrc_getcopy) a (Some b)"

definition src_intersect :: "srclist \<Rightarrow> srclist \<Rightarrow> srclist" where
  "src_intersect a b = list_intersect (Some msrc_cmp) msrc_getcopy (Some msrc_cmp) a b"

definition src_difference :: "srclist \<Rightarrow> srclist \<Rightarrow> srclist" where
  "src_difference a b = list_difference msrc_getcopy (Some msrc_cmp) a b"

definition src_remove_all :: "srclist \<Rightarrow> srclist \<Rightarrow> srclist" where
  "src_remove_all a b = list_remove_all (Some msrc_cmp) a b"

definition src_add_all :: "srclist \<Rightarrow> srclist \<Rightarrow> srclist" where
  "src_add_all a b = list_add_all (Some msrc_cmp) a b"

section \<open>mrec.c\<close>

record mrec =
  mr_mca :: in6_addr
  mr_filter_mode :: int
  mr_source_list :: srclist

fun mld_grec_mode :: "int \<Rightarrow> string" where
  "mld_grec_mode mode =
     (if mode = 1 then ''IS_IN'' else if mode = 2 then ''IS_EX''
      else if mode = 3 then ''TO_IN'' else if mode = 4 then ''TO_EX''
      else if mode = 5 then ''ALLOW'' else if mode = 6 then ''BLOCK'' else ''UNKNOWN'')"

definition mrec_create :: "in6_addr \<Rightarrow> int \<Rightarrow> mrec" where
  "mrec_create mca mode = \<lparr>mr_mca = mca, mr_filter_mode = mode, mr_source_list = []\<rparr>"

text \<open>The position of the first record for a group; a mode of 0 stands for any mode.\<close>

definition mrec_find :: "mrec list \<Rightarrow> in6_addr \<Rightarrow> int \<Rightarrow> nat option" where
  "mrec_find memb_db mca mode =
     index_of (\<lambda>r. mca = mr_mca r \<and> (mode = 0 \<or> mr_filter_mode r = mode)) memb_db"

text \<open>\<open>None\<close> is the \<^verbatim>\<open>NULL\<close> record; the result is the return value and the record.\<close>

definition mrec_add_source :: "mrec option \<Rightarrow> msrc \<Rightarrow> int \<times> mrec option" where
  "mrec_add_source m src = (case m of None \<Rightarrow> (0, None)
     | Some r \<Rightarrow>
         if list_hasmember (Some msrc_cmp) (mr_source_list r) src \<noteq> None then (0, Some r)
         else (1, Some (r\<lparr>mr_source_list := mr_source_list r @ [Some (msrc_getcopy src)]\<rparr>)))"

definition mrec_add_source_addr :: "mrec option \<Rightarrow> in6_addr \<Rightarrow> int \<times> mrec option" where
  "mrec_add_source_addr m addr =
     (let src = msrc_create addr 0; (ok, m) = mrec_add_source m src in
      if ok = 0 then (0, m) else (1, m))"

section \<open>Sources as sets of addresses\<close>

definition addrs :: "srclist \<Rightarrow> in6_addr set" where
  "addrs l = ms_addr ` set (elems l)"

definition wf_srcs :: "srclist \<Rightarrow> bool" where
  "wf_srcs l \<longleftrightarrow> distinct (map ms_addr (elems l))"

lemma msrc_getcopy_id [simp]: "msrc_getcopy = id"
  by (rule ext) (simp add: msrc_getcopy_def)

lemma msrc_cmp_sym: "msrc_cmp a b \<Longrightarrow> msrc_cmp b a"
  by (simp add: msrc_cmp_def)

lemma addrs_iff: "a \<in> addrs l \<longleftrightarrow> (\<exists>s \<in> set (elems l). ms_addr s = a)"
  by (auto simp: addrs_def)

lemma addrs_simps [simp]:
  "addrs [] = {}" "addrs (None # l) = addrs l" "addrs (Some s # l) = insert (ms_addr s) (addrs l)"
  "addrs (a @ b) = addrs a \<union> addrs b"
  by (auto simp: addrs_def)

lemma wf_srcs_simps [simp]:
  "wf_srcs []" "wf_srcs (None # l) = wf_srcs l"
  "wf_srcs (Some s # l) \<longleftrightarrow> ms_addr s \<notin> addrs l \<and> wf_srcs l"
  by (auto simp: wf_srcs_def addrs_def)

lemma wf_srcs_snoc: "wf_srcs (l @ [Some s]) \<longleftrightarrow> wf_srcs l \<and> ms_addr s \<notin> addrs l"
  by (auto simp: wf_srcs_def addrs_def)

lemma src_hasmember_find: "src_hasmember l a = find (\<lambda>s. ms_addr s = a) (elems l)"
  by (simp add: src_hasmember_def list_hasmember_find msrc_cmp_def msrc_create_def)

lemma src_hasmember_None [simp]: "src_hasmember l a = None \<longleftrightarrow> a \<notin> addrs l"
  by (auto simp: src_hasmember_find find_None_iff addrs_iff)

lemma src_hasmember_Some: "src_hasmember l a = Some s \<Longrightarrow> s \<in> set (elems l) \<and> ms_addr s = a"
  by (auto simp: src_hasmember_find dest: find_split)

lemma list_hasmember_addrs: "list_hasmember (Some msrc_cmp) l s = None \<longleftrightarrow> ms_addr s \<notin> addrs l"
  by (auto simp: list_hasmember_None msrc_cmp_def addrs_iff)

lemma src_difference_filter:
  "src_difference a b = map Some (filter (\<lambda>s. ms_addr s \<notin> addrs b) (elems a))"
  unfolding src_difference_def msrc_getcopy_id list_difference_filter
  by (rule arg_cong [where f = "map Some"], rule filter_cong) (auto simp: msrc_cmp_def addrs_iff)

lemma src_intersect_filter:
  "src_intersect a b = map Some (filter (\<lambda>s. ms_addr s \<in> addrs b) (elems a))"
  unfolding src_intersect_def msrc_getcopy_id
  by (subst list_intersect_filter, erule msrc_cmp_sym, rule arg_cong [where f = "map Some"], rule filter_cong) (auto simp: msrc_cmp_def addrs_iff)

lemma list_union_add_srcs:
  "addrs (list_union_add (Some msrc_cmp) (Some id) b r) = addrs r \<union> addrs b"
  "wf_srcs r \<Longrightarrow> wf_srcs (list_union_add (Some msrc_cmp) (Some id) b r)"
  by (induction "Some msrc_cmp" "Some id :: (msrc \<Rightarrow> msrc) option" b r rule: list_union_add.induct)
    (auto simp: list_hasmember_addrs copy_elem_def wf_srcs_snoc)

lemma src_union_alt:
  "src_union a b = list_union_add (Some msrc_cmp) (Some id) b (map Some (elems a))"
  by (simp add: src_union_def list_union_def list_copy_all_map copy_elem_def)

lemma addrs_map_Some [simp]: "addrs (map Some es) = ms_addr ` set es"
  by (simp add: addrs_def)

lemma wf_srcs_map_Some [simp]: "wf_srcs (map Some es) = distinct (map ms_addr es)"
  by (simp add: wf_srcs_def)

lemma elems_remove_nth:
  "index_of (elem_matches (Some msrc_cmp) s) l = Some i \<Longrightarrow> wf_srcs l \<Longrightarrow>
     elems (remove_nth i l) = filter (\<lambda>x. ms_addr x \<noteq> ms_addr s) (elems l)"
proof (induction l arbitrary: i)
  case (Cons x l)
  have gone: "filter (\<lambda>x. ms_addr x \<noteq> a) (elems l) = elems l" if "a \<notin> addrs l" for a
    using that by (intro filter_True) (auto simp: addrs_def)
  show ?case
  proof (cases "elem_matches (Some msrc_cmp) s x")
    case True
    then obtain e where "x = Some e" "ms_addr e = ms_addr s"
      by (auto simp: elem_matches_def msrc_cmp_def split: option.splits)
    with True Cons.prems gone [of "ms_addr s"] show ?thesis by auto
  next
    case False
    with Cons obtain j where "i = Suc j" "index_of (elem_matches (Some msrc_cmp) s) l = Some j"
      by auto
    moreover have "wf_srcs l" using Cons.prems by (cases x) auto
    moreover have "\<And>e. x = Some e \<Longrightarrow> ms_addr e \<noteq> ms_addr s"
      using False by (auto simp: elem_matches_def msrc_cmp_def)
    ultimately show ?thesis using Cons.IH by (cases x) auto
  qed
qed simp

lemma elems_src_remove_all:
  "wf_srcs a \<Longrightarrow> elems (src_remove_all a b) = filter (\<lambda>x. ms_addr x \<notin> addrs b) (elems a)"
proof (unfold src_remove_all_def, induction "Some msrc_cmp" a b rule: list_remove_all.induct)
  case (3 a e bs)
  let ?a' = "case index_of (elem_matches (Some msrc_cmp) e) a of None \<Rightarrow> a | Some i \<Rightarrow> remove_nth i a"
  have step: "elems ?a' = filter (\<lambda>x. ms_addr x \<noteq> ms_addr e) (elems a)"
  proof (cases "index_of (elem_matches (Some msrc_cmp) e) a")
    case None
    then have "\<forall>x \<in> set (elems a). ms_addr x \<noteq> ms_addr e"
      by (force simp: set_elems elem_matches_def msrc_cmp_def index_of_None)
    with None show ?thesis by (simp add: filter_True)
  next
    case (Some i)
    with "3.prems" show ?thesis by (simp add: elems_remove_nth)
  qed
  have "wf_srcs ?a'" using "3.prems" step by (simp add: wf_srcs_def distinct_map_filter)
  with "3.hyps" step show ?case by (simp add: conj_commute)
qed simp_all

interpretation ss: source_sets addrs wf_srcs src_union src_intersect src_difference src_remove_all
proof
  show "addrs (src_union a b) = addrs a \<union> addrs b" for a b
    by (simp add: src_union_alt list_union_add_srcs) (simp add: addrs_def)
  show "addrs (src_intersect a b) = addrs a \<inter> addrs b" for a b
    by (auto simp: src_intersect_filter addrs_def)
  show "addrs (src_difference a b) = addrs a - addrs b" for a b
    by (auto simp: src_difference_filter addrs_def)
  show "addrs (src_remove_all a b) = addrs a - addrs b" if "wf_srcs a" for a b
    using that by (auto simp: addrs_def elems_src_remove_all)
  show "wf_srcs (src_union a b)" if "wf_srcs a" for a b
    unfolding src_union_alt by (rule list_union_add_srcs) (use that in \<open>simp add: wf_srcs_def\<close>)
  show "wf_srcs (src_intersect a b)" if "wf_srcs a" for a b
    using that by (simp add: src_intersect_filter) (simp add: wf_srcs_def distinct_map_filter)
  show "wf_srcs (src_difference a b)" if "wf_srcs a" for a b
    using that by (simp add: src_difference_filter) (simp add: wf_srcs_def distinct_map_filter)
  show "wf_srcs (src_remove_all a b)" if "wf_srcs a" for a b
    using that by (simp add: wf_srcs_def elems_src_remove_all distinct_map_filter)
qed

lemma elems_src_add_all [simp]: "elems (src_add_all a b) = elems a"
  unfolding src_add_all_def
  by (induction "Some msrc_cmp" a b rule: list_add_all.induct) (auto split: option.split)

lemma addrs_src_add_all [simp]: "addrs (src_add_all a b) = addrs a"
  by (simp add: addrs_def)


text \<open>
  C25. On source lists, \<^verbatim>\<open>list_union\<close>, \<^verbatim>\<open>list_intersect\<close>, \<^verbatim>\<open>list_difference\<close> and
  \<^verbatim>\<open>list_remove_all\<close> are union, intersection and difference of the sets of addresses, and a list
  without duplicate addresses stays without them.
\<close>

theorem source_list_ops_are_set_ops:
  "addrs (src_union a b) = addrs a \<union> addrs b \<and>
   addrs (src_intersect a b) = addrs a \<inter> addrs b \<and>
   addrs (src_difference a b) = addrs a - addrs b \<and>
   (wf_srcs a \<longrightarrow> addrs (src_remove_all a b) = addrs a - addrs b \<and> wf_srcs (src_union a b)
      \<and> wf_srcs (src_intersect a b) \<and> wf_srcs (src_difference a b) \<and> wf_srcs (src_remove_all a b))"
  by (simp add: ss.keys_ops ss.keys_rem ss.wf_un ss.wf_inter ss.wf_diff ss.wf_rem)

theorem source_list_ops_are_set_ops_witness:
  "addrs (src_remove_all [Some \<lparr>ms_addr = 1, ms_timer = 9\<rparr>, Some \<lparr>ms_addr = 2, ms_timer = 9\<rparr>]
     [Some \<lparr>ms_addr = 2, ms_timer = 0\<rparr>]) = {1}"
  using source_list_ops_are_set_ops
    [of "[Some \<lparr>ms_addr = 1, ms_timer = 9\<rparr>, Some \<lparr>ms_addr = 2, ms_timer = 9\<rparr>]"
        "[Some \<lparr>ms_addr = 2, ms_timer = 0\<rparr>]"]
  by auto

text \<open>
  \<^verbatim>\<open>list_add_all\<close> never adds an element: it appends one node with a \<^verbatim>\<open>NULL\<close> data pointer per
  element of the second list that the first one lacks, so the set of sources does not change but
  the length does.
\<close>

lemma list_add_all_adds_null:
  "src_add_all a b = a @ replicate (length (filter (\<lambda>s. ms_addr s \<notin> addrs a) (elems b))) None"
  unfolding src_add_all_def
proof (induction "Some msrc_cmp" a b rule: list_add_all.induct)
  case (3 a e bs)
  show ?case
  proof (cases "ms_addr e \<in> addrs a")
    case True
    then have "list_hasmember (Some msrc_cmp) a e \<noteq> None" by (simp add: list_hasmember_addrs)
    with 3 True show ?thesis by auto
  next
    case False
    then have "list_hasmember (Some msrc_cmp) a e = None" by (simp add: list_hasmember_addrs)
    with 3 False show ?thesis by simp
  qed
qed simp_all

section \<open>Membership records\<close>

lemma mrec_add_source_addr_alt:
  "mrec_add_source_addr (Some r) a =
     (if a \<in> addrs (mr_source_list r) then (0, Some r)
      else (1, Some (r\<lparr>mr_source_list := mr_source_list r @ [Some (msrc_create a 0)]\<rparr>)))"
proof -
  have "list_hasmember (Some msrc_cmp) (mr_source_list r) (msrc_create a 0) = None
      \<longleftrightarrow> a \<notin> addrs (mr_source_list r)"
    by (simp add: list_hasmember_addrs msrc_create_def)
  then show ?thesis
    by (auto simp: mrec_add_source_addr_def mrec_add_source_def Let_def)
qed

lemma mrec_add_source_frame:
  "snd (mrec_add_source_addr (Some r) a) = Some r' \<Longrightarrow>
     mr_mca r' = mr_mca r \<and> mr_filter_mode r' = mr_filter_mode r"
  by (auto simp: mrec_add_source_addr_alt split: if_splits)

text \<open>The record of a group with its sources, added one by one.\<close>

fun mrec_add_sources :: "mrec \<Rightarrow> in6_addr list \<Rightarrow> mrec" where
  "mrec_add_sources r [] = r"
| "mrec_add_sources r (a # as) = mrec_add_sources (the (snd (mrec_add_source_addr (Some r) a))) as"

definition sources_ok :: "srclist \<Rightarrow> bool" where
  "sources_ok l \<longleftrightarrow> wf_srcs l \<and> None \<notin> set l"

lemma mrec_add_sources_facts:
  assumes "sources_ok (mr_source_list r)"
  shows "mr_mca (mrec_add_sources r as) = mr_mca r
    \<and> mr_filter_mode (mrec_add_sources r as) = mr_filter_mode r
    \<and> addrs (mr_source_list (mrec_add_sources r as)) = addrs (mr_source_list r) \<union> set as
    \<and> sources_ok (mr_source_list (mrec_add_sources r as))"
  using assms
proof (induction r as rule: mrec_add_sources.induct)
  case (2 r a as)
  let ?r = "the (snd (mrec_add_source_addr (Some r) a))"
  have "sources_ok (mr_source_list ?r)"
    using "2.prems" by (auto simp: mrec_add_source_addr_alt sources_ok_def wf_srcs_snoc msrc_create_def)
  with "2.IH" show ?case by (auto simp: mrec_add_source_addr_alt msrc_create_def)
qed simp

text \<open>
  Adding a sequence of addresses to a record with \<^verbatim>\<open>mrec_add_source_addr\<close> keeps its group and
  mode and yields exactly the old and the new addresses, each once, with no \<^verbatim>\<open>NULL\<close> entry.
\<close>

lemma mrec_add_sources_correct:
  assumes "sources_ok (mr_source_list r)"
  shows "mr_mca (mrec_add_sources r as) = mr_mca r
    \<and> mr_filter_mode (mrec_add_sources r as) = mr_filter_mode r
    \<and> addrs (mr_source_list (mrec_add_sources r as)) = addrs (mr_source_list r) \<union> set as
    \<and> sources_ok (mr_source_list (mrec_add_sources r as))"
  using assms by (rule mrec_add_sources_facts)

lemma mrec_add_sources_correct_witness:
  "addrs (mr_source_list (mrec_add_sources (mrec_create 5 1) [7, 8, 7])) = {7, 8}
   \<and> sources_ok (mr_source_list (mrec_add_sources (mrec_create 5 1) [7, 8, 7]))"
proof -
  have "sources_ok (mr_source_list (mrec_create 5 1))" by (simp add: sources_ok_def mrec_create_def)
  from mrec_add_sources_correct [OF this, of "[7, 8, 7]"] show ?thesis
    by (auto simp: mrec_create_def)
qed

lemma mrec_find_any: "mrec_find db mca 0 = index_of (\<lambda>r. mr_mca r = mca) db"
  unfolding mrec_find_def by (rule arg_cong [of _ _ "\<lambda>P. index_of P db"]) auto

interpretation mt: keyed_table mr_mca "\<lambda>db mca. mrec_find db mca 0"
  unfolding mrec_find_any by (rule index_of_key_table)

end
