(* ===== verification/Mship_db.thy ===== *)
theory Mship_db
  imports Sources
begin

text \<open>
  The membership database of \<^verbatim>\<open>src/mship_db.c\<close>: one record per group, and \<^verbatim>\<open>mdb_subscribe\<close>, which
  merges a subscription into it. The specification is the merge rule of RFC 4605, section 4.1:
  the record of a group stands for the set of sources it accepts, and a merge is the union of the
  accepted sets.
\<close>

section \<open>Operations\<close>

fun mdb_copy_sources :: "mrec option \<Rightarrow> srclist \<Rightarrow> mrec option" where
  "mdb_copy_sources m [] = m"
| "mdb_copy_sources m (None # ss) = mdb_copy_sources m ss"
| "mdb_copy_sources m (Some s # ss) = mdb_copy_sources (snd (mrec_add_source m s)) ss"

definition mdb_deepcopy :: "mrec list \<Rightarrow> mrec list" where
  "mdb_deepcopy old = map (\<lambda>r. the (mdb_copy_sources
     (Some (mrec_create (mr_mca r) (mr_filter_mode r))) (mr_source_list r))) old"

definition mdb_set_sources :: "mrec list \<Rightarrow> nat \<Rightarrow> srclist \<Rightarrow> mrec list" where
  "mdb_set_sources db i l = db[i := (db ! i)\<lparr>mr_source_list := l\<rparr>]"

definition mdb_subscribe :: "mrec list \<Rightarrow> in6_addr \<Rightarrow> int \<Rightarrow> srclist \<Rightarrow> mrec list" where
  "mdb_subscribe memb_db mca mode sources =
    (let sources = list_union (Some msrc_cmp) (Some msrc_getcopy) sources None in
     if mode = 1 then
       (case mrec_find memb_db mca 2 of
          Some i \<Rightarrow> mdb_set_sources memb_db i (src_difference (mr_source_list (memb_db ! i)) sources)
        | None \<Rightarrow>
            (case mrec_find memb_db mca 1 of
               Some i \<Rightarrow>
                 if length sources \<noteq> 0
                 then mdb_set_sources memb_db i (src_union (mr_source_list (memb_db ! i)) sources)
                 else memb_db
             | None \<Rightarrow>
                 if length sources \<noteq> 0
                 then let mrec = mrec_create mca mode in
                      memb_db @ [mrec\<lparr>mr_source_list := src_union (mr_source_list mrec) sources\<rparr>]
                 else memb_db))
     else
       (case mrec_find memb_db mca 1 of
          Some i \<Rightarrow>
            let memb_db = memb_db[i := (memb_db ! i)\<lparr>mr_filter_mode := 2\<rparr>] in
            mdb_set_sources memb_db i (src_difference (mr_source_list (memb_db ! i)) sources)
        | None \<Rightarrow>
            (case mrec_find memb_db mca 2 of
               None \<Rightarrow> memb_db @ [(mrec_create mca mode)\<lparr>mr_source_list := sources\<rparr>]
             | Some i \<Rightarrow>
                 mdb_set_sources memb_db i (src_intersect (mr_source_list (memb_db ! i)) sources))))"

section \<open>The accepted sources\<close>

definition accepts :: "int \<Rightarrow> in6_addr set \<Rightarrow> in6_addr \<Rightarrow> bool" where
  "accepts mode S a \<longleftrightarrow> (if mode = 1 then a \<in> S else a \<notin> S)"

definition mrec_accepts :: "mrec \<Rightarrow> in6_addr \<Rightarrow> bool" where
  "mrec_accepts r a = accepts (mr_filter_mode r) (addrs (mr_source_list r)) a"

definition db_accepts :: "mrec list \<Rightarrow> in6_addr \<Rightarrow> in6_addr \<Rightarrow> bool" where
  "db_accepts db g a \<longleftrightarrow> (case mrec_find db g 0 of None \<Rightarrow> False | Some i \<Rightarrow> mrec_accepts (db ! i) a)"

definition wf_db :: "mrec list \<Rightarrow> bool" where
  "wf_db db \<longleftrightarrow> distinct (map mr_mca db) \<and>
     (\<forall>r \<in> set db. mr_filter_mode r \<in> {1, 2} \<and> wf_srcs (mr_source_list r))"

lemma wf_db_distinct: "wf_db db \<Longrightarrow> distinct (map mr_mca db)"
  by (simp add: wf_db_def)

lemma mrec_find_mode:
  assumes "wf_db db" and "m \<noteq> 0"
  shows "mrec_find db mca m = (case mrec_find db mca 0 of None \<Rightarrow> None
     | Some i \<Rightarrow> if mr_filter_mode (db ! i) = m then Some i else None)"
proof (cases "mrec_find db mca m")
  case None
  then have none: "\<forall>r \<in> set db. \<not> (mca = mr_mca r \<and> mr_filter_mode r = m)"
    using assms(2) by (simp add: mrec_find_def index_of_None)
  show ?thesis
  proof (cases "mrec_find db mca 0")
    case (Some i)
    then have "i < length db" "mr_mca (db ! i) = mca" using mt.find_key_Some by auto
    with none Some None show ?thesis by auto
  qed (simp add: None)
next
  case (Some i)
  then have i: "i < length db" "mr_mca (db ! i) = mca" "mr_filter_mode (db ! i) = m"
    using assms(2) by (auto simp: mrec_find_def dest: index_of_SomeD)
  with assms Some show ?thesis by (simp add: mt.find_unique wf_db_distinct)
qed

lemma db_accepts_set:
  assumes "wf_db db" and "mrec_find db mca 0 = Some i" and "mr_mca r = mca"
  shows "db_accepts (db[i := r]) g a \<longleftrightarrow> (if g = mca then mrec_accepts r a else db_accepts db g a)"
proof -
  have i: "i < length db" "mr_mca (db ! i) = mca" using mt.find_key_Some [OF assms(2)] by auto
  have find: "mrec_find (db[i := r]) g 0 = mrec_find db g 0"
    using assms i by (intro mt.find_update) (auto simp: wf_db_distinct)
  show ?thesis
  proof (cases "mrec_find db g 0")
    case (Some j)
    then have "mr_mca (db ! j) = g" using mt.find_key_Some by auto
    with Some find i assms show ?thesis by (cases "i = j") (auto simp: db_accepts_def)
  qed (use assms find in \<open>auto simp: db_accepts_def\<close>)
qed

lemma wf_db_set:
  assumes "wf_db db" and "mrec_find db mca 0 = Some i" and "mr_mca r = mca"
    and "mr_filter_mode r \<in> {1, 2}" and "wf_srcs (mr_source_list r)"
  shows "wf_db (db[i := r])"
proof -
  have "mr_mca (db ! i) = mca" using mt.find_key_Some [OF assms(2)] by auto
  with assms have "distinct (map mr_mca (db[i := r]))"
    by (intro mt.distinct_update) (auto simp: wf_db_distinct)
  moreover have "\<forall>x \<in> set (db[i := r]). mr_filter_mode x \<in> {1, 2} \<and> wf_srcs (mr_source_list x)"
    using assms set_update_subset [of db i r] unfolding wf_db_def by blast
  ultimately show ?thesis by (simp add: wf_db_def)
qed

lemma db_accepts_add:
  assumes "wf_db db" and "mrec_find db (mr_mca r) 0 = None"
  shows "db_accepts (db @ [r]) g a \<longleftrightarrow> (if g = mr_mca r then mrec_accepts r a else db_accepts db g a)"
proof (cases "g = mr_mca r")
  case True
  then show ?thesis
    using mt.find_add_new [OF wf_db_distinct [OF assms(1)] assms(2)] by (simp add: db_accepts_def)
next
  case False
  then have "mrec_find (db @ [r]) g 0 = mrec_find db g 0"
    using mt.find_add_old [OF wf_db_distinct [OF assms(1)] assms(2)] by simp
  then show ?thesis using False mt.find_key_Some [of db g]
    by (auto simp: db_accepts_def nth_append split: option.split)
qed

lemma wf_db_add:
  assumes "wf_db db" and "mrec_find db (mr_mca r) 0 = None"
    and "mr_filter_mode r \<in> {1, 2}" and "wf_srcs (mr_source_list r)"
  shows "wf_db (db @ [r])"
  using assms mt.distinct_add [OF wf_db_distinct [OF assms(1)] assms(2)] by (auto simp: wf_db_def)

lemma union_null_copy [simp]:
  "list_union (Some msrc_cmp) (Some id) l None = map Some (elems l)"
  by (simp add: list_union_def list_copy_all_map copy_elem_def)

lemma addrs_map_Some_elems [simp]: "addrs (map Some (elems l)) = addrs l"
  by (simp add: addrs_def)

lemma wf_srcs_map_Some_elems [simp]: "wf_srcs (map Some (elems l)) = wf_srcs l"
  by (simp add: wf_srcs_def)

declare addrs_map_Some [simp del] wf_srcs_map_Some [simp del]

lemma elems_empty_addrs: "elems l = [] \<longleftrightarrow> addrs l = {}"
  by (simp add: addrs_def)

lemma wf_db_mode:
  "wf_db db \<Longrightarrow> mrec_find db mca 0 = Some i \<Longrightarrow>
     (mr_filter_mode (db ! i) = 1 \<or> mr_filter_mode (db ! i) = 2) \<and> wf_srcs (mr_source_list (db ! i))
     \<and> mr_mca (db ! i) = mca \<and> i < length db"
  using mt.find_key_Some [of db mca i] by (auto simp: wf_db_def)

lemmas mrec_accepts_defs = mrec_accepts_def accepts_def


section \<open>Merging a subscription\<close>

lemma include_into_new:
  assumes "wf_db db" and "wf_srcs S" and None: "mrec_find db mca 0 = None"
  shows "wf_db (mdb_subscribe db mca 1 S) \<and>
    (\<forall>g a. db_accepts (mdb_subscribe db mca 1 S) g a \<longleftrightarrow> db_accepts db g a \<or> g = mca \<and> a \<in> addrs S)"
proof (cases "elems S = []")
  case True
  with None assms show ?thesis
    by (simp add: mdb_subscribe_def Let_def mrec_find_mode elems_empty_addrs)
next
  case False
  let ?r = "(mrec_create mca 1)\<lparr>mr_source_list := src_union [] (map Some (elems S))\<rparr>"
  have new: "mdb_subscribe db mca 1 S = db @ [?r]"
    using None False assms(1)
    by (simp add: mdb_subscribe_def Let_def mrec_find_mode) (simp add: mrec_create_def)
  have none: "mrec_find db (mr_mca ?r) 0 = None" using None by (simp add: mrec_create_def)
  have "wf_db (db @ [?r])"
    using assms none by (intro wf_db_add) (simp_all add: mrec_create_def ss.wf_un)
  moreover have "db_accepts (db @ [?r]) g a \<longleftrightarrow> db_accepts db g a \<or> g = mca \<and> a \<in> addrs S" for g a
    unfolding db_accepts_add [OF assms(1) none]
    using None by (simp add: mrec_create_def mrec_accepts_defs ss.keys_un db_accepts_def)
  ultimately show ?thesis by (simp add: new)
qed

lemma include_into_known:
  assumes "wf_db db" and "wf_srcs S" and Some: "mrec_find db mca 0 = Some i"
  shows "wf_db (mdb_subscribe db mca 1 S) \<and>
    (\<forall>g a. db_accepts (mdb_subscribe db mca 1 S) g a \<longleftrightarrow> db_accepts db g a \<or> g = mca \<and> a \<in> addrs S)"
proof -
  note i = wf_db_mode [OF assms(1) Some]
  let ?S = "map Some (elems S)"
  let ?l = "if mr_filter_mode (db ! i) = 2 then src_difference (mr_source_list (db ! i)) ?S
            else src_union (mr_source_list (db ! i)) ?S"
  let ?r = "(db ! i)\<lparr>mr_source_list := ?l\<rparr>"
  show ?thesis
  proof (cases "mr_filter_mode (db ! i) = 1 \<and> elems S = []")
    case True
    with Some assms show ?thesis
      by (simp add: mdb_subscribe_def Let_def mrec_find_mode elems_empty_addrs)
  next
    case False
    then have upd: "mdb_subscribe db mca 1 S = db[i := ?r]"
      using Some i assms(1) by (auto simp: mdb_subscribe_def Let_def mrec_find_mode mdb_set_sources_def)
    have "wf_db (db[i := ?r])"
      using i assms Some by (intro wf_db_set [of db mca i]) (auto simp: ss.wf_un ss.wf_diff)
    moreover have "db_accepts (db[i := ?r]) g a \<longleftrightarrow> db_accepts db g a \<or> g = mca \<and> a \<in> addrs S" for g a
      using i Some by (subst db_accepts_set [OF assms(1) Some])
        (auto simp: mrec_accepts_defs ss.keys_ops db_accepts_def)
    ultimately show ?thesis by (simp add: upd)
  qed
qed

lemma subscribe_include:
  assumes "wf_db db" and "wf_srcs S"
  shows "wf_db (mdb_subscribe db mca 1 S) \<and>
    (\<forall>g a. db_accepts (mdb_subscribe db mca 1 S) g a \<longleftrightarrow> db_accepts db g a \<or> g = mca \<and> a \<in> addrs S)"
  using include_into_new [OF assms] include_into_known [OF assms] by (cases "mrec_find db mca 0") simp_all

lemma subscribe_exclude:
  assumes "wf_db db" and "wf_srcs S" and "mrec_find db mca 1 = None"
  shows "wf_db (mdb_subscribe db mca 2 S) \<and>
    (\<forall>g a. db_accepts (mdb_subscribe db mca 2 S) g a \<longleftrightarrow> db_accepts db g a \<or> g = mca \<and> a \<notin> addrs S)"
proof (cases "mrec_find db mca 0")
  case None
  let ?r = "(mrec_create mca 2)\<lparr>mr_source_list := map Some (elems S)\<rparr>"
  have new: "mdb_subscribe db mca 2 S = db @ [?r]"
    using None assms by (simp add: mdb_subscribe_def Let_def mrec_find_mode)
  have none: "mrec_find db (mr_mca ?r) 0 = None" using None by (simp add: mrec_create_def)
  have "wf_db (db @ [?r])"
    using assms none by (intro wf_db_add) (simp_all add: mrec_create_def)
  moreover have "db_accepts (db @ [?r]) g a \<longleftrightarrow> db_accepts db g a \<or> g = mca \<and> a \<notin> addrs S" for g a
    unfolding db_accepts_add [OF assms(1) none]
    using None by (simp add: mrec_create_def mrec_accepts_defs db_accepts_def)
  ultimately show ?thesis by (simp add: new)
next
  case (Some i)
  note i = wf_db_mode [OF assms(1) Some]
  have two: "mr_filter_mode (db ! i) = 2"
    using assms(3) Some i by (auto simp: mrec_find_mode [OF assms(1)] split: if_splits)
  let ?r = "(db ! i)\<lparr>mr_source_list := src_intersect (mr_source_list (db ! i)) (map Some (elems S))\<rparr>"
  have upd: "mdb_subscribe db mca 2 S = db[i := ?r]"
    using Some two assms by (simp add: mdb_subscribe_def Let_def mrec_find_mode mdb_set_sources_def)
  have "wf_db (db[i := ?r])"
    using i assms Some by (intro wf_db_set [of db mca i]) (auto simp: ss.wf_inter)
  moreover have "db_accepts (db[i := ?r]) g a \<longleftrightarrow> db_accepts db g a \<or> g = mca \<and> a \<notin> addrs S" for g a
    using i Some two by (subst db_accepts_set [OF assms(1) Some])
      (auto simp: mrec_accepts_defs ss.keys_ops db_accepts_def)
  ultimately show ?thesis by (simp add: upd)
qed

lemma subscribe_exclude_over_include:
  assumes "wf_db db" and "mrec_find db mca 1 = Some i"
  shows "wf_db (mdb_subscribe db mca 2 S) \<and>
    (\<forall>g a. db_accepts (mdb_subscribe db mca 2 S) g a \<longleftrightarrow> (if g = mca then \<not> (db_accepts db mca a \<and> a \<notin> addrs S) else db_accepts db g a))"
proof -
  have Some: "mrec_find db mca 0 = Some i" and one: "mr_filter_mode (db ! i) = 1"
    using assms by (auto simp: mrec_find_mode split: option.splits if_splits)
  note i = wf_db_mode [OF assms(1) Some]
  let ?r = "(db ! i)\<lparr>mr_filter_mode := 2,
    mr_source_list := src_difference (mr_source_list (db ! i)) (map Some (elems S))\<rparr>"
  have upd: "mdb_subscribe db mca 2 S = db[i := ?r]"
    using assms(2) i by (simp add: mdb_subscribe_def Let_def mdb_set_sources_def)
  have "wf_db (db[i := ?r])"
    using i assms(1) Some by (intro wf_db_set [of db mca i]) (auto simp: ss.wf_diff)
  moreover have "db_accepts (db[i := ?r]) g a \<longleftrightarrow> (if g = mca then \<not> (db_accepts db mca a \<and> a \<notin> addrs S) else db_accepts db g a)" for g a
    using i Some one by (subst db_accepts_set [OF assms(1) Some])
      (auto simp: mrec_accepts_defs ss.keys_ops db_accepts_def)
  ultimately show ?thesis by (simp add: upd)
qed


lemma mdb_copy_sources_append:
  assumes "None \<notin> set l" and "distinct (map ms_addr (elems (mr_source_list r @ l)))"
  shows "mdb_copy_sources (Some r) l = Some (r\<lparr>mr_source_list := mr_source_list r @ l\<rparr>)"
  using assms
proof (induction l arbitrary: r)
  case (Cons x l)
  then obtain s where s: "x = Some s" by (cases x) auto
  with Cons.prems have "ms_addr s \<notin> addrs (mr_source_list r)" by (auto simp: addrs_def)
  then have "snd (mrec_add_source (Some r) s) = Some (r\<lparr>mr_source_list := mr_source_list r @ [Some s]\<rparr>)"
    by (simp add: mrec_add_source_def list_hasmember_addrs [symmetric])
  with Cons s show ?case by simp
qed simp

text \<open>
  \<^verbatim>\<open>mdb_deepcopy\<close> of a well-formed database without \<^verbatim>\<open>NULL\<close> source entries is an equal
  database: groups, modes, sources and timers are all kept, in order.
\<close>

lemma mdb_deepcopy_equal:
  assumes "wf_db db" and "\<forall>r \<in> set db. None \<notin> set (mr_source_list r)"
  shows "mdb_deepcopy db = db"
  unfolding mdb_deepcopy_def
proof (rule map_idI)
  fix r assume "r \<in> set db"
  with assms have "mdb_copy_sources (Some (mrec_create (mr_mca r) (mr_filter_mode r))) (mr_source_list r)
      = Some r"
    by (subst mdb_copy_sources_append) (auto simp: mrec_create_def wf_db_def wf_srcs_def)
  then show "the (mdb_copy_sources (Some (mrec_create (mr_mca r) (mr_filter_mode r)))
      (mr_source_list r)) = r" by simp
qed

section \<open>Witnesses\<close>

definition example_db :: "int \<Rightarrow> in6_addr list \<Rightarrow> mrec list" where
  "example_db mode as = [\<lparr>mr_mca = 5, mr_filter_mode = mode,
     mr_source_list = map (\<lambda>a. Some (msrc_create a 0)) as\<rparr>]"

lemma example_db_wf: "wf_db (example_db 1 [1, 2])" "wf_db (example_db 2 [1, 2])" "wf_db (example_db 1 [1])"
  by (simp_all add: wf_db_def example_db_def msrc_create_def)

lemma example_db_find:
  "mrec_find (example_db m as) 5 0 = Some 0" "mrec_find (example_db m as) 6 0 = None"
  by (simp_all add: mrec_find_def example_db_def)

lemma example_db_accepts: "db_accepts (example_db m as) 5 a = accepts m (set as) a"
  by (simp add: db_accepts_def example_db_find)
    (simp add: example_db_def mrec_accepts_def addrs_def elems_def map_filter_def image_image
      msrc_create_def comp_def)


lemma mdb_deepcopy_equal_example: "mdb_deepcopy (example_db 1 [1, 2]) = example_db 1 [1, 2]"
  by (rule mdb_deepcopy_equal [OF example_db_wf(1)]) (simp add: example_db_def)

end
