(* ===== verification/Conf.thy ===== *)
theory Conf
  imports Sources
begin

text \<open>
  The state of the daemon: the structures of \<^verbatim>\<open>src/interfaces.h\<close>, \<^verbatim>\<open>src/groups.h\<close>,
  \<^verbatim>\<open>src/grpint.h\<close>, \<^verbatim>\<open>src/kernel_routing.h\<close> and \<^verbatim>\<open>src/ecmh.h\<close> as records, and the operating system
  it talks to. \<^verbatim>\<open>g_conf\<close>, the file-static variables (\<^verbatim>\<open>routes\<close>, \<^verbatim>\<open>last_update\<close>,
  \<^verbatim>\<open>ecmh_timeout_offset\<close>, \<^verbatim>\<open>g_needs_timeout\<close>), the clock and the trace of system calls are one
  record, passed through every handler. A \<^verbatim>\<open>struct intnode *\<close> is a position in the interface
  array; pointers to group nodes and group-interface nodes are positions in their lists.
  \<^verbatim>\<open>time(NULL)\<close> is the clock field: it has a resolution of one second and a handler runs within one
  reading of it. \<^verbatim>\<open>malloc\<close> succeeds here; its failure is modelled in \<open>Linklist\<close>.
\<close>

section \<open>Structures\<close>

record intnode =
  in_ifindex :: ifindex
  in_name :: string
  in_mtu :: nat
  in_mld_version :: nat
  in_mld_last_v1 :: time_t
  in_hwfamily :: nat
  in_linklocal :: in6_addr
  in_global :: in6_addr
  in_stat_packets_received :: u64
  in_stat_packets_sent :: u64
  in_stat_bytes_received :: u64
  in_stat_bytes_sent :: u64
  in_stat_icmp_received :: u64
  in_stat_icmp_sent :: u64
  in_upstream :: bool
  in_downstream :: bool
  in_upstream_socket :: int

record grpintnode =
  gi_ifindex :: ifindex
  gi_includes :: srclist
  gi_excludes :: srclist
  gi_filter_mode :: nat
  gi_filter_timer :: u32

record groupnode =
  g_mca :: in6_addr
  g_interfaces :: "grpintnode list"
  g_lastforward :: time_t
  g_bytes :: u64
  g_packets :: u64

record kernel_route6 =
  kr_src :: in6_addr
  kr_grp :: in6_addr
  kr_parent :: int

text \<open>
  The system calls with an effect outside the process. \<open>Sendto\<close> carries the interface, the
  link-layer destination and the packet; \<open>Set_filter\<close> carries the socket address
  array of \<^verbatim>\<open>MCAST_MSFILTER\<close>: \<open>None\<close> is an entry that is all zero.
\<close>

datatype io =
    Sendto ifindex bytes bytes
  | Join_group int ifindex in6_addr
  | Set_filter int ifindex in6_addr nat "in6_addr option list"
  | Close int
  | Mfc_add int in6_addr in6_addr
  | Mfc_del int in6_addr in6_addr
  | Mif_add int nat ifindex
  | Mif_del int nat

datatype send_result = Sent | Send_ENXIO | Send_failed

text \<open>
  An entry of \<^verbatim>\<open>getifaddrs\<close>: the flags and the address as the code reads them, \<open>ifa_family\<close> being \<open>None\<close> for
  a \<^verbatim>\<open>NULL\<close> \<^verbatim>\<open>ifa_addr\<close>, and \<open>ifa_index\<close> what \<^verbatim>\<open>if_nametoindex\<close> answers for the name.
\<close>

record ifaddr =
  ifa_name :: string
  ifa_index :: ifindex
  ifa_loopback :: bool
  ifa_up :: bool
  ifa_running :: bool
  ifa_family :: "nat option"
  ifa_addr :: in6_addr

text \<open>
  What the operating system answers may depend on everything done so far: \<open>os_sendto\<close> the result of
  \<^verbatim>\<open>sendto\<close>, \<open>os_socket\<close> the descriptor of a new datagram socket (-1 on failure),
  \<open>os_setsockopt\<close> the result of a socket option call; \<open>os_junk\<close> is what the memory of a fresh
  \<^verbatim>\<open>malloc\<close> holds where nothing is stored; \<open>os_getifaddrs\<close> is the list of
  \<^verbatim>\<open>getifaddrs\<close>, \<open>None\<close> on failure; the others are the interface queries of \<^verbatim>\<open>int_create\<close>.
\<close>

record os =
  os_sendto :: "io list \<Rightarrow> io \<Rightarrow> send_result"
  os_socket :: "io list \<Rightarrow> int"
  os_setsockopt :: "io list \<Rightarrow> io \<Rightarrow> int"
  os_ioctl_socket :: "io list \<Rightarrow> bool"
  os_indextoname :: "ifindex \<Rightarrow> string option"
  os_ifmtu :: "string \<Rightarrow> nat option"
  os_ifhwaddr :: "string \<Rightarrow> nat option"
  os_junk :: "io list \<Rightarrow> u32"
  os_getifaddrs :: "io list \<Rightarrow> ifaddr list option"

record conf =
  c_ints :: "intnode list"
  c_groups :: "groupnode list"
  c_upstream :: "string option"
  c_upstream_id :: ifindex
  c_downstream :: "string option"
  c_downstream_id :: ifindex
  c_daemonize :: bool
  c_verbose :: bool
  c_quit :: bool
  c_mld1only :: bool
  c_mld2only :: bool
  c_kernel :: bool
  c_mr6_fd :: int
  c_promisc :: bool
  c_bufferlen :: nat
  c_stat_starttime :: time_t
  c_stat_packets_received :: u64
  c_stat_packets_sent :: u64
  c_stat_bytes_received :: u64
  c_stat_bytes_sent :: u64
  c_stat_icmp_received :: u64
  c_stat_icmp_sent :: u64
  c_stat_hlim_exceeded :: u64
  c_routes :: "kernel_route6 list option"
  c_last_update :: time_t
  c_timeout_offset :: time_t
  c_needs_timeout :: bool
  c_clock :: time_t
  c_trace :: "io list"

section \<open>Constants\<close>

abbreviation (input) MLD2_MODE_IS_INCLUDE :: nat where "MLD2_MODE_IS_INCLUDE \<equiv> 1"
abbreviation (input) MLD2_MODE_IS_EXCLUDE :: nat where "MLD2_MODE_IS_EXCLUDE \<equiv> 2"
abbreviation (input) MLD2_CHANGE_TO_INCLUDE :: nat where "MLD2_CHANGE_TO_INCLUDE \<equiv> 3"
abbreviation (input) MLD2_CHANGE_TO_EXCLUDE :: nat where "MLD2_CHANGE_TO_EXCLUDE \<equiv> 4"
abbreviation (input) MLD2_ALLOW_NEW_SOURCES :: nat where "MLD2_ALLOW_NEW_SOURCES \<equiv> 5"
abbreviation (input) MLD2_BLOCK_OLD_SOURCES :: nat where "MLD2_BLOCK_OLD_SOURCES \<equiv> 6"

abbreviation (input) ECMH_SUBSCRIPTION_TIMEOUT :: int where "ECMH_SUBSCRIPTION_TIMEOUT \<equiv> 125"
abbreviation (input) ECMH_ROBUSTNESS_FACTOR :: int where "ECMH_ROBUSTNESS_FACTOR \<equiv> 2"
abbreviation (input) QUERY_INTERVAL :: int where "QUERY_INTERVAL \<equiv> 10"
abbreviation (input) LLQI :: int where "LLQI \<equiv> 2"

definition MALI :: int where
  "MALI = ECMH_SUBSCRIPTION_TIMEOUT * ECMH_ROBUSTNESS_FACTOR + QUERY_INTERVAL"

lemma MALI_value: "MALI = 260"
  by (simp add: MALI_def)

section \<open>Access through pointers\<close>

abbreviation int_at :: "conf \<Rightarrow> nat \<Rightarrow> intnode" where
  "int_at c i \<equiv> c_ints c ! i"

definition upd_int :: "nat \<Rightarrow> (intnode \<Rightarrow> intnode) \<Rightarrow> conf \<Rightarrow> conf" where
  "upd_int i f c = c\<lparr>c_ints := (c_ints c)[i := f (c_ints c ! i)]\<rparr>"

definition upd_group :: "nat \<Rightarrow> (groupnode \<Rightarrow> groupnode) \<Rightarrow> conf \<Rightarrow> conf" where
  "upd_group g f c = c\<lparr>c_groups := (c_groups c)[g := f (c_groups c ! g)]\<rparr>"

definition upd_grpint :: "nat \<Rightarrow> nat \<Rightarrow> (grpintnode \<Rightarrow> grpintnode) \<Rightarrow> conf \<Rightarrow> conf" where
  "upd_grpint g j f = upd_group g (\<lambda>gr. gr\<lparr>g_interfaces := (g_interfaces gr)[j := f (g_interfaces gr ! j)]\<rparr>)"

abbreviation grpint_at :: "conf \<Rightarrow> nat \<Rightarrow> nat \<Rightarrow> grpintnode" where
  "grpint_at c g j \<equiv> g_interfaces (c_groups c ! g) ! j"

definition emit :: "io \<Rightarrow> conf \<Rightarrow> conf" where
  "emit e c = c\<lparr>c_trace := c_trace c @ [e]\<rparr>"

lemma upd_simps [simp, frame]:
  "c_groups (upd_int i f c) = c_groups c" "c_clock (upd_int i f c) = c_clock c"
  "c_routes (upd_int i f c) = c_routes c" "c_trace (upd_int i f c) = c_trace c"
  "length (c_ints (upd_int i f c)) = length (c_ints c)"
  "c_ints (upd_group g h c) = c_ints c" "c_clock (upd_group g h c) = c_clock c"
  "c_routes (upd_group g h c) = c_routes c" "c_trace (upd_group g h c) = c_trace c"
  "length (c_groups (upd_group g h c)) = length (c_groups c)"
  "c_groups (emit e c) = c_groups c" "c_ints (emit e c) = c_ints c"
  "c_routes (emit e c) = c_routes c" "c_clock (emit e c) = c_clock c"
  "c_trace (emit e c) = c_trace c @ [e]"
  "c_downstream_id (emit e c) = c_downstream_id c" "c_downstream_id (upd_int i f c) = c_downstream_id c"
  "c_downstream_id (upd_group g h c) = c_downstream_id c"
  by (simp_all add: upd_int_def upd_group_def emit_def)

lemma upd_grpint_simps [simp, frame]:
  "c_ints (upd_grpint g j h c) = c_ints c" "c_clock (upd_grpint g j h c) = c_clock c"
  "c_routes (upd_grpint g j h c) = c_routes c" "c_trace (upd_grpint g j h c) = c_trace c"
  "length (c_groups (upd_grpint g j h c)) = length (c_groups c)"
  "c_downstream_id (upd_grpint g j h c) = c_downstream_id c"
  by (simp_all add: upd_grpint_def)

section \<open>Well-formed states\<close>

text \<open>
  The invariant of the subscription state. Groups are distinct by address, and the interfaces of
  a group by index; a group has at least one interface; a filter mode is INCLUDE or EXCLUDE; no
  source list holds an address twice. In the interface array a node in use (its MTU is not 0)
  knows its own position.
\<close>

definition wf_grpint :: "grpintnode \<Rightarrow> bool" where
  "wf_grpint gi \<longleftrightarrow> gi_filter_mode gi \<in> {1, 2} \<and> wf_srcs (gi_includes gi) \<and> wf_srcs (gi_excludes gi)"

definition wf_group :: "groupnode \<Rightarrow> bool" where
  "wf_group g \<longleftrightarrow> g_interfaces g \<noteq> [] \<and> distinct (map gi_ifindex (g_interfaces g))
     \<and> (\<forall>gi \<in> set (g_interfaces g). wf_grpint gi)"

definition wf_groups :: "groupnode list \<Rightarrow> bool" where
  "wf_groups gs \<longleftrightarrow> distinct (map g_mca gs) \<and> (\<forall>g \<in> set gs. wf_group g)"

definition wf_ints :: "intnode list \<Rightarrow> bool" where
  "wf_ints ns \<longleftrightarrow> (\<forall>i < length ns. in_mtu (ns ! i) \<noteq> 0 \<longrightarrow> in_ifindex (ns ! i) = i)"

definition wf_conf :: "conf \<Rightarrow> bool" where
  "wf_conf c \<longleftrightarrow> wf_groups (c_groups c) \<and> wf_ints (c_ints c)"

lemma wf_groups_update:
  assumes "wf_groups gs" and "g < length gs \<Longrightarrow> g_mca v = g_mca (gs ! g)" and "g < length gs \<Longrightarrow> wf_group v"
  shows "wf_groups (gs[g := v])"
proof (cases "g < length gs")
  case True
  then have "map g_mca (gs[g := v]) = map g_mca gs" using assms by (simp add: map_list_update_id)
  then show ?thesis
    using True assms set_update_subset [of gs g v] unfolding wf_groups_def by (metis insert_iff subsetD)
qed (use assms in \<open>simp add: list_update_beyond\<close>)

lemma wf_group_update:
  assumes "wf_group gr" and "j < length (g_interfaces gr) \<Longrightarrow> gi_ifindex v = gi_ifindex (g_interfaces gr ! j)"
    and "j < length (g_interfaces gr) \<Longrightarrow> wf_grpint v"
  shows "wf_group (gr\<lparr>g_interfaces := (g_interfaces gr)[j := v]\<rparr>)"
proof (cases "j < length (g_interfaces gr)")
  case True
  then have "map gi_ifindex ((g_interfaces gr)[j := v]) = map gi_ifindex (g_interfaces gr)"
    using assms by (simp add: map_list_update_id)
  moreover have "\<forall>x \<in> set ((g_interfaces gr)[j := v]). wf_grpint x"
    using True assms set_update_subset [of "g_interfaces gr" j v] unfolding wf_group_def by blast
  ultimately show ?thesis using True assms(1) unfolding wf_group_def
    by (auto simp del: map_update)
qed (use assms in \<open>simp add: list_update_beyond\<close>)

lemma wf_groups_upd_grpint:
  assumes "wf_groups (c_groups c)" and "g < length (c_groups c)"
    and "j < length (g_interfaces (c_groups c ! g))"
    and "gi_ifindex (f (grpint_at c g j)) = gi_ifindex (grpint_at c g j)"
    and "wf_grpint (f (grpint_at c g j))"
  shows "wf_groups (c_groups (upd_grpint g j f c))"
proof -
  have "wf_group (c_groups c ! g)" using assms(1,2) by (simp add: wf_groups_def)
  then show ?thesis
    using assms unfolding upd_grpint_def upd_group_def
    by (simp add: wf_groups_update wf_group_update)
qed

lemma wf_groups_nth:
  assumes "wf_groups gs" and "g < length gs"
  shows "wf_group (gs ! g)"
  using assms by (simp add: wf_groups_def)

lemma wf_group_nth: "wf_group g \<Longrightarrow> j < length (g_interfaces g) \<Longrightarrow> wf_grpint (g_interfaces g ! j)"
  by (simp add: wf_group_def)

lemma wf_groups_remove: "wf_groups gs \<Longrightarrow> wf_groups (remove_nth i gs)"
  using set_remove_nth_subset [of i gs] unfolding wf_groups_def
  by (auto simp: map_remove_nth distinct_remove_nth)

lemma wf_ints_update:
  assumes "wf_ints ns"
    and "i < length ns \<Longrightarrow> in_mtu v \<noteq> 0 \<Longrightarrow> in_mtu (ns ! i) \<noteq> 0 \<and> in_ifindex v = in_ifindex (ns ! i)"
  shows "wf_ints (ns[i := v])"
  unfolding wf_ints_def
proof (intro allI impI)
  fix k assume "k < length (ns[i := v])" "in_mtu (ns[i := v] ! k) \<noteq> 0"
  with assms show "in_ifindex (ns[i := v] ! k) = k"
    unfolding wf_ints_def by (cases "k = i") auto
qed

end
