(* ===== verification/Interfaces.thy ===== *)
theory Interfaces
  imports Conf
begin

text \<open>
  The interface array: \<^verbatim>\<open>src/interfaces.c\<close>, the parts that are built on Linux. The array grows
  to the highest index seen; a node whose MTU is 0 is not in use.
\<close>

section \<open>Operations\<close>

definition int_destroy :: "nat \<Rightarrow> conf \<Rightarrow> conf" where
  "int_destroy i = upd_int i (\<lambda>n. n\<lparr>in_mtu := 0\<rparr>)"

definition int_find :: "ifindex \<Rightarrow> conf \<Rightarrow> nat option" where
  "int_find ifindex c =
     (if ifindex \<ge> length (c_ints c) \<or> in_mtu (c_ints c ! ifindex) = 0 then None else Some ifindex)"

text \<open>A cleared node, \<^verbatim>\<open>memset(intn, 0, sizeof(*intn))\<close>.\<close>

definition int_zero :: intnode where
  "int_zero = \<lparr>in_ifindex = 0, in_name = [], in_mtu = 0, in_mld_version = 0, in_mld_last_v1 = 0,
     in_hwfamily = 0, in_linklocal = 0, in_global = 0, in_stat_packets_received = 0,
     in_stat_packets_sent = 0, in_stat_bytes_received = 0, in_stat_bytes_sent = 0,
     in_stat_icmp_received = 0, in_stat_icmp_sent = 0, in_upstream = False, in_downstream = False,
     in_upstream_socket = 0\<rparr>"

definition ARPHRD_LOOPBACK :: nat where
  "ARPHRD_LOOPBACK = 772"

text \<open>\<^verbatim>\<open>strcasecmp(a, b) == 0\<close> in the C locale.\<close>

definition lower_char :: "char \<Rightarrow> nat" where
  "lower_char ch = (let n = of_char ch in if 65 \<le> n \<and> n \<le> (90::nat) then n + 32 else n)"

definition strcasecmp_eq :: "string \<Rightarrow> string \<Rightarrow> bool" where
  "strcasecmp_eq a b \<longleftrightarrow> map lower_char a = map lower_char b"

text \<open>Growing the array: the new memory is cleared.\<close>

definition int_resize :: "ifindex \<Rightarrow> conf \<Rightarrow> conf" where
  "int_resize ifindex c =
     (if ifindex + 1 > length (c_ints c)
      then c\<lparr>c_ints := c_ints c @ replicate (ifindex + 1 - length (c_ints c)) int_zero\<rparr>
      else c)"

text \<open>
  The last part of \<^verbatim>\<open>int_create\<close>: the node is kept only when its name is the upstream or the
  downstream one (a \<^verbatim>\<open>NULL\<close> name there is dereferenced by \<^verbatim>\<open>strcmp\<close>), and is marked as such.
\<close>

definition int_mark :: "nat \<Rightarrow> conf \<Rightarrow> conf" where
  "int_mark i c =
     (let name = in_name (int_at c i);
          up = (case c_upstream c of None \<Rightarrow> False | Some u \<Rightarrow> strcasecmp_eq name u);
          c = upd_int i (\<lambda>n. n\<lparr>in_upstream := up\<rparr>) c;
          c = (if up then c\<lparr>c_upstream_id := in_ifindex (int_at c i)\<rparr> else c);
          down = (case c_downstream c of None \<Rightarrow> False | Some d \<Rightarrow> strcasecmp_eq name d);
          c = upd_int i (\<lambda>n. n\<lparr>in_downstream := down\<rparr>) c in
      if down then c\<lparr>c_downstream_id := in_ifindex (int_at c i)\<rparr> else c)"

definition int_create :: "os \<Rightarrow> ifindex \<Rightarrow> conf \<Rightarrow> (nat option \<times> conf) res" where
  "int_create os ifindex c =
    (let c = int_resize ifindex c; i = ifindex in
     if \<not> os_ioctl_socket os (c_trace c) then Inr (None, c)
     else
       let c = upd_int i (\<lambda>_. int_zero\<lparr>in_ifindex := ifindex, in_mld_version := 0\<rparr>) c in
       (case os_indextoname os ifindex of
          None \<Rightarrow> Inr (None, int_destroy i c)
        | Some name \<Rightarrow>
            let c = upd_int i (\<lambda>n. n\<lparr>in_name := name\<rparr>) c in
            (case os_ifmtu os name of
               None \<Rightarrow> Inr (None, int_destroy i c)
             | Some mtu \<Rightarrow>
                 let c = upd_int i (\<lambda>n. n\<lparr>in_mtu := mtu\<rparr>) c in
                 (case os_ifhwaddr os name of
                    None \<Rightarrow> Inr (None, int_destroy i c)
                  | Some family \<Rightarrow>
                      let c = upd_int i (\<lambda>n. n\<lparr>in_hwfamily := family\<rparr>) c in
                      if family = ARPHRD_LOOPBACK then Inr (None, int_destroy i c)
                      else (case c_upstream c of
                          None \<Rightarrow> Inl Null_deref
                        | Some up \<Rightarrow>
                            if name = up then Inr (Some i, int_mark i c)
                            else (case c_downstream c of
                                None \<Rightarrow> Inl Null_deref
                              | Some down \<Rightarrow>
                                  if name = down then Inr (Some i, int_mark i c)
                                  else Inr (None, int_destroy i c)))))))"

text \<open>
  \<^verbatim>\<open>int_set_mld_version\<close>, with its conditions as written: the version is set when it is 0 only.
\<close>

definition int_set_mld_version :: "nat \<Rightarrow> nat \<Rightarrow> conf \<Rightarrow> conf" where
  "int_set_mld_version i newversion c =
    (if newversion = 1 then
       if c_mld2only c then c
       else if in_mld_version (int_at c i) = 0 \<and> in_mld_version (int_at c i) \<noteq> 1
       then upd_int i (\<lambda>n. n\<lparr>in_mld_version := 1, in_mld_last_v1 := c_clock c\<rparr>) c
       else c
     else
       let c = (if in_mld_last_v1 (int_at c i) \<noteq> 0
                   \<and> c_clock c > in_mld_last_v1 (int_at c i) + ECMH_SUBSCRIPTION_TIMEOUT
                then upd_int i (\<lambda>n. n\<lparr>in_mld_version := 0, in_mld_last_v1 := 0\<rparr>) c else c) in
       if c_mld1only c then c
       else if in_mld_version (int_at c i) = 0 \<and> in_mld_version (int_at c i) \<noteq> 1
               \<and> in_mld_version (int_at c i) \<noteq> 2
       then upd_int i (\<lambda>n. n\<lparr>in_mld_version := newversion\<rparr>) c
       else c)"

section \<open>Invariants and frames\<close>

lemma int_find_Some: "int_find k c = Some i \<Longrightarrow> i = k \<and> k < length (c_ints c) \<and> in_mtu (c_ints c ! k) \<noteq> 0"
  by (simp add: int_find_def split: if_splits)

lemma int_destroy_wf: "wf_conf c \<Longrightarrow> wf_conf (int_destroy i c)"
  unfolding wf_conf_def int_destroy_def upd_int_def by (auto intro!: wf_ints_update)

lemma int_destroy_frame [simp, frame]:
  "c_groups (int_destroy i c) = c_groups c" "c_clock (int_destroy i c) = c_clock c"
  "c_routes (int_destroy i c) = c_routes c" "c_downstream_id (int_destroy i c) = c_downstream_id c"
  by (simp_all add: int_destroy_def)

lemma wf_conf_upd_int:
  assumes "wf_conf c" and "in_mtu (f (int_at c i)) = in_mtu (int_at c i)"
    and "in_ifindex (f (int_at c i)) = in_ifindex (int_at c i)"
  shows "wf_conf (upd_int i f c)"
  using assms unfolding wf_conf_def upd_int_def by (auto intro!: wf_ints_update)

lemma int_set_mld_version_frame [simp, frame]:
  "c_groups (int_set_mld_version i v c) = c_groups c"
  "c_routes (int_set_mld_version i v c) = c_routes c"
  "c_clock (int_set_mld_version i v c) = c_clock c"
  "c_trace (int_set_mld_version i v c) = c_trace c"
  "length (c_ints (int_set_mld_version i v c)) = length (c_ints c)"
  by (simp_all add: int_set_mld_version_def Let_def)

lemma int_set_mld_version_wf: "wf_conf c \<Longrightarrow> wf_conf (int_set_mld_version i v c)"
  by (auto simp: int_set_mld_version_def Let_def intro!: wf_conf_upd_int)


section \<open>Creating an interface\<close>

text \<open>An operation that writes the interface node at \<open>k\<close> only (and the two interface ids).\<close>

definition only_int :: "nat \<Rightarrow> conf \<Rightarrow> conf \<Rightarrow> bool" where
  "only_int k c c' \<longleftrightarrow> c_groups c' = c_groups c \<and> c_trace c' = c_trace c \<and> c_routes c' = c_routes c
     \<and> c_upstream c' = c_upstream c \<and> c_downstream c' = c_downstream c
     \<and> length (c_ints c') = length (c_ints c) \<and> (\<forall>j. j \<noteq> k \<longrightarrow> c_ints c' ! j = c_ints c ! j)"

lemma only_int_refl [simp]: "only_int k c c"
  by (simp add: only_int_def)

lemma only_int_trans: "only_int k c c' \<Longrightarrow> only_int k c' c'' \<Longrightarrow> only_int k c c''"
  by (simp add: only_int_def)

lemma only_int_upd [simp]: "only_int k c (upd_int k f c)"
  by (simp add: only_int_def upd_int_def)

lemma only_int_destroy [simp]: "only_int k c (int_destroy k c)"
  by (simp add: int_destroy_def)

lemma only_int_mark [simp]: "only_int k c (int_mark k c)"
  by (simp add: int_mark_def Let_def only_int_def upd_int_def split: option.split)

lemma upd_int_at [simp]: "i < length (c_ints c) \<Longrightarrow> int_at (upd_int i f c) i = f (int_at c i)"
  by (simp add: upd_int_def)

lemma upd_int_names [simp]:
  "c_upstream (upd_int i f c) = c_upstream c" "c_downstream (upd_int i f c) = c_downstream c"
  by (simp_all add: upd_int_def)

lemma int_destroy_at [simp]: "i < length (c_ints c) \<Longrightarrow> in_mtu (int_at (int_destroy i c) i) = 0"
  by (simp add: int_destroy_def)

lemma int_mark_at:
  assumes "i < length (c_ints c)"
  shows "in_ifindex (int_at (int_mark i c) i) = in_ifindex (int_at c i)"
    and "in_name (int_at (int_mark i c) i) = in_name (int_at c i)"
    and "in_upstream (int_at (int_mark i c) i)
      = (case c_upstream c of None \<Rightarrow> False | Some u \<Rightarrow> strcasecmp_eq (in_name (int_at c i)) u)"
  using assms by (simp_all add: int_mark_def Let_def split: option.split)

lemma wf_conf_only_int:
  assumes "wf_conf c" and "only_int k c c'"
    and "k < length (c_ints c') \<Longrightarrow> in_mtu (int_at c' k) \<noteq> 0 \<Longrightarrow> in_ifindex (int_at c' k) = k"
  shows "wf_conf c'"
  using assms unfolding wf_conf_def wf_ints_def only_int_def by metis

lemma int_resize_facts:
  "k < length (c_ints (int_resize k c))" "c_groups (int_resize k c) = c_groups c"
  "c_upstream (int_resize k c) = c_upstream c" "c_downstream (int_resize k c) = c_downstream c"
  "c_trace (int_resize k c) = c_trace c" "c_routes (int_resize k c) = c_routes c"
  "j < length (c_ints c) \<Longrightarrow> c_ints (int_resize k c) ! j = c_ints c ! j"
  by (auto simp: int_resize_def nth_append)

lemma int_resize_wf: "wf_conf c \<Longrightarrow> wf_conf (int_resize k c)"
  by (auto simp: wf_conf_def wf_ints_def int_resize_def nth_append int_zero_def)

text \<open>
  The outcome of the interface queries, as one of three: the temporary socket fails, a query
  fails or the interface is not one of ours, or the node is kept.
\<close>

lemma int_create_cases:
  assumes "c_upstream c = Some u" and "c_downstream c = Some d"
  obtains (no_socket) "\<not> os_ioctl_socket os (c_trace c)" "int_create os k c = Inr (None, int_resize k c)"
  | (dropped) c' where "only_int k (int_resize k c) c'" "int_create os k c = Inr (None, c')"
      "in_mtu (int_at c' k) = 0"
  | (kept) c' where "only_int k (int_resize k c) c'" "int_create os k c = Inr (Some k, int_mark k c')"
      "in_ifindex (int_at c' k) = k" "in_name (int_at c' k) \<in> {u, d}"
proof (cases "os_ioctl_socket os (c_trace c)")
  case False
  then show thesis using no_socket by (simp add: int_create_def Let_def int_resize_facts)
next
  case ok: True
  let ?c = "int_resize k c"
  note len = int_resize_facts(1) [of k c]
  define c1 where "c1 = upd_int k (\<lambda>_. int_zero\<lparr>in_ifindex := k, in_mld_version := 0\<rparr>) ?c"
  define c2 where "c2 name = upd_int k (\<lambda>n. n\<lparr>in_name := name\<rparr>) c1" for name
  define c3 where "c3 name mtu = upd_int k (\<lambda>n. n\<lparr>in_mtu := mtu\<rparr>) (c2 name)" for name mtu
  define c4 where "c4 name mtu hw = upd_int k (\<lambda>n. n\<lparr>in_hwfamily := hw\<rparr>) (c3 name mtu)" for name mtu hw
  have l: "k < length (c_ints c1)" "\<And>n. k < length (c_ints (c2 n))"
    "\<And>n m. k < length (c_ints (c3 n m))" "\<And>n m h. k < length (c_ints (c4 n m h))"
    using len by (simp_all add: c1_def c2_def c3_def c4_def)
  have o1: "only_int k ?c c1" by (simp add: c1_def)
  have o2: "only_int k ?c (c2 n)" for n unfolding c2_def by (rule only_int_trans [OF o1]) simp
  have o3: "only_int k ?c (c3 n m)" for n m unfolding c3_def by (rule only_int_trans [OF o2 [of n]]) simp
  have o4: "only_int k ?c (c4 n m h)" for n m h
    unfolding c4_def by (rule only_int_trans [OF o3 [of n m]]) simp
  have drop: thesis if "only_int k ?c x" "k < length (c_ints x)"
      "int_create os k c = Inr (None, int_destroy k x)" for x
    using that dropped [of "int_destroy k x"] only_int_trans [OF that(1)] by simp
  have keep: thesis if "int_create os k c = Inr (Some k, int_mark k (c4 n m h))" "n \<in> {u, d}" for n m h
    using that o4 l by (intro kept [of "c4 n m h"]) (simp_all add: c4_def c3_def c2_def c1_def len)
  have names: "c_upstream (c4 n m h) = Some u" "c_downstream (c4 n m h) = Some d" for n m h
    using assms by (simp_all add: c4_def c3_def c2_def c1_def int_resize_facts)
  have run: "int_create os k c = (case os_indextoname os k of None \<Rightarrow> Inr (None, int_destroy k c1)
      | Some n \<Rightarrow> (case os_ifmtu os n of None \<Rightarrow> Inr (None, int_destroy k (c2 n))
      | Some m \<Rightarrow> (case os_ifhwaddr os n of None \<Rightarrow> Inr (None, int_destroy k (c3 n m))
      | Some h \<Rightarrow> if h = ARPHRD_LOOPBACK then Inr (None, int_destroy k (c4 n m h))
          else if n = u \<or> n = d then Inr (Some k, int_mark k (c4 n m h))
          else Inr (None, int_destroy k (c4 n m h)))))"
    using ok names
    by (auto simp: int_create_def Let_def int_resize_facts c1_def c2_def c3_def c4_def assms split: option.split)
  show thesis
    using run drop [OF o1 l(1)] drop [OF o2 l(2)] drop [OF o3 l(3)] drop [OF o4 l(4)] keep
    by (auto split: option.splits if_splits)
qed


text \<open>
  C24. With both interface names configured, \<^verbatim>\<open>int_create\<close> never faults, keeps the state well
  formed, leaves the groups and every other interface alone, and makes the array long enough. It
  returns an interface only when its name is the upstream or the downstream one, and then the
  upstream mark is set exactly by that comparison; when it returns \<^verbatim>\<open>NULL\<close> after its queries the
  interface cannot be found.
\<close>

theorem int_create_correct:
  assumes "wf_conf c" and "c_upstream c = Some u" and "c_downstream c = Some d"
  shows "\<exists>r c'. int_create os k c = Inr (r, c') \<and> wf_conf c' \<and> c_groups c' = c_groups c
     \<and> k < length (c_ints c') \<and> (\<forall>j < length (c_ints c). j \<noteq> k \<longrightarrow> c_ints c' ! j = c_ints c ! j)
     \<and> (case r of None \<Rightarrow> os_ioctl_socket os (c_trace c) \<longrightarrow> int_find k c' = None
        | Some i \<Rightarrow> i = k \<and> in_ifindex (c_ints c' ! k) = k \<and> in_name (c_ints c' ! k) \<in> {u, d}
            \<and> in_upstream (c_ints c' ! k) = strcasecmp_eq (in_name (c_ints c' ! k)) u)"
  using assms(2,3)
proof (cases rule: int_create_cases [of c u d os k])
  case no_socket
  then show ?thesis using int_resize_wf [OF assms(1)] by (simp add: int_resize_facts)
next
  case (dropped c')
  then have "wf_conf c'" using wf_conf_only_int [OF int_resize_wf [OF assms(1)]] by blast
  with dropped show ?thesis
    by (simp add: only_int_def int_resize_facts int_find_def)
next
  case (kept c')
  then have o: "only_int k (int_resize k c) (int_mark k c')" by (meson only_int_trans only_int_mark)
  have len: "k < length (c_ints c')" "c_upstream c' = Some u"
    using kept(1) assms by (simp_all add: only_int_def int_resize_facts)
  have "wf_conf (int_mark k c')"
    by (rule wf_conf_only_int [OF int_resize_wf [OF assms(1)] o]) (use len kept in \<open>simp add: int_mark_at\<close>)
  with o kept len assms(2) show ?thesis
    by (simp add: only_int_def int_resize_facts int_mark_at)
qed

definition example_os :: os where
  "example_os = \<lparr>os_sendto = (\<lambda>_ _. Sent), os_socket = (\<lambda>t. 10 + int (length t)),
     os_setsockopt = (\<lambda>_ _. 0), os_ioctl_socket = (\<lambda>_. True),
     os_indextoname = (\<lambda>i. if i = 2 then Some ''eth0'' else if i = 3 then Some ''eth1'' else None),
     os_ifmtu = (\<lambda>_. Some 1500), os_ifhwaddr = (\<lambda>_. Some 1), os_junk = (\<lambda>_. 0), os_getifaddrs = (\<lambda>_. None)\<rparr>"

definition example_conf :: conf where
  "example_conf = \<lparr>c_ints = [], c_groups = [], c_upstream = Some ''eth0'', c_upstream_id = 0,
     c_downstream = Some ''eth1'', c_downstream_id = 0, c_daemonize = True, c_verbose = False,
     c_quit = False, c_mld1only = False, c_mld2only = False, c_kernel = False, c_mr6_fd = 0,
     c_promisc = False, c_bufferlen = 32768, c_stat_starttime = 1000, c_stat_packets_received = 0,
     c_stat_packets_sent = 0, c_stat_bytes_received = 0, c_stat_bytes_sent = 0,
     c_stat_icmp_received = 0, c_stat_icmp_sent = 0, c_stat_hlim_exceeded = 0, c_routes = None,
     c_last_update = 0, c_timeout_offset = 0, c_needs_timeout = False, c_clock = 1000, c_trace = []\<rparr>"

lemma example_conf_wf: "wf_conf example_conf"
  by (simp add: wf_conf_def wf_groups_def wf_ints_def example_conf_def)

theorem int_create_correct_witness:
  "\<exists>r c'. int_create example_os 2 example_conf = Inr (r, c') \<and> wf_conf c' \<and> 2 < length (c_ints c')"
proof -
  have "c_upstream example_conf = Some ''eth0''" "c_downstream example_conf = Some ''eth1''"
    by (simp_all add: example_conf_def)
  from int_create_correct [OF example_conf_wf this, of example_os 2] show ?thesis by blast
qed

section \<open>The MLD version of an interface\<close>

text \<open>
  The version an interface is known by changes in two ways only: from unknown (0) to the
  version just seen, or, on an MLDv2 message, from any version back to unknown and then to the new
  one when the last MLDv1 sighting is more than 125 seconds old. In particular a link seen as
  MLDv2 is never downgraded by an MLDv1 message, and the mode options freeze it.
\<close>

lemma int_set_mld_version_transitions:
  assumes "i < length (c_ints c)"
  shows "in_mld_version (int_at (int_set_mld_version i 1 c) i)
      = (if \<not> c_mld2only c \<and> in_mld_version (int_at c i) = 0 then 1 else in_mld_version (int_at c i))
    \<and> in_mld_version (int_at (int_set_mld_version i 2 c) i)
      = (let old = in_mld_version (int_at c i); last = in_mld_last_v1 (int_at c i);
             stale = (last \<noteq> 0 \<and> c_clock c > last + 125) in
         if \<not> c_mld1only c \<and> (stale \<or> old = 0) then 2 else if stale then 0 else old)"
  using assms by (simp add: int_set_mld_version_def Let_def) (simp add: upd_int_def)

lemma int_set_mld_version_transitions_witness:
  "in_mld_version (int_at (int_set_mld_version 0 1
     (example_conf\<lparr>c_ints := [int_zero\<lparr>in_mld_version := 2\<rparr>]\<rparr>)) 0) = 2"
  using int_set_mld_version_transitions [of 0 "example_conf\<lparr>c_ints := [int_zero\<lparr>in_mld_version := 2\<rparr>]\<rparr>"]
  by simp

end
