(* ===== verification/Group_table.thy ===== *)
theory Group_table
  imports Interfaces
begin

text \<open>
  Groups and the interfaces that joined them: \<^verbatim>\<open>src/groups.c\<close>, \<^verbatim>\<open>src/grpint.c\<close> and the subscriber
  nodes of \<^verbatim>\<open>src/subscr.c\<close>. \<^verbatim>\<open>g_conf->groups\<close> is searched by address and a group's interfaces by
  index, so both are keyed tables.
\<close>

section \<open>grpint.c\<close>

text \<open>\<^verbatim>\<open>filter_timer\<close> is not stored to: the node comes from \<^verbatim>\<open>malloc\<close> uncleared.\<close>

definition grpint_create :: "os \<Rightarrow> conf \<Rightarrow> intnode \<Rightarrow> grpintnode" where
  "grpint_create os c intf = \<lparr>gi_ifindex = in_ifindex intf, gi_includes = [], gi_excludes = [],
     gi_filter_mode = 1, gi_filter_timer = os_junk os (c_trace c)\<rparr>"

definition grpint_find :: "grpintnode list \<Rightarrow> ifindex \<Rightarrow> nat option" where
  "grpint_find l ifindex = index_of (\<lambda>gi. gi_ifindex gi = ifindex) l"

text \<open>The refresh of a subscription returns \<^verbatim>\<open>NULL\<close> and does nothing.\<close>

definition grpint_refresh :: "grpintnode \<Rightarrow> in6_addr \<Rightarrow> nat \<Rightarrow> in6_addr option" where
  "grpint_refresh gi ipv6 mode = None"

section \<open>groups.c\<close>

definition group_create :: "in6_addr \<Rightarrow> groupnode" where
  "group_create mca = \<lparr>g_mca = mca, g_interfaces = [], g_lastforward = 0, g_bytes = 0, g_packets = 0\<rparr>"

definition groups_find :: "groupnode list \<Rightarrow> in6_addr \<Rightarrow> nat option" where
  "groups_find gs mca = index_of (\<lambda>g. g_mca g = mca) gs"

definition group_find :: "in6_addr \<Rightarrow> conf \<Rightarrow> nat option" where
  "group_find mca c = groups_find (c_groups c) mca"

text \<open>
  The first half of \<^verbatim>\<open>groupint_get\<close> finds or makes the group and sets \<^verbatim>\<open>*isnew\<close>; the second finds
  or makes the interface in it. \<^verbatim>\<open>if (isnew)\<close> there tests the pointer, which callers always pass,
  so \<^verbatim>\<open>lastforward\<close> is set in every case.
\<close>

definition group_get :: "in6_addr \<Rightarrow> conf \<Rightarrow> nat \<times> bool \<times> conf" where
  "group_get mca c =
     (case group_find mca c of
        None \<Rightarrow> (length (c_groups c), True, c\<lparr>c_groups := c_groups c @ [group_create mca]\<rparr>)
      | Some g \<Rightarrow> (g, c_clock c - g_lastforward (c_groups c ! g) \<ge> ECMH_SUBSCRIPTION_TIMEOUT, c))"

definition groupint_get :: "os \<Rightarrow> in6_addr \<Rightarrow> nat \<Rightarrow> conf \<Rightarrow> (nat \<times> nat) \<times> bool \<times> conf" where
  "groupint_get os mca i c =
     (let (g, isnew, c) = group_get mca c;
          c = upd_group g (\<lambda>gr. gr\<lparr>g_lastforward := c_clock c\<rparr>) c;
          l = g_interfaces (c_groups c ! g) in
      case grpint_find l (in_ifindex (int_at c i)) of
        None \<Rightarrow> ((g, length l), isnew,
                 upd_group g (\<lambda>gr. gr\<lparr>g_interfaces := l @ [grpint_create os c (int_at c i)]\<rparr>) c)
      | Some j \<Rightarrow> ((g, j), isnew, c))"

section \<open>subscr.c\<close>

record subscrnode =
  su_ipv6 :: in6_addr
  su_refreshtime :: time_t

definition subscr_create :: "in6_addr \<Rightarrow> time_t \<Rightarrow> subscrnode" where
  "subscr_create ipv6 now = \<lparr>su_ipv6 = ipv6, su_refreshtime = now\<rparr>"

definition subscr_find :: "subscrnode list \<Rightarrow> in6_addr \<Rightarrow> nat option" where
  "subscr_find l ipv6 = index_of (\<lambda>s. su_ipv6 s = ipv6) l"

text \<open>
  \<^verbatim>\<open>subscr_unsub\<close> walks on a copy of each node on its stack and hands the copy to
  \<^verbatim>\<open>list_delete_node\<close>, which frees it: a match ends in an invalid \<^verbatim>\<open>free\<close>. Nothing calls it.
\<close>

definition subscr_unsub :: "subscrnode list \<Rightarrow> in6_addr \<Rightarrow> (bool \<times> subscrnode list) res" where
  "subscr_unsub l ipv6 = (case subscr_find l ipv6 of None \<Rightarrow> Inr (False, l) | Some _ \<Rightarrow> Inl Invalid_free)"

section \<open>Tables\<close>

interpretation gt: keyed_table g_mca groups_find
  unfolding groups_find_def [abs_def] by (rule index_of_key_table)

interpretation it: keyed_table gi_ifindex grpint_find
  unfolding grpint_find_def [abs_def] by (rule index_of_key_table)

interpretation st: keyed_table su_ipv6 subscr_find
  unfolding subscr_find_def [abs_def] by (rule index_of_key_table)

lemma group_find_SomeD: "group_find mca c = Some g \<Longrightarrow> g < length (c_groups c) \<and> g_mca (c_groups c ! g) = mca"
  by (auto simp: group_find_def dest: gt.find_key_Some)

lemma group_find_upd [simp]: "group_find mca (upd_int i f c) = group_find mca c"
  by (simp add: group_find_def)

section \<open>Properties\<close>

lemma groupint_get_new:
  assumes "group_find mca c = None"
  shows "groupint_get os mca i c = ((length (c_groups c), 0), True,
    c\<lparr>c_groups := c_groups c @ [\<lparr>g_mca = mca, g_interfaces = [grpint_create os c (int_at c i)],
      g_lastforward = c_clock c, g_bytes = 0, g_packets = 0\<rparr>]\<rparr>)"
  using assms
  by (simp add: groupint_get_def group_get_def upd_group_def group_create_def grpint_find_def
      grpint_create_def)

lemma groupint_get_known:
  assumes "group_find mca c = Some g"
  shows "groupint_get os mca i c =
    (let gr = c_groups c ! g; l = g_interfaces gr;
         isnew = c_clock c - g_lastforward gr \<ge> ECMH_SUBSCRIPTION_TIMEOUT in
     case grpint_find l (in_ifindex (int_at c i)) of
       None \<Rightarrow> ((g, length l), isnew, c\<lparr>c_groups := (c_groups c)[g := gr\<lparr>g_lastforward := c_clock c,
                 g_interfaces := l @ [grpint_create os c (int_at c i)]\<rparr>]\<rparr>)
     | Some j \<Rightarrow> ((g, j), isnew, c\<lparr>c_groups := (c_groups c)[g := gr\<lparr>g_lastforward := c_clock c\<rparr>]\<rparr>))"
  using assms group_find_SomeD [OF assms]
  by (simp add: groupint_get_def group_get_def upd_group_def grpint_create_def Let_def
      split: option.splits)

lemma grpint_create_wf [simp]: "wf_grpint (grpint_create os c n)" "gi_ifindex (grpint_create os c n) = in_ifindex n"
  by (simp_all add: wf_grpint_def grpint_create_def)

lemma wf_groups_add:
  assumes "wf_groups gs" and "groups_find gs (g_mca r) = None" and "wf_group r"
  shows "wf_groups (gs @ [r])"
  using assms gt.distinct_add [of gs r] by (auto simp: wf_groups_def)

lemma wf_group_add:
  assumes "wf_group gr" and "grpint_find (g_interfaces gr) (gi_ifindex gi) = None" and "wf_grpint gi"
  shows "wf_group (gr\<lparr>g_lastforward := t, g_interfaces := g_interfaces gr @ [gi]\<rparr>)"
  using assms it.distinct_add [of "g_interfaces gr" gi] by (auto simp: wf_group_def)

lemma groupint_get_wf:
  assumes "wf_conf c" and "groupint_get os mca i c = ((g, j), isnew, c')"
  shows "wf_conf c'"
proof (cases "group_find mca c")
  case None
  have "wf_group \<lparr>g_mca = mca, g_interfaces = [grpint_create os c (int_at c i)],
      g_lastforward = c_clock c, g_bytes = 0, g_packets = 0\<rparr>"
    by (simp add: wf_group_def)
  with None assms show ?thesis
    by (auto simp: groupint_get_new wf_conf_def group_find_def intro!: wf_groups_add)
next
  case (Some k)
  then have k: "k < length (c_groups c)" by (simp add: group_find_SomeD)
  with assms(1) have w: "wf_group (c_groups c ! k)" by (simp add: wf_conf_def wf_groups_nth)
  then have w': "wf_group ((c_groups c ! k)\<lparr>g_lastforward := c_clock c\<rparr>)" by (simp add: wf_group_def)
  show ?thesis
    using Some assms w w' k unfolding groupint_get_known [OF Some] Let_def
    by (auto simp: wf_conf_def intro!: wf_groups_update wf_group_add split: option.splits)
qed

lemma groupint_get_pointers:
  assumes "groupint_get os mca i c = ((g, j), isnew, c')"
  shows "g < length (c_groups c')" "g_mca (c_groups c' ! g) = mca"
    "j < length (g_interfaces (c_groups c' ! g))"
    "gi_ifindex (grpint_at c' g j) = in_ifindex (int_at c i)"
    "g_lastforward (c_groups c' ! g) = c_clock c"
  using assms
  by (cases "group_find mca c"; auto simp: groupint_get_new groupint_get_known Let_def nth_append
        dest!: group_find_SomeD it.find_key_Some split: option.splits)+

lemma groupint_get_frame:
  assumes "groupint_get os mca i c = ((g, j), isnew, c')"
  shows "c_ints c' = c_ints c" "c_clock c' = c_clock c" "c_trace c' = c_trace c"
    "c_routes c' = c_routes c" "c_downstream_id c' = c_downstream_id c"
    "length (c_groups c) \<le> length (c_groups c')"
  using assms
  by (cases "group_find mca c"; auto simp: groupint_get_new groupint_get_known Let_def
        split: option.splits)+

lemma groupint_get_others:
  assumes "groupint_get os mca i c = ((g, j), isnew, c')" and "k < length (c_groups c)" and "k \<noteq> g"
  shows "c_groups c' ! k = c_groups c ! k"
  using assms
  by (cases "group_find mca c"; auto simp: groupint_get_new groupint_get_known Let_def nth_append
        split: option.splits)+

lemma groupint_get_kept:
  assumes "groupint_get os mca i c = ((g, j), isnew, c')" and "g < length (c_groups c)"
    and "k < length (g_interfaces (c_groups c ! g))"
  shows "grpint_at c' g k = grpint_at c g k"
  using assms
  by (cases "group_find mca c"; auto simp: groupint_get_new groupint_get_known Let_def nth_append
        dest!: group_find_SomeD split: option.splits)+

lemma groupint_get_isnew:
  assumes "groupint_get os mca i c = ((g, j), isnew, c')"
  shows "isnew \<longleftrightarrow> (case group_find mca c of None \<Rightarrow> True
     | Some g \<Rightarrow> c_clock c - g_lastforward (c_groups c ! g) \<ge> ECMH_SUBSCRIPTION_TIMEOUT)"
  using assms
  by (cases "group_find mca c"; auto simp: groupint_get_new groupint_get_known Let_def
        split: option.splits)

lemma group_find_unique:
  assumes "wf_conf c" and "g < length (c_groups c)"
  shows "group_find (g_mca (c_groups c ! g)) c = Some g"
  using assms gt.find_unique [of "c_groups c" g] by (simp add: wf_conf_def wf_groups_def group_find_def)

lemma group_find_clock [simp]: "group_find mca (c\<lparr>c_clock := t\<rparr>) = group_find mca c"
  by (simp add: group_find_def)

text \<open>
  C23. \<^verbatim>\<open>groupint_get\<close> is a find-or-create: from a well-formed state it returns a group for the address
  and in it a node for the interface, keeps the state well formed, leaves every other group and
  every other interface of the group as it was, and is stable: asking again gives the same nodes.
\<close>

theorem groupint_get_correct:
  assumes "wf_conf c" and "groupint_get os mca i c = ((g, j), isnew, c')"
  shows "wf_conf c' \<and> group_find mca c' = Some g
     \<and> grpint_find (g_interfaces (c_groups c' ! g)) (in_ifindex (int_at c i)) = Some j
     \<and> (\<forall>k < length (c_groups c). k \<noteq> g \<longrightarrow> c_groups c' ! k = c_groups c ! k)
     \<and> (g < length (c_groups c) \<longrightarrow> (\<forall>k < length (g_interfaces (c_groups c ! g)). grpint_at c' g k = grpint_at c g k))
     \<and> (\<exists>isnew' c''. groupint_get os mca i c' = ((g, j), isnew', c'') \<and> c_groups c'' = c_groups c')"
proof -
  have w: "wf_conf c'" using assms by (rule groupint_get_wf)
  note p = groupint_get_pointers [OF assms(2)] and f = groupint_get_frame [OF assms(2)]
  have g: "group_find mca c' = Some g" using group_find_unique [OF w p(1)] p(2) by simp
  have "wf_group (c_groups c' ! g)" using w p(1) by (simp add: wf_conf_def wf_groups_nth)
  then have j: "grpint_find (g_interfaces (c_groups c' ! g)) (in_ifindex (int_at c i)) = Some j"
    using it.find_unique p(3,4) by (simp add: wf_group_def)
  have same: "(c_groups c' ! g)\<lparr>g_lastforward := c_clock c\<rparr> = c_groups c' ! g" using p(5) by simp
  have "\<exists>isnew' c''. groupint_get os mca i c' = ((g, j), isnew', c'') \<and> c_groups c'' = c_groups c'"
    using j f(1,2) same list_update_id [of "c_groups c'" g]
    by (simp add: groupint_get_known [OF g] Let_def)
  with w g j show ?thesis
    using groupint_get_others [OF assms(2)] groupint_get_kept [OF assms(2)] by blast
qed

theorem groupint_get_correct_witness:
  "\<exists>g j isnew c'. groupint_get example_os 0xff0e0001 0 (example_conf\<lparr>c_ints := [int_zero]\<rparr>) = ((g, j), isnew, c')
     \<and> wf_conf c' \<and> group_find 0xff0e0001 c' = Some g"
proof -
  let ?c = "example_conf\<lparr>c_ints := [int_zero]\<rparr>"
  have "wf_conf ?c" by (simp add: wf_conf_def example_conf_def wf_groups_def wf_ints_def int_zero_def)
  moreover obtain g j isnew c' where "groupint_get example_os 0xff0e0001 0 ?c = ((g, j), isnew, c')"
    by (metis prod_cases3 prod.exhaust)
  ultimately show ?thesis using groupint_get_correct by blast
qed

text \<open>The \<^verbatim>\<open>isnew\<close> flags of a sequence of calls at the given times.\<close>

fun isnew_flags :: "os \<Rightarrow> in6_addr \<Rightarrow> nat \<Rightarrow> time_t list \<Rightarrow> conf \<Rightarrow> bool list" where
  "isnew_flags os mca i [] c = []"
| "isnew_flags os mca i (t # ts) c =
     (let (p, isnew, c') = groupint_get os mca i (c\<lparr>c_clock := t\<rparr>) in isnew # isnew_flags os mca i ts c')"

lemma isnew_flags_known:
  assumes "wf_conf c" and "group_find mca c = Some g" and "g_lastforward (c_groups c ! g) = t"
    and "successively (\<lambda>a b. b - a < ECMH_SUBSCRIPTION_TIMEOUT) (t # ts)"
  shows "isnew_flags os mca i ts c = replicate (length ts) False"
  using assms
proof (induction ts arbitrary: c g t)
  case (Cons t' ts)
  obtain g' j isnew c' where gi: "groupint_get os mca i (c\<lparr>c_clock := t'\<rparr>) = ((g', j), isnew, c')"
    by (metis prod_cases3 prod.exhaust)
  have w: "wf_conf (c\<lparr>c_clock := t'\<rparr>)" using Cons.prems(1) by (simp add: wf_conf_def)
  have "\<not> isnew" using groupint_get_isnew [OF gi] Cons.prems by simp
  moreover have "isnew_flags os mca i ts c' = replicate (length ts) False"
  proof (rule Cons.IH)
    show "wf_conf c'" using w gi by (rule groupint_get_wf)
    then show "group_find mca c' = Some g'"
      using group_find_unique groupint_get_pointers(1,2) [OF gi] by metis
    show "g_lastforward (c_groups c' ! g') = t'" using groupint_get_pointers(5) [OF gi] by simp
    show "successively (\<lambda>a b. b - a < ECMH_SUBSCRIPTION_TIMEOUT) (t' # ts)"
      using Cons.prems(4) by simp
  qed
  ultimately show ?case using gi by simp
qed simp

text \<open>
  Because every call stores \<^verbatim>\<open>lastforward\<close>, a group that is reported at least once in each
  subscription timeout is announced as new once and then never again, however long it lives: the
  resending after 125 seconds happens only after a silence.
\<close>

lemma reports_starve_resending:
  assumes "wf_conf c" and "group_find mca c = None"
    and "successively (\<lambda>a b. b - a < ECMH_SUBSCRIPTION_TIMEOUT) (t # ts)"
  shows "isnew_flags os mca i (t # ts) c = True # replicate (length ts) False"
proof -
  let ?c = "c\<lparr>c_clock := t\<rparr>"
  obtain g j isnew c' where gi: "groupint_get os mca i ?c = ((g, j), isnew, c')"
    by (metis prod_cases3 prod.exhaust)
  have "wf_conf ?c" using assms(1) by (simp add: wf_conf_def)
  then have w: "wf_conf c'" using gi by (rule groupint_get_wf)
  have "group_find mca c' = Some g"
    using group_find_unique [OF w] groupint_get_pointers(1,2) [OF gi] by metis
  then have "isnew_flags os mca i ts c' = replicate (length ts) False"
    using isnew_flags_known [OF w] groupint_get_pointers(5) [OF gi] assms(3) by simp
  moreover have "isnew" using groupint_get_isnew [OF gi] assms(2) by simp
  ultimately show ?thesis using gi by simp
qed

lemma reports_starve_resending_witness:
  "isnew_flags example_os 0xff0e0001 0 [0, 100, 200, 300] example_conf = [True, False, False, False]"
proof -
  have "group_find 0xff0e0001 example_conf = None"
    by (simp add: group_find_def groups_find_def example_conf_def)
  moreover have "successively (\<lambda>a b. b - a < ECMH_SUBSCRIPTION_TIMEOUT) [0, 100, 200, 300]" by simp
  ultimately have "isnew_flags example_os 0xff0e0001 0 [0, 100, 200, 300] example_conf
      = True # replicate (length [100, 200, 300 :: int]) False"
    by (rule reports_starve_resending [OF example_conf_wf])
  then show ?thesis by (simp del: isnew_flags.simps add: numeral_3_eq_3)
qed

end
