(* ===== verification/Checksum.thy ===== *)
theory Checksum
  imports Ecmh_Prelude
begin

text \<open>
  The Internet checksum and the name tables at the top of \<^verbatim>\<open>src/ecmh.c\<close>. \<^verbatim>\<open>inchksum\<close> reads its
  16-bit words in the byte order of the machine; this is the little-endian build. Its sum is a
  64-bit \<^verbatim>\<open>long\<close> over less than 2^32 bytes, which cannot overflow, so it is a natural number here.
\<close>

section \<open>inchksum and ipv6_checksum\<close>

fun word_sum :: "bytes \<Rightarrow> nat" where
  "word_sum (a # b # bs) = unat a + 256 * unat b + word_sum bs"
| "word_sum [a] = unat a"
| "word_sum [] = 0"

text \<open>\<^verbatim>\<open>while (sum >> 16) sum = (sum & 0xffff) + (sum >> 16);\<close>\<close>

function fold_carry :: "nat \<Rightarrow> nat" where
  "fold_carry s = (if s div 65536 = 0 then s else fold_carry (s mod 65536 + s div 65536))"
  by auto
termination
proof (relation "measure id")
  fix s :: nat
  assume "s div 65536 \<noteq> 0"
  moreover have "s = 65536 * (s div 65536) + s mod 65536" by simp
  ultimately show "(s mod 65536 + s div 65536, s) \<in> measure id" by (simp only: in_measure id_def)
qed simp

declare fold_carry.simps [simp del]

definition inchksum :: "bytes \<Rightarrow> u16" where
  "inchksum data = of_nat (fold_carry (word_sum data))"

text \<open>\<open>data\<close> is the memory at the pointer argument, cut to \<open>length\<close> bytes by the caller.\<close>

definition ipv6_checksum :: "in6_addr \<Rightarrow> in6_addr \<Rightarrow> u8 \<Rightarrow> bytes \<Rightarrow> u16 \<Rightarrow> u16" where
  "ipv6_checksum ip6_src ip6_dst protocol data len =
     (let pseudo = be_bytes 2 len @ [0, 0, 0, protocol];
          chksum = ucast (inchksum (be_bytes 16 ip6_src @ be_bytes 16 ip6_dst)) :: u32;
          chksum = chksum + ucast (inchksum pseudo);
          chksum = chksum + ucast (inchksum data);
          chksum = drop_bit 16 chksum + (chksum AND 0xffff);
          chksum = chksum + drop_bit 16 chksum;
          r = ucast (NOT chksum) :: u16 in
      if r = 0 then 0xffff else r)"

section \<open>Name tables\<close>

text \<open>
  \<^verbatim>\<open>lookup\<close> stops at the entry without a name; in a table that has none it runs past the end.
\<close>

type_synonym name_table = "(nat \<times> string option) list"

fun lookup_from :: "name_table \<Rightarrow> nat \<Rightarrow> string res" where
  "lookup_from [] num = Inl Out_of_bounds"
| "lookup_from ((n, None) # l) num = Inr ''Unknown''"
| "lookup_from ((n, Some desc) # l) num = (if n = num then Inr desc else lookup_from l num)"

definition lookup :: "name_table option \<Rightarrow> nat \<Rightarrow> string res" where
  "lookup l num = (case l of None \<Rightarrow> Inr ''Unknown'' | Some t \<Rightarrow> lookup_from t num)"

definition icmpv6_types :: name_table where
  "icmpv6_types =
    [(1, Some ''Destination Unreachable''), (2, Some ''Packet too big''), (3, Some ''Time Exceeded''),
     (4, Some ''Parameter Problem''), (128, Some ''Echo Request''), (129, Some ''Echo Reply''),
     (130, Some ''Membership Query''), (131, Some ''Membership Report''), (132, Some ''Membership Reduction''),
     (143, Some ''Membership Report (V2)''), (206, Some ''Membership Report (V2) - Experimental''),
     (133, Some ''ND Router Solicitation''), (134, Some ''ND Router Advertisement''),
     (135, Some ''ND Neighbour Solicitation''), (136, Some ''ND Neighbour Advertisement''),
     (137, Some ''ND Redirect''), (138, Some ''Router Renumbering''), (139, Some ''Node Information Query''),
     (140, Some ''Node Information Reply''), (200, Some ''Mtrace Response''), (201, Some ''Mtrace Message''),
     (0, None)]"

definition icmpv6_codes_unreach :: name_table where
  "icmpv6_codes_unreach =
    [(0, Some ''No route to destination''), (1, Some ''Administratively prohibited''),
     (2, Some ''Beyond scope of source address''), (3, Some ''Address Unreachable''),
     (4, Some ''Port Unreachable'')]"

definition icmpv6_codes_ttl :: name_table where
  "icmpv6_codes_ttl =
    [(0, Some ''Time Exceeded during Transit''), (1, Some ''Time Exceeded during Reassembly'')]"

definition icmpv6_codes_param :: name_table where
  "icmpv6_codes_param =
    [(0, Some ''Erroneous Header Field''), (1, Some ''Unrecognized Next Header''),
     (2, Some ''Unrecognized Option'')]"

definition icmpv6_codes_ni :: name_table where
  "icmpv6_codes_ni =
    [(0, Some ''Node Information Successful Reply''), (1, Some ''Node Information Request Is Refused''),
     (2, Some ''Unknown Qtype'')]"

definition icmpv6_codes_renumber :: name_table where
  "icmpv6_codes_renumber =
    [(0, Some ''Router Renumbering Command''), (1, Some ''Router Renumbering Result''),
     (255, Some ''Router Renumbering Sequence Number Reset'')]"

definition mld2_grec_types :: name_table where
  "mld2_grec_types =
    [(1, Some ''MLDv2 Mode Is Include''), (2, Some ''MLDv2 Mode Is Exclude''),
     (3, Some ''MLDv2 Change to Include''), (4, Some ''MLDv2 Change to Exclude''),
     (5, Some ''MLDv2 Allow New Source''), (6, Some ''MLDv2 Block Old Sources'')]"

definition icmpv6_code :: "nat \<Rightarrow> nat \<Rightarrow> string res" where
  "icmpv6_code type code =
     lookup (if type = 1 then Some icmpv6_codes_unreach
             else if type = 3 then Some icmpv6_codes_ttl
             else if type = 4 then Some icmpv6_codes_param
             else if type = 139 \<or> type = 140 then Some icmpv6_codes_ni
             else if type = 138 then Some icmpv6_codes_renumber
             else None) code"

section \<open>Properties\<close>

lemma fold_carry_bound: "fold_carry s < 65536"
  by (induction s rule: fold_carry.induct) (subst fold_carry.simps, auto)

lemma split16_mod: "(s mod 65536 + s div 65536) mod 65535 = s mod (65535 :: nat)"
proof -
  have "s = (s mod 65536 + s div 65536) + 65535 * (s div 65536)" by simp
  then show ?thesis by (metis mod_mult_self2)
qed

lemma fold_carry_mod: "fold_carry s mod 65535 = s mod 65535"
proof (induction s rule: fold_carry.induct)
  case (1 s)
  show ?case
  proof (cases "s div 65536 = 0")
    case False
    then show ?thesis using 1 by (subst fold_carry.simps) (simp add: split16_mod)
  qed (subst fold_carry.simps, simp)
qed

lemma unat_inchksum: "unat (inchksum bs) = fold_carry (word_sum bs)"
  using fold_carry_bound [of "word_sum bs"] by (simp add: inchksum_def unat_of_nat)

lemma inchksum_mod: "unat (inchksum bs) mod 65535 = word_sum bs mod 65535"
  by (simp add: unat_inchksum fold_carry_mod)

lemma inchksum_bound: "unat (inchksum bs) < 65536"
  by (simp add: unat_inchksum fold_carry_bound)

text \<open>The last steps of \<^verbatim>\<open>ipv6_checksum\<close> on the sum of three 16-bit values.\<close>

definition finish_checksum :: "nat \<Rightarrow> nat" where
  "finish_checksum n = (let a = n div 65536 + n mod 65536; b = (a + a div 65536) mod 65536 in
     if b = 65535 then 65535 else 65535 - b)"

lemma finish_checksum_mod:
  assumes "n < 3 * 65536"
  shows "(finish_checksum n + n) mod 65535 = 0" "0 < finish_checksum n" "finish_checksum n \<le> 65535"
proof -
  define a where "a = n div 65536 + n mod 65536"
  define b where "b = (a + a div 65536) mod 65536"
  have am: "a mod 65535 = n mod 65535" unfolding a_def by (metis add.commute split16_mod)
  have "n div 65536 < 3" using assms by (simp add: less_mult_imp_div_less)
  moreover have "n mod 65536 < 65536" by simp
  ultimately have a: "a < 65536 + 3" unfolding a_def by linarith
  have bm: "b mod 65535 = n mod 65535"
  proof (cases "a < 65536")
    case True
    then show ?thesis using am by (simp add: b_def)
  next
    case False
    then obtain d where d: "a = 65536 + d" "d < 3" using a le_Suc_ex by fastforce
    then have "a div 65536 = 1" by (intro div_nat_eqI) simp_all
    then have "b = (65536 + Suc d) mod 65536" unfolding b_def d(1) by simp
    also have "\<dots> = Suc d" unfolding mod_add_self1 using d(2) by simp
    finally have "b = a - 65535" using d(1) by simp
    then show ?thesis using False am by (simp add: le_mod_geq)
  qed
  have bb: "b < 65536" by (simp add: b_def)
  have f: "finish_checksum n = (if b = 65535 then 65535 else 65535 - b)"
    by (simp add: finish_checksum_def a_def b_def Let_def)
  show "0 < finish_checksum n" "finish_checksum n \<le> 65535" using bb f by auto
  have "(finish_checksum n + b) mod 65535 = 0" using bb f by auto
  then show "(finish_checksum n + n) mod 65535 = 0" using bm by (metis mod_add_right_eq)
qed

lemma unat_not16: "unat (NOT (v :: u16)) = 65535 - unat v"
proof -
  have n: "NOT v = 65535 - v" by (simp add: not_eq_complement)
  have "unat v < 65536" using unsigned_less [of v] by simp
  then have "unat v \<le> unat (65535 :: u16)" by simp
  then have "v \<le> 65535" by (simp add: word_le_nat_alt)
  with n show ?thesis by (simp add: unat_sub)
qed

lemma ucast_not16: "(ucast (NOT (z :: u32)) :: u16) = NOT (ucast z)"
  by (rule bit_word_eqI) (simp add: bit_simps)

lemma unat_ucast16: "unat (ucast (z :: u32) :: u16) = unat z mod 65536"
  by (simp add: unsigned_ucast_eq take_bit_eq_mod)

lemma unat_hi16: "unat (drop_bit 16 (x :: u32)) = unat x div 65536"
  by (simp add: unat_drop_bit_eq drop_bit_eq_div unat_div)

lemma unat_lo16: "unat ((x :: u32) AND 0xffff) = unat x mod 65536"
proof -
  have "x AND 0xffff = take_bit 16 x" by (simp add: take_bit_eq_mask mask_eq_exp_minus_1)
  then show ?thesis by (simp add: take_bit_eq_mod unat_mod)
qed

lemma unat_add32: "unat (a :: u32) + unat b < 2 ^ 32 \<Longrightarrow> unat (a + b) = unat a + unat b"
  by (simp add: unat_word_ariths(1))

lemma unat_finish:
  fixes x :: u32
  assumes "unat x < 3 * 65536"
  defines "y \<equiv> drop_bit 16 x + (x AND 0xffff)"
  defines "r \<equiv> ucast (NOT (y + drop_bit 16 y)) :: u16"
  shows "unat (if r = 0 then 0xffff else r) = finish_checksum (unat x)"
proof -
  let ?a = "unat x div 65536 + unat x mod 65536"
  have "unat x div 65536 < 3" using assms(1) by (simp add: less_mult_imp_div_less)
  moreover have "unat x mod 65536 < 65536" by simp
  ultimately have a: "?a < 65536 + 3" by linarith
  then have y: "unat y = ?a" unfolding y_def by (subst unat_add32) (simp_all add: unat_hi16 unat_lo16)
  have "?a div 65536 \<le> 1" using a by (simp add: div_le_dividend less_Suc_eq_le [symmetric] less_mult_imp_div_less)
  then have z: "unat (y + drop_bit 16 y) = ?a + ?a div 65536"
    using a by (subst unat_add32) (simp_all add: unat_hi16 y)
  define m where "m = (?a + ?a div 65536) mod 65536"
  have r: "unat r = 65535 - m"
    unfolding r_def ucast_not16 unat_not16 unat_ucast16 z m_def ..
  have fin: "finish_checksum (unat x) = (if m = 65535 then 65535 else 65535 - m)"
    unfolding finish_checksum_def m_def Let_def ..
  have m: "m < 65536" unfolding m_def by (rule mod_less_divisor) simp
  show ?thesis
  proof (cases "r = 0")
    case True
    then have "m = 65535" using r m by simp
    then show ?thesis using True fin by simp
  next
    case False
    then have "unat r \<noteq> 0" by (simp add: unat_eq_0)
    then have "m \<noteq> 65535" using r by simp
    then show ?thesis using False r fin by simp
  qed
qed

lemma unat_ucast_u32: "unat (ucast (w :: u16) :: u32) = unat w"
proof -
  have "unat w < 65536" using unsigned_less [where w = w and 'a = nat] by simp
  then show ?thesis by (simp add: unsigned_ucast_eq take_bit_eq_mod)
qed

lemma unat_ipv6_checksum:
  fixes src dst :: in6_addr and len :: u16 and nxt :: u8 and data :: bytes
  defines "n \<equiv> fold_carry (word_sum (be_bytes 16 src @ be_bytes 16 dst))
     + fold_carry (word_sum (be_bytes 2 len @ [0, 0, 0, nxt])) + fold_carry (word_sum data)"
  shows "unat (ipv6_checksum src dst nxt data len) = finish_checksum n" "n < 3 * 65536"
proof -
  let ?a = "inchksum (be_bytes 16 src @ be_bytes 16 dst)"
  let ?b = "inchksum (be_bytes 2 len @ [0, 0, 0, nxt])"
  let ?c = "inchksum data"
  note u = unat_ucast_u32
  have b: "unat ?a < 65536" "unat ?b < 65536" "unat ?c < 65536" by (rule inchksum_bound)+
  have "unat (ucast ?a + ucast ?b :: u32) = unat ?a + unat ?b"
    by (subst unat_add32) (use b in \<open>simp_all add: u\<close>)
  then have "unat (ucast ?a + ucast ?b + ucast ?c :: u32) = unat ?a + unat ?b + unat ?c"
    by (subst unat_add32) (use b in \<open>simp_all add: u\<close>)
  then have s: "unat (ucast ?a + ucast ?b + ucast ?c :: u32) = n"
    unfolding n_def unat_inchksum by simp
  show n: "n < 3 * 65536" unfolding s [symmetric] using b
    \<open>unat (ucast ?a + ucast ?b + ucast ?c :: u32) = unat ?a + unat ?b + unat ?c\<close> by simp
  show "unat (ipv6_checksum src dst nxt data len) = finish_checksum n"
    unfolding ipv6_checksum_def Let_def
    by (subst unat_finish) (use n s in simp_all)
qed

lemma word_sum_append: "even (length a) \<Longrightarrow> word_sum (a @ b) = word_sum a + word_sum b"
  by (induction a rule: word_sum.induct) auto

text \<open>
  The reference: RFC 8200 sums the pseudo-header (addresses, 32-bit length, three zero bytes, next
  header) and the message as 16-bit words in network order, modulo 65535.
\<close>

fun be_sum :: "bytes \<Rightarrow> nat" where
  "be_sum (a # b # bs) = 256 * unat a + unat b + be_sum bs"
| "be_sum [a] = 256 * unat a"
| "be_sum [] = 0"

definition rfc_pseudo :: "in6_addr \<Rightarrow> in6_addr \<Rightarrow> u16 \<Rightarrow> u8 \<Rightarrow> bytes" where
  "rfc_pseudo src dst len nxt =
     be_bytes 16 src @ be_bytes 16 dst @ be_bytes 4 (ucast len :: u32) @ [0, 0, 0, nxt]"

text \<open>The image in memory of a 16-bit value in machine order.\<close>

definition le_bytes16 :: "u16 \<Rightarrow> bytes" where
  "le_bytes16 w = [ucast w, ucast (drop_bit 8 w)]"

definition put_csum :: "u16 \<Rightarrow> bytes \<Rightarrow> bytes" where
  "put_csum w d = take 2 d @ le_bytes16 w @ drop 4 d"

lemma be_sum_word_sum: "be_sum bs mod 65535 = 256 * word_sum bs mod 65535"
proof (induction bs rule: word_sum.induct)
  case (1 a b bs)
  have "256 * word_sum (a # b # bs) = (256 * unat a + unat b + 256 * word_sum bs) + 65535 * unat b" by simp
  then have "256 * word_sum (a # b # bs) mod 65535 = (256 * unat a + unat b + 256 * word_sum bs) mod 65535"
    by (metis mod_mult_self2)
  also have "\<dots> = (256 * unat a + unat b + be_sum bs) mod 65535" using 1 by (metis mod_add_right_eq)
  finally show ?case by simp
qed simp_all

lemma be_sum_valid: "be_sum bs mod 65535 = 0 \<longleftrightarrow> word_sum bs mod 65535 = 0"
proof -
  have "256 * (256 * x) mod 65535 = x mod 65535" for x :: nat
    using mod_mult_self2 [of x 65535 x] by simp
  then show ?thesis unfolding be_sum_word_sum by (metis mod_mult_right_eq mult_0_right mod_0)
qed

lemma word_sum_le_bytes16: "word_sum (le_bytes16 w) = unat w"
proof -
  have "unat (ucast w :: byte) = unat w mod 256" by (simp add: unsigned_ucast_eq take_bit_eq_mod)
  moreover have "unat (ucast (drop_bit 8 w) :: byte) = unat w div 256 mod 256"
    using unat_byte_of_drop [of 8 w] by simp
  moreover have "unat w div 256 < 256"
    using unsigned_less [where w = w and 'a = nat] by (simp add: less_mult_imp_div_less)
  ultimately show ?thesis by (simp add: le_bytes16_def)
qed

lemma word_sum_be_bytes4: "word_sum (be_bytes 4 (ucast (w :: u16) :: u32)) = word_sum (be_bytes 2 w)"
proof -
  note u = unat_ucast_u32
  have "unat w < 65536" using unsigned_less [where w = w and 'a = nat] by simp
  then have z: "unat w div 16777216 = 0" "unat w div 65536 = 0" by simp_all
  have b: "be_bytes 4 (ucast w :: u32) = [ucast (drop_bit 24 (ucast w :: u32)), ucast (drop_bit 16 (ucast w :: u32)),
      ucast (drop_bit 8 (ucast w :: u32)), ucast (drop_bit 0 (ucast w :: u32))]"
    "be_bytes 2 w = [ucast (drop_bit 8 w), ucast (drop_bit 0 w)]"
    by (simp_all add: be_bytes_def upt_rec)
  show ?thesis unfolding b word_sum.simps unat_byte_of_drop u using z by simp
qed

lemma word_sum_put_csum:
  assumes "4 \<le> length d"
  shows "word_sum (put_csum w d) = word_sum (put_csum 0 d) + unat w"
proof -
  have "word_sum (take 2 d @ le_bytes16 v @ drop 4 d) = word_sum (take 2 d) + unat v + word_sum (drop 4 d)" for v
  proof -
    have "even (length (take 2 d))" "even (length (le_bytes16 v))" using assms by (simp_all add: le_bytes16_def)
    then show ?thesis by (simp add: word_sum_append word_sum_le_bytes16)
  qed
  then show ?thesis by (simp add: put_csum_def)
qed

lemma word_sum_pseudo:
  "word_sum (rfc_pseudo src dst len nxt @ d) = word_sum (be_bytes 16 src @ be_bytes 16 dst)
     + word_sum (be_bytes 2 len @ [0, 0, 0, nxt]) + word_sum d"
  unfolding rfc_pseudo_def by (simp add: word_sum_append word_sum_be_bytes4)

lemma residue_unique_le:
  fixes r c n :: nat
  assumes "(r + n) mod 65535 = 0" "(c + n) mod 65535 = 0" "0 < r" "c \<le> 65535" "r \<le> c"
  shows "r = c"
proof -
  have "65535 dvd c + n" "65535 dvd r + n" using assms by (simp_all only: dvd_eq_mod_eq_0)
  then have "65535 dvd (c + n) - (r + n)" by (rule dvd_diff_nat)
  then have "65535 dvd c - r" by simp
  moreover have "c - r < 65535" using assms by simp
  ultimately have "c - r = 0" by (metis dvd_imp_le gr0I not_le)
  with assms show ?thesis by simp
qed

lemma residue_unique:
  fixes r c n :: nat
  assumes "(r + n) mod 65535 = 0" "(c + n) mod 65535 = 0" "0 < r" "r \<le> 65535" "0 < c" "c \<le> 65535"
  shows "r = c"
  using residue_unique_le [OF assms(1,2,3,6)] residue_unique_le [OF assms(2,1,5,4)] by linarith

lemma ipv6_checksum_iff:
  assumes "4 \<le> length d"
  shows "w = ipv6_checksum src dst nxt (put_csum 0 d) len
     \<longleftrightarrow> w \<noteq> 0 \<and> be_sum (rfc_pseudo src dst len nxt @ put_csum w d) mod 65535 = 0"
proof -
  let ?a = "word_sum (be_bytes 16 src @ be_bytes 16 dst)"
  let ?b = "word_sum (be_bytes 2 len @ [0, 0, 0, nxt])"
  let ?n = "fold_carry ?a + fold_carry ?b + fold_carry (word_sum (put_csum 0 d))"
  let ?m = "?a + ?b + word_sum (put_csum 0 d)"
  let ?r = "ipv6_checksum src dst nxt (put_csum 0 d) len"
  have nm: "?n mod 65535 = ?m mod 65535" by (intro mod_add_cong fold_carry_mod)
  have r: "(unat ?r + ?n) mod 65535 = 0" "0 < unat ?r" "unat ?r \<le> 65535"
    using finish_checksum_mod [OF unat_ipv6_checksum(2)] unfolding unat_ipv6_checksum(1) by blast+
  have "(unat ?r + ?m) mod 65535 = (unat ?r + ?n) mod 65535"
    by (rule mod_add_cong [OF refl nm [symmetric]])
  with r(1) have rm: "(unat ?r + ?m) mod 65535 = 0" by (rule trans [rotated])
  have v: "be_sum (rfc_pseudo src dst len nxt @ put_csum x d) mod 65535 = 0 \<longleftrightarrow> (unat x + ?m) mod 65535 = 0" for x
    unfolding be_sum_valid word_sum_pseudo word_sum_put_csum [OF assms, of x] by (simp add: ac_simps)
  have b: "unat w \<le> 65535" using unsigned_less [where w = w and 'a = nat] by simp
  have eq: "w = ?r" if "w \<noteq> 0" "(unat w + ?m) mod 65535 = 0"
  proof -
    have "0 < unat w" using that(1) by (simp add: unat_gt_0)
    then have "unat w = unat ?r" using residue_unique [OF that(2) rm] b r(2,3) by blast
    then show ?thesis by (simp only: word_unat_eq_iff)
  qed
  have nz: "?r \<noteq> 0" using r(2) by (simp add: unat_gt_0)
  show ?thesis unfolding v
  proof (rule iffI)
    assume w: "w = ?r"
    show "w \<noteq> 0 \<and> (unat w + ?m) mod 65535 = 0" unfolding w using rm nz by blast
  qed (erule conjE, rule eq)
qed

text \<open>
  C13. \<^verbatim>\<open>ipv6_checksum\<close> agrees with the RFC: a stored checksum equals the one it computes over the message
  with the field cleared exactly when it is not zero and the sum of pseudo-header and message, in
  network order, is 0 modulo 65535. This is both that sent messages are valid and that the
  comparison on receipt accepts just the valid ones.
\<close>

theorem ipv6_checksum_correct:
  assumes "4 \<le> length d"
  shows "w = ipv6_checksum src dst nxt (put_csum 0 d) len
     \<longleftrightarrow> w \<noteq> 0 \<and> be_sum (rfc_pseudo src dst len nxt @ put_csum w d) mod 65535 = 0"
  using assms by (rule ipv6_checksum_iff)

theorem ipv6_checksum_correct_witness:
  "ipv6_checksum 1 2 58 [130, 0, 0, 0, 7, 208] 6 \<noteq> 0"
  using ipv6_checksum_correct [of "[130, 0, 0, 0, 7, 208]" "ipv6_checksum 1 2 58 [130, 0, 0, 0, 7, 208] 6" 1 2 58 6]
  by (simp add: put_csum_def le_bytes16_def)

text \<open>The codes that \<^verbatim>\<open>icmpv6_code\<close> can name; for other types it does not look.\<close>

definition known_codes :: "nat \<Rightarrow> nat list option" where
  "known_codes type = (if type = 1 then Some [0, 1, 2, 3, 4] else if type = 3 then Some [0, 1]
     else if type = 4 \<or> type = 139 \<or> type = 140 then Some [0, 1, 2]
     else if type = 138 then Some [0, 1, 255] else None)"

text \<open>
  Only the table of types ends with a terminator: naming a type never faults, while naming a
  code runs past its table exactly when the type has a table and the code is not in it, and naming
  an MLDv2 record type runs past its table exactly when it is not one of the six.
\<close>

lemma lookup_overrun:
  "(\<exists>s. lookup (Some icmpv6_types) n = Inr s)
   \<and> (icmpv6_code n code = Inl Out_of_bounds
       \<longleftrightarrow> (case known_codes n of None \<Rightarrow> False | Some cs \<Rightarrow> code \<notin> set cs))
   \<and> (lookup (Some mld2_grec_types) n = Inl Out_of_bounds \<longleftrightarrow> n \<notin> {1..6})"
proof (intro conjI)
  show "\<exists>s. lookup (Some icmpv6_types) n = Inr s"
    by (simp add: lookup_def icmpv6_types_def)
  show "icmpv6_code n code = Inl Out_of_bounds
      \<longleftrightarrow> (case known_codes n of None \<Rightarrow> False | Some cs \<Rightarrow> code \<notin> set cs)"
    by (simp add: icmpv6_code_def lookup_def known_codes_def icmpv6_codes_unreach_def icmpv6_codes_ttl_def
        icmpv6_codes_param_def icmpv6_codes_ni_def icmpv6_codes_renumber_def)
  show "lookup (Some mld2_grec_types) n = Inl Out_of_bounds \<longleftrightarrow> n \<notin> {1..6}"
    by (simp add: lookup_def mld2_grec_types_def; presburger)
qed

end
