(* ===== verification/Mld_send.thy ===== *)
theory Mld_send
  imports Group_table Checksum
begin

text \<open>
  The sending half of \<^verbatim>\<open>src/ecmh.c\<close>: \<^verbatim>\<open>sendpacket6\<close>, \<^verbatim>\<open>icmp6_send\<close>, the MLD queries and the MLD
  reports. Packets are built byte for byte as the packed structures lie in memory; a read outside
  the structure that holds them is a fault.
\<close>

section \<open>Packets\<close>

text \<open>\<^verbatim>\<open>struct ip6_hdr\<close>, with the version nibble in the first byte and traffic class and flow label 0.\<close>

definition ip6_header :: "u16 \<Rightarrow> u8 \<Rightarrow> u8 \<Rightarrow> in6_addr \<Rightarrow> in6_addr \<Rightarrow> bytes" where
  "ip6_header plen nxt hlim src dst =
     [0x60, 0, 0, 0] @ be_bytes 2 plen @ [nxt, hlim] @ be_bytes 16 src @ be_bytes 16 dst"

text \<open>The hop-by-hop header for ICMPv6 with the router alert option for MLD and two bytes of padding.\<close>

definition router_alert :: bytes where
  "router_alert = [58, 0, 5, 2, 0, 0, 1, 0]"

abbreviation (input) IPPROTO_HOPOPTS :: u8 where "IPPROTO_HOPOPTS \<equiv> 0"
abbreviation (input) IPPROTO_ICMPV6 :: u8 where "IPPROTO_ICMPV6 \<equiv> 58"
abbreviation (input) MLD_LISTENER_QUERY :: u8 where "MLD_LISTENER_QUERY \<equiv> 130"
abbreviation (input) MLD_LISTENER_REPORT :: u8 where "MLD_LISTENER_REPORT \<equiv> 131"
abbreviation (input) MLD_LISTENER_REDUCTION :: u8 where "MLD_LISTENER_REDUCTION \<equiv> 132"

definition all_nodes :: in6_addr where
  "all_nodes = 0xff020000000000000000000000000001"

section \<open>sendpacket6\<close>

definition eth_multicast :: "bytes \<Rightarrow> bytes" where
  "eth_multicast ip6_dst = [0x33, 0x33] @ drop 12 ip6_dst"

text \<open>The end of \<^verbatim>\<open>sendpacket6\<close>, by the result of the system call.\<close>

definition after_send :: "nat \<Rightarrow> u16 \<Rightarrow> send_result \<Rightarrow> conf \<Rightarrow> conf" where
  "after_send i len sent c =
     (case sent of
        Send_ENXIO \<Rightarrow> int_destroy i c
      | Send_failed \<Rightarrow> c
      | Sent \<Rightarrow>
          let c = c\<lparr>c_stat_packets_sent := c_stat_packets_sent c + 1,
                    c_stat_bytes_sent := c_stat_bytes_sent c + ucast len\<rparr> in
          upd_int i (\<lambda>n. n\<lparr>in_stat_bytes_sent := in_stat_bytes_sent n + ucast len,
                            in_stat_packets_sent := in_stat_packets_sent n + 1\<rparr>) c)"

definition sendpacket6 :: "os \<Rightarrow> nat \<Rightarrow> bytes \<Rightarrow> u16 \<Rightarrow> conf \<Rightarrow> conf res" where
  "sendpacket6 os i iph len c =
     bindR (read_bytes iph 24 16) (\<lambda>ip6_dst.
     bindR (read_bytes iph 0 (unat len)) (\<lambda>data.
       let call = Sendto (in_ifindex (int_at c i)) (eth_multicast ip6_dst) data;
           sent = os_sendto os (c_trace c) call in
       Inr (after_send i len sent (emit call c))))"

definition count_icmp_sent :: "nat \<Rightarrow> conf \<Rightarrow> conf" where
  "count_icmp_sent i c =
     upd_int i (\<lambda>n. n\<lparr>in_stat_icmp_sent := in_stat_icmp_sent n + 1\<rparr>)
       (c\<lparr>c_stat_icmp_sent := c_stat_icmp_sent c + 1\<rparr>)"

section \<open>icmp6_send\<close>

text \<open>
  The packet on the stack is 40 bytes of IPv6 header, 8 of ICMPv6 header and 1500 of data; the
  data is copied from the last four bytes of the ICMPv6 header on. \<^verbatim>\<open>dlen\<close> is not bounded: the
  copy is, the checksum and the send are not.
\<close>

definition icmp6_send :: "os \<Rightarrow> nat \<Rightarrow> in6_addr \<Rightarrow> u8 \<Rightarrow> u8 \<Rightarrow> bytes \<Rightarrow> u32 \<Rightarrow> conf \<Rightarrow> conf res" where
  "icmp6_send os i src type code data dlen c =
     (let global = in_global (int_at c i);
          plen = of_nat (unat dlen + 4) :: u16 in
      bindR (read_bytes data 0 (if 1500 > unat dlen then unat dlen else 1500)) (\<lambda>d.
        let icmp6 = [type, code, 0, 0] @ d @ replicate (1504 - length d) 0 in
        bindR (read_bytes icmp6 0 (unat plen)) (\<lambda>covered.
          let cksum = ipv6_checksum global src IPPROTO_ICMPV6 covered plen;
              packet = ip6_header plen IPPROTO_ICMPV6 64 global src @ put_csum cksum icmp6 in
          bindR (sendpacket6 os i packet (of_nat (unat dlen + 44)) c) (\<lambda>c.
            Inr (count_icmp_sent i c)))))"

section \<open>Queries\<close>

definition mld_send_query :: "os \<Rightarrow> nat \<Rightarrow> in6_addr \<Rightarrow> in6_addr option \<Rightarrow> bool \<Rightarrow> conf \<Rightarrow> conf res" where
  "mld_send_query os i mca src suppression c =
     (if in_upstream (int_at c i) then Inr c
      else
        let linklocal = in_linklocal (int_at c i);
            packetlen = (if c_mld1only c then 72 else case src of Some s \<Rightarrow> 92 | None \<Rightarrow> 76) :: nat;
            qrv = (if c_mld1only c then 0 else (if suppression then 8 else 0) + 2);
            qqic = (if c_mld1only c then 0 else 125);
            nsrcs = (if c_mld1only c then 0 else case src of Some s \<Rightarrow> 1 | None \<Rightarrow> 0) :: u16;
            source = (if c_mld1only c then 0 else case src of Some s \<Rightarrow> s | None \<Rightarrow> 0);
            mldq = [MLD_LISTENER_QUERY, 0, 0, 0] @ be_bytes 2 (2000 :: u16) @ [0, 0] @ be_bytes 16 mca
                     @ [qrv, qqic] @ be_bytes 2 nsrcs @ be_bytes 16 source;
            csum = ipv6_checksum linklocal all_nodes IPPROTO_ICMPV6 (take (packetlen - 48) mldq)
                     (of_nat (packetlen - 48));
            packet = ip6_header (of_nat (packetlen - 40)) IPPROTO_HOPOPTS 1 linklocal all_nodes
                       @ router_alert @ put_csum csum mldq in
        bindR (sendpacket6 os i packet (of_nat packetlen) c) (\<lambda>c. Inr (count_icmp_sent i c)))"

definition mld_send_mquery :: "os \<Rightarrow> nat \<Rightarrow> in6_addr \<Rightarrow> srclist \<Rightarrow> bool \<Rightarrow> conf \<Rightarrow> conf res" where
  "mld_send_mquery os i mca srcs suppression =
     foldR (\<lambda>s. mld_send_query os i mca (Some (ms_addr s)) suppression) (elems srcs)"

section \<open>Reports\<close>

definition mld1_send_report :: "os \<Rightarrow> nat \<Rightarrow> in6_addr \<Rightarrow> conf \<Rightarrow> conf res" where
  "mld1_send_report os i mca c =
     (let linklocal = in_linklocal (int_at c i);
          mld1 = [MLD_LISTENER_REPORT, 0, 0, 0, 0, 0, 0, 0] @ be_bytes 16 mca;
          csum = ipv6_checksum linklocal mca IPPROTO_ICMPV6 mld1 24;
          packet = ip6_header 32 IPPROTO_HOPOPTS 1 linklocal mca @ router_alert @ put_csum csum mld1 in
      bindR (sendpacket6 os i packet 72 c) (\<lambda>c. Inr (count_icmp_sent i c)))"

text \<open>
  The loop of \<^verbatim>\<open>mld2_send_report\<close> over groups and interfaces has an empty body (it is under
  \<^verbatim>\<open>#if 0\<close>), so neither the number of records nor the pointer to the last record, \<^verbatim>\<open>grec\<close>, changes;
  what follows would read through \<^verbatim>\<open>grec\<close>, which is still \<^verbatim>\<open>NULL\<close>.
\<close>

definition mld2_send_report :: "nat \<Rightarrow> in6_addr option \<Rightarrow> conf \<Rightarrow> conf res" where
  "mld2_send_report i mca c =
     (if in_mtu (int_at c i) < 56 then Inr c
      else
        let ngrec = foldl (\<lambda>ngrec g.
              if (case mca of None \<Rightarrow> False | Some a \<Rightarrow> a \<noteq> g_mca g) \<or> g_interfaces g = [] then ngrec
              else foldl (\<lambda>ngrec gi. ngrec) ngrec (g_interfaces g)) (0 :: u16) (c_groups c) in
        if ngrec = 0 then Inr c else Inl Null_deref)"

definition mld_send_report :: "os \<Rightarrow> nat \<Rightarrow> in6_addr \<Rightarrow> conf \<Rightarrow> conf res" where
  "mld_send_report os i mca c =
     bindR (if \<not> c_mld2only c \<and> (c_mld1only c \<or> (in_mld_version (int_at c i) = 0 \<and> \<not> in_upstream (int_at c i))
                \<or> in_mld_version (int_at c i) = 1)
            then mld1_send_report os i mca c else Inr c) (\<lambda>c.
       if \<not> c_mld1only c \<and> (c_mld2only c \<or> in_mld_version (int_at c i) = 0 \<or> in_mld_version (int_at c i) = 2)
       then mld2_send_report i (Some mca) c else Inr c)"

definition mld_send_report_all :: "os \<Rightarrow> nat \<Rightarrow> in6_addr \<Rightarrow> conf \<Rightarrow> conf res" where
  "mld_send_report_all os i mca c =
     foldR (\<lambda>k c. if in_mtu (int_at c k) = 0 \<or> in_ifindex (int_at c i) = in_ifindex (int_at c k) then Inr c
                  else mld_send_report os k mca c) [0..<length (c_ints c)] c"

section \<open>What sending leaves alone\<close>

text \<open>
  Interfaces may only be destroyed or counted on: the array keeps its length, every node its index
  and role, and an MTU is kept or cleared. \<open>quiet\<close> adds that the subscription state, the routes
  and the configuration stay.
\<close>

definition ints_kept :: "conf \<Rightarrow> conf \<Rightarrow> bool" where
  "ints_kept c c' \<longleftrightarrow> length (c_ints c') = length (c_ints c)
     \<and> (\<forall>k. in_ifindex (int_at c' k) = in_ifindex (int_at c k) \<and> in_upstream (int_at c' k) = in_upstream (int_at c k)
           \<and> in_mtu (int_at c' k) \<in> {0, in_mtu (int_at c k)})"

definition quiet :: "conf \<Rightarrow> conf \<Rightarrow> bool" where
  "quiet c c' \<longleftrightarrow> ints_kept c c' \<and> c_groups c' = c_groups c \<and> c_routes c' = c_routes c
     \<and> c_clock c' = c_clock c \<and> c_downstream_id c' = c_downstream_id c
     \<and> c_mld1only c' = c_mld1only c \<and> c_mld2only c' = c_mld2only c"

lemma ints_kept_refl [simp]: "ints_kept c c"
  by (simp add: ints_kept_def)

lemma ints_kept_trans: "ints_kept a b \<Longrightarrow> ints_kept b c \<Longrightarrow> ints_kept a c"
  unfolding ints_kept_def by (metis insert_iff empty_iff)

lemma quiet_refl [simp]: "quiet c c"
  by (simp add: quiet_def)

lemma quiet_trans: "quiet a b \<Longrightarrow> quiet b c \<Longrightarrow> quiet a c"
  unfolding quiet_def by (metis ints_kept_trans)

lemma quietD:
  assumes "quiet c c'"
  shows "ints_kept c c'" "c_groups c' = c_groups c" "c_routes c' = c_routes c" "c_clock c' = c_clock c"
    "c_downstream_id c' = c_downstream_id c"
  using assms by (simp_all add: quiet_def)

lemma wf_ints_kept: "ints_kept c c' \<Longrightarrow> wf_ints (c_ints c) \<Longrightarrow> wf_ints (c_ints c')"
  unfolding ints_kept_def wf_ints_def by (metis empty_iff insert_iff)

lemma quiet_wf: "quiet c c' \<Longrightarrow> wf_conf c \<Longrightarrow> wf_conf c'"
  unfolding quiet_def wf_conf_def using wf_ints_kept by metis

lemma nth_upd_int:
  "c_ints (upd_int i f c) ! k = (if k = i \<and> i < length (c_ints c) then f (c_ints c ! i) else c_ints c ! k)"
  by (auto simp: upd_int_def list_update_beyond)

lemma ints_kept_upd:
  assumes "in_ifindex (f (int_at c i)) = in_ifindex (int_at c i)" "in_upstream (f (int_at c i)) = in_upstream (int_at c i)"
    "in_mtu (f (int_at c i)) \<in> {0, in_mtu (int_at c i)}"
  shows "ints_kept c (upd_int i f c)"
  using assms unfolding ints_kept_def nth_upd_int by simp

lemma quiet_upd_int:
  assumes "in_ifindex (f (int_at c i)) = in_ifindex (int_at c i)" "in_upstream (f (int_at c i)) = in_upstream (int_at c i)"
    "in_mtu (f (int_at c i)) \<in> {0, in_mtu (int_at c i)}"
  shows "quiet c (upd_int i f c)"
  using ints_kept_upd [of f, OF assms] by (simp add: quiet_def upd_int_def)

lemma quiet_emit [simp]: "quiet c (emit e c)"
  by (simp add: quiet_def emit_def ints_kept_def)

lemma quiet_int_destroy [simp]: "quiet c (int_destroy i c)"
  unfolding int_destroy_def by (rule quiet_upd_int) simp_all

lemma quiet_count_icmp_sent [simp]: "quiet c (count_icmp_sent i c)"
proof -
  let ?d = "c\<lparr>c_stat_icmp_sent := c_stat_icmp_sent c + 1\<rparr>"
  have "quiet c ?d" by (simp add: quiet_def ints_kept_def)
  moreover have "quiet ?d (count_icmp_sent i c)" unfolding count_icmp_sent_def by (rule quiet_upd_int) simp_all
  ultimately show ?thesis by (rule quiet_trans)
qed

lemma sendpacket6_ok:
  assumes "40 \<le> length iph" and "unat len \<le> length iph"
  obtains c' where "sendpacket6 os i iph len c = Inr c'" "quiet c c'"
    "c_trace c' = c_trace c @ [Sendto (in_ifindex (int_at c i)) (eth_multicast (take 16 (drop 24 iph))) (take (unat len) iph)]"
proof -
  let ?e = "Sendto (in_ifindex (int_at c i)) (eth_multicast (take 16 (drop 24 iph))) (take (unat len) iph)"
  let ?c = "emit ?e c"
  let ?d = "?c\<lparr>c_stat_packets_sent := c_stat_packets_sent ?c + 1, c_stat_bytes_sent := c_stat_bytes_sent ?c + ucast len\<rparr>"
  let ?f = "\<lambda>n. n\<lparr>in_stat_bytes_sent := in_stat_bytes_sent n + ucast len, in_stat_packets_sent := in_stat_packets_sent n + 1\<rparr>"
  have r: "read_bytes iph 24 16 = Inr (take 16 (drop 24 iph))" "read_bytes iph 0 (unat len) = Inr (take (unat len) iph)"
    using assms by simp_all
  have q: "quiet c ?c" "quiet ?c (int_destroy i ?c)" by simp_all
  have "quiet ?c ?d" by (simp add: quiet_def ints_kept_def)
  moreover have "quiet ?d (upd_int i ?f ?d)" by (rule quiet_upd_int) simp_all
  ultimately have "quiet c (upd_int i ?f ?d)" using q(1) quiet_trans by blast
  moreover have "quiet c (int_destroy i ?c)" using q quiet_trans by blast
  moreover have "c_trace (int_destroy i ?c) = c_trace c @ [?e]" by (simp add: int_destroy_def)
  moreover have "c_trace (upd_int i ?f ?d) = c_trace c @ [?e]" by simp
  moreover have "c_trace ?c = c_trace c @ [?e]" by simp
  ultimately show ?thesis using q(1)
    by (intro that [of "case os_sendto os (c_trace c) ?e of Send_ENXIO \<Rightarrow> int_destroy i ?c
           | Send_failed \<Rightarrow> ?c | Sent \<Rightarrow> upd_int i ?f ?d"])
      (simp_all add: sendpacket6_def after_send_def r Let_def split: send_result.splits)
qed

section \<open>What is on the wire\<close>

lemma take_put_csum:
  assumes "4 \<le> n"
  shows "take n (put_csum w (x # y # 0 # 0 # r)) = put_csum w (take n (x # y # 0 # 0 # r))"
    "put_csum 0 (take n (x # y # 0 # 0 # r)) = take n (x # y # 0 # 0 # r)"
    "length (put_csum w (x # y # 0 # 0 # r)) = length (x # y # 0 # 0 # r)"
proof -
  obtain m where n: "n = Suc (Suc (Suc (Suc m)))"
    using le_Suc_ex [OF assms] by (auto simp: numeral_eq_Suc)
  show "take n (put_csum w (x # y # 0 # 0 # r)) = put_csum w (take n (x # y # 0 # 0 # r))"
    "put_csum 0 (take n (x # y # 0 # 0 # r)) = take n (x # y # 0 # 0 # r)"
    "length (put_csum w (x # y # 0 # 0 # r)) = length (x # y # 0 # 0 # r)"
    by (simp_all add: n put_csum_def le_bytes16_def numeral_eq_Suc)
qed

text \<open>A message sent with the checksum over its first \<open>n\<close> bytes is valid on the wire.\<close>

lemma csum_on_wire:
  assumes "4 \<le> n" and "n \<le> length (x # y # 0 # 0 # r)"
  defines "m \<equiv> x # y # 0 # 0 # r"
  shows "be_sum (rfc_pseudo src dst len nxt @ take n (put_csum (ipv6_checksum src dst nxt (take n m) len) m)) mod 65535 = 0"
proof -
  have l: "4 \<le> length (take n m)" using assms by simp
  have "take n m = put_csum 0 (take n m)" unfolding m_def using take_put_csum(2) [OF assms(1)] by metis
  then have "ipv6_checksum src dst nxt (take n m) len = ipv6_checksum src dst nxt (put_csum 0 (take n m)) len" by simp
  then show ?thesis
    unfolding m_def take_put_csum(1) [OF assms(1)] using ipv6_checksum_iff [OF l] by (simp add: m_def)
qed

lemma length_ip6_header [simp]: "length (ip6_header plen nxt hlim src dst) = 40"
  by (simp add: ip6_header_def)

lemma length_router_alert [simp]: "length router_alert = 8"
  by (simp add: router_alert_def)

lemma ip6_header_dst: "take 16 (drop 24 (ip6_header plen nxt hlim src dst @ r)) = be_bytes 16 dst"
proof -
  let ?h = "[0x60, 0, 0, 0] @ be_bytes 2 plen @ [nxt, hlim] @ be_bytes 16 src"
  have "length ?h = 24" by simp
  then have "drop 24 (?h @ be_bytes 16 dst @ r) = be_bytes 16 dst @ r" by (metis append_eq_conv_conj)
  then show ?thesis by (simp add: ip6_header_def)
qed

text \<open>An MLD message behind the header and the router alert is sent as it was built.\<close>

lemma send_mld_ok:
  assumes "n \<le> length m" "n < 60000"
  obtains c' where "sendpacket6 os i (ip6_header plen 0 1 src dst @ router_alert @ m) (of_nat (n + 48)) c = Inr c'"
    "quiet c c'" "c_trace c' = c_trace c @ [Sendto (in_ifindex (int_at c i)) (eth_multicast (be_bytes 16 dst))
        (ip6_header plen 0 1 src dst @ router_alert @ take n m)]"
proof -
  let ?p = "ip6_header plen 0 1 src dst @ router_alert @ m"
  have u: "unat (of_nat (n + 48) :: u16) = n + 48" using assms(2) by (simp only: unat_of_nat) simp
  have t: "take (n + 48) ?p = ip6_header plen 0 1 src dst @ router_alert @ take n m" by simp
  have "40 \<le> length ?p" "unat (of_nat (n + 48) :: u16) \<le> length ?p" using assms(1) u by simp_all
  then obtain c' where "sendpacket6 os i ?p (of_nat (n + 48)) c = Inr c'" "quiet c c'"
    "c_trace c' = c_trace c @ [Sendto (in_ifindex (int_at c i)) (eth_multicast (take 16 (drop 24 ?p)))
       (take (unat (of_nat (n + 48) :: u16)) ?p)]"
    using sendpacket6_ok by blast
  then show ?thesis using that u t ip6_header_dst by metis
qed

text \<open>The fields of a query and the length of its message, as the configuration asks for them.\<close>

definition query_len :: "bool \<Rightarrow> in6_addr option \<Rightarrow> nat" where
  "query_len mld1only src = (if mld1only then 24 else case src of Some s \<Rightarrow> 44 | None \<Rightarrow> 28)"

definition query_tail :: "bool \<Rightarrow> in6_addr option \<Rightarrow> bool \<Rightarrow> bytes" where
  "query_tail mld1only src suppression = (if mld1only then []
     else [(if suppression then 8 else 0) + 2, 125] @ (case src of None \<Rightarrow> [0, 0] | Some s \<Rightarrow> [0, 1] @ be_bytes 16 s))"

lemma be_bytes_small: "be_bytes 2 (0 :: u16) = [0, 0]" "be_bytes 2 (1 :: u16) = [0, 1]" "be_bytes 2 (2000 :: u16) = [7, 208]"
  by (simp_all add: be_bytes_def upt_rec)

lemma mld_send_query_sent:
  assumes "\<not> in_upstream (int_at c i)"
  obtains c' m where "mld_send_query os i mca src suppression c = Inr c'" "quiet c c'"
    "c_trace c' = c_trace c @ [Sendto (in_ifindex (int_at c i)) (eth_multicast (be_bytes 16 all_nodes))
       (ip6_header (of_nat (length m + 8)) 0 1 (in_linklocal (int_at c i)) all_nodes @ router_alert @ m)]"
    "length m = query_len (c_mld1only c) src"
    "drop 4 m = [7, 208, 0, 0] @ be_bytes 16 mca @ query_tail (c_mld1only c) src suppression"
    "take 2 m = [130, 0]"
    "be_sum (rfc_pseudo (in_linklocal (int_at c i)) all_nodes (of_nat (length m)) 58 @ m) mod 65535 = 0"
proof -
  let ?n = "query_len (c_mld1only c) src"
  define qrv :: u8 where "qrv = (if c_mld1only c then 0 else (if suppression then 8 else 0) + 2)"
  define qqic :: u8 where "qqic = (if c_mld1only c then 0 else 125)"
  define nsrcs :: u16 where "nsrcs = (if c_mld1only c then 0 else case src of Some s \<Rightarrow> 1 | None \<Rightarrow> 0)"
  define source where "source = (if c_mld1only c then 0 else case src of Some s \<Rightarrow> s | None \<Rightarrow> 0)"
  define r where "r = be_bytes 2 (2000 :: u16) @ [0, 0] @ be_bytes 16 mca
      @ [qrv, qqic] @ be_bytes 2 nsrcs @ be_bytes 16 source"
  define ll where "ll = in_linklocal (int_at c i)"
  define m0 where "m0 = 130 # 0 # 0 # 0 # r"
  define csum where "csum = ipv6_checksum ll all_nodes 58 (take ?n m0) (of_nat ?n)"
  have lr: "length r = 40" "length m0 = 44" by (simp_all add: r_def m0_def)
  have n: "4 \<le> ?n" "?n \<le> length m0" "?n < 60000" by (simp_all add: query_len_def lr split: option.splits)
  have pl: "(if c_mld1only c then 72 else case src of Some s \<Rightarrow> 92 | None \<Rightarrow> 76) = ?n + 48"
    by (simp add: query_len_def split: option.splits)
  have pl': "?n + 48 - 40 = ?n + 8" "?n + 48 - 48 = ?n" by simp_all
  have lp: "length (put_csum csum m0) = length m0" unfolding m0_def by (rule take_put_csum(3) [OF n(1)])
  let ?send = "sendpacket6 os i (ip6_header (of_nat (?n + 8)) 0 1 ll all_nodes @ router_alert @ put_csum csum m0) (of_nat (?n + 48)) c"
  obtain c' where s: "?send = Inr c'" "quiet c c'" "c_trace c' = c_trace c @ [Sendto (in_ifindex (int_at c i))
      (eth_multicast (be_bytes 16 all_nodes)) (ip6_header (of_nat (?n + 8)) 0 1 ll all_nodes @ router_alert @ take ?n (put_csum csum m0))]"
    using send_mld_ok [where n = ?n and m = "put_csum csum m0"] n lp by metis
  have q: "mld_send_query os i mca src suppression c = bindR ?send (\<lambda>c. Inr (count_icmp_sent i c))"
    using assms
    by (simp add: mld_send_query_def Let_def pl pl' m0_def r_def csum_def ll_def qrv_def qqic_def nsrcs_def source_def
        del: of_nat_add split del: if_split)
  show ?thesis
  proof (rule that)
    show "mld_send_query os i mca src suppression c = Inr (count_icmp_sent i c')" unfolding q s(1) by simp
    show "quiet c (count_icmp_sent i c')" using s(2) quiet_trans quiet_count_icmp_sent by blast
    show len: "length (take ?n (put_csum csum m0)) = ?n" using n lp by simp
    show "c_trace (count_icmp_sent i c') = c_trace c @ [Sendto (in_ifindex (int_at c i)) (eth_multicast (be_bytes 16 all_nodes))
       (ip6_header (of_nat (length (take ?n (put_csum csum m0)) + 8)) 0 1 (in_linklocal (int_at c i)) all_nodes
         @ router_alert @ take ?n (put_csum csum m0))]"
      unfolding len using s(3) by (simp add: count_icmp_sent_def ll_def)
    show "drop 4 (take ?n (put_csum csum m0)) = [7, 208, 0, 0] @ be_bytes 16 mca @ query_tail (c_mld1only c) src suppression"
      by (simp add: put_csum_def m0_def r_def le_bytes16_def query_len_def query_tail_def be_bytes_small
          qrv_def qqic_def nsrcs_def source_def take_Cons' split: option.splits)
    show "take 2 (take ?n (put_csum csum m0)) = [130, 0]"
      using n(1) by (simp add: put_csum_def m0_def min_def)
    show "be_sum (rfc_pseudo (in_linklocal (int_at c i)) all_nodes (of_nat (length (take ?n (put_csum csum m0)))) 58
       @ take ?n (put_csum csum m0)) mod 65535 = 0"
      unfolding len unfolding csum_def m0_def ll_def
      by (rule csum_on_wire) (use n in \<open>simp_all add: m0_def\<close>)
  qed
qed

lemma mld_send_query_downstream:
  assumes "\<not> in_upstream (int_at c i)"
  shows "\<exists>c' p. mld_send_query os i mca src suppression c = Inr c'
     \<and> c_trace c' = c_trace c @ [Sendto (in_ifindex (int_at c i)) [0x33, 0x33, 0, 0, 0, 1] p]
     \<and> take 48 p = ip6_header (of_nat (length p - 40)) 0 1 (in_linklocal (int_at c i)) all_nodes @ router_alert
     \<and> length p = 48 + query_len (c_mld1only c) src
     \<and> be_sum (rfc_pseudo (in_linklocal (int_at c i)) all_nodes (of_nat (length p - 48)) 58 @ drop 48 p) mod 65535 = 0
     \<and> take 2 (drop 48 p) = [130, 0] \<and> be_word (take 16 (drop 56 p)) = mca
     \<and> drop 72 p = query_tail (c_mld1only c) src suppression"
proof -
  from assms obtain c' m where m: "mld_send_query os i mca src suppression c = Inr c'" "quiet c c'"
    "c_trace c' = c_trace c @ [Sendto (in_ifindex (int_at c i)) (eth_multicast (be_bytes 16 all_nodes))
       (ip6_header (of_nat (length m + 8)) 0 1 (in_linklocal (int_at c i)) all_nodes @ router_alert @ m)]"
    "length m = query_len (c_mld1only c) src"
    "drop 4 m = [7, 208, 0, 0] @ be_bytes 16 mca @ query_tail (c_mld1only c) src suppression"
    "take 2 m = [130, 0]"
    "be_sum (rfc_pseudo (in_linklocal (int_at c i)) all_nodes (of_nat (length m)) 58 @ m) mod 65535 = 0"
    by (rule mld_send_query_sent)
  let ?h = "ip6_header (of_nat (length m + 8)) 0 1 (in_linklocal (int_at c i)) all_nodes @ router_alert"
  let ?p = "?h @ m"
  have h: "length ?h = 48" by simp
  have d: "drop 48 ?p = m" "take 48 ?p = ?h" "length ?p = 48 + length m" using h by (metis append_eq_conv_conj length_append)+
  have e: "eth_multicast (be_bytes 16 all_nodes) = [0x33, 0x33, 0, 0, 0, 1]"
    by (simp add: eth_multicast_def be_bytes_def upt_rec all_nodes_def)
  have "drop 8 m = drop 4 (drop 4 m)" "drop 24 m = drop 20 (drop 4 m)" by simp_all
  then have f: "drop 8 m = be_bytes 16 mca @ query_tail (c_mld1only c) src suppression"
    "drop 24 m = query_tail (c_mld1only c) src suppression" unfolding m(5) by simp_all
  have "drop 56 ?p = drop 8 (drop 48 ?p)" "drop 72 ?p = drop 24 (drop 48 ?p)" by (simp_all only: drop_drop) simp_all
  then have f': "be_word (take 16 (drop 56 ?p)) = mca" "drop 72 ?p = query_tail (c_mld1only c) src suppression"
    unfolding d(1) f by simp_all
  have l: "length ?p - 40 = length m + 8" "length ?p - 48 = length m" using d(3) by simp_all
  show "\<exists>c' p. mld_send_query os i mca src suppression c = Inr c'
     \<and> c_trace c' = c_trace c @ [Sendto (in_ifindex (int_at c i)) [0x33, 0x33, 0, 0, 0, 1] p]
     \<and> take 48 p = ip6_header (of_nat (length p - 40)) 0 1 (in_linklocal (int_at c i)) all_nodes @ router_alert
     \<and> length p = 48 + query_len (c_mld1only c) src
     \<and> be_sum (rfc_pseudo (in_linklocal (int_at c i)) all_nodes (of_nat (length p - 48)) 58 @ drop 48 p) mod 65535 = 0
     \<and> take 2 (drop 48 p) = [130, 0] \<and> be_word (take 16 (drop 56 p)) = mca
     \<and> drop 72 p = query_tail (c_mld1only c) src suppression"
  proof (rule exI [of _ c'], rule exI [of _ ?p], intro conjI)
    show "mld_send_query os i mca src suppression c = Inr c'" by (rule m(1))
    show "c_trace c' = c_trace c @ [Sendto (in_ifindex (int_at c i)) [0x33, 0x33, 0, 0, 0, 1] ?p]"
      using m(3) unfolding e by (simp only: append_assoc)
    show "take 48 ?p = ip6_header (of_nat (length ?p - 40)) 0 1 (in_linklocal (int_at c i)) all_nodes @ router_alert"
      unfolding l by (rule d(2))
    show "length ?p = 48 + query_len (c_mld1only c) src" using d(3) m(4) by (rule trans [OF _ arg_cong])
    show "be_sum (rfc_pseudo (in_linklocal (int_at c i)) all_nodes (of_nat (length ?p - 48)) 58 @ drop 48 ?p) mod 65535 = 0"
      unfolding l d(1) by (rule m(7))
    show "take 2 (drop 48 ?p) = [130, 0]" unfolding d(1) by (rule m(6))
  qed (fact f')+
qed

text \<open>
  C15. A query goes out on every interface but an upstream one, as one packet: to the Ethernet address of
  ff02::1, from the link-local address with hop limit 1 and the router alert, its payload length
  the real one, with a checksum that is valid on the wire, asking for the given group and, unless
  in MLDv1-only mode, with robustness 2, interval 125 and exactly the given source.
\<close>

theorem mld_send_query_on_wire:
  "(in_upstream (int_at c i) \<longrightarrow> mld_send_query os i mca src suppression c = Inr c)
   \<and> (\<not> in_upstream (int_at c i) \<longrightarrow> (\<exists>c' p. mld_send_query os i mca src suppression c = Inr c'
     \<and> c_trace c' = c_trace c @ [Sendto (in_ifindex (int_at c i)) [0x33, 0x33, 0, 0, 0, 1] p]
     \<and> take 48 p = ip6_header (of_nat (length p - 40)) 0 1 (in_linklocal (int_at c i)) all_nodes @ router_alert
     \<and> length p = 48 + query_len (c_mld1only c) src
     \<and> be_sum (rfc_pseudo (in_linklocal (int_at c i)) all_nodes (of_nat (length p - 48)) 58 @ drop 48 p) mod 65535 = 0
     \<and> take 2 (drop 48 p) = [130, 0] \<and> be_word (take 16 (drop 56 p)) = mca
     \<and> drop 72 p = query_tail (c_mld1only c) src suppression))"
  using mld_send_query_downstream [of c i] by (simp add: mld_send_query_def)

theorem mld_send_query_on_wire_witness:
  "\<exists>c' p. mld_send_query example_os 0 5 None False (example_conf\<lparr>c_ints := [int_zero]\<rparr>) = Inr c' \<and> c_trace c' = [Sendto 0 [0x33, 0x33, 0, 0, 0, 1] p]
     \<and> length p = 76"
proof -
  let ?c = "example_conf\<lparr>c_ints := [int_zero]\<rparr>"
  have c: "\<not> in_upstream (int_at ?c 0)" "c_trace ?c = []" "in_ifindex (int_at ?c 0) = 0" "query_len (c_mld1only ?c) None = 28"
    by (simp_all add: example_conf_def int_zero_def query_len_def)
  then obtain c' p where p: "mld_send_query example_os 0 5 None False ?c = Inr c'"
    "c_trace c' = c_trace ?c @ [Sendto (in_ifindex (int_at ?c 0)) [0x33, 0x33, 0, 0, 0, 1] p]"
    "length p = 48 + query_len (c_mld1only ?c) None"
    using mld_send_query_on_wire [of ?c 0 example_os 5 None False] by blast
  have "c_trace c' = [Sendto 0 [0x33, 0x33, 0, 0, 0, 1] p]" "length p = 76"
    using p(2) unfolding c(2,3) p(3) c(4) by simp_all
  with p(1) show ?thesis by blast
qed

section \<open>Sending never faults\<close>

lemma mld_send_query_ok:
  obtains c' where "mld_send_query os i mca src suppression c = Inr c'" "quiet c c'"
proof (cases "in_upstream (int_at c i)")
  case True
  then show ?thesis using that [of c] by (simp add: mld_send_query_def)
next
  case False
  then show ?thesis using mld_send_query_sent that by metis
qed

text \<open>A loop whose body always returns, and keeps quiet, does so as a whole.\<close>

lemma foldR_quiet:
  assumes "\<And>x c. x \<in> set xs \<Longrightarrow> \<exists>c'. f x c = Inr c' \<and> quiet c c'"
  shows "\<exists>c'. foldR f xs c = Inr c' \<and> quiet c c'"
  using assms
proof (induction xs arbitrary: c)
  case (Cons x xs)
  then obtain c1 where c1: "f x c = Inr c1" "quiet c c1" by (meson list.set_intros(1))
  from Cons obtain c2 where "foldR f xs c1 = Inr c2" "quiet c1 c2" by (meson list.set_intros(2))
  with c1 show ?case using quiet_trans by (intro exI [of _ c2]) auto
qed simp

lemma mld_send_mquery_ok:
  obtains c' where "mld_send_mquery os i mca srcs suppression c = Inr c'" "quiet c c'"
proof -
  have "\<exists>c'. mld_send_query os i mca (Some (ms_addr s)) suppression c = Inr c' \<and> quiet c c'" for s c
    using mld_send_query_ok by metis
  then show ?thesis using foldR_quiet that unfolding mld_send_mquery_def by meson
qed

lemma mld1_send_report_ok:
  obtains c' where "mld1_send_report os i mca c = Inr c'" "quiet c c'"
proof -
  let ?ll = "in_linklocal (int_at c i)"
  let ?m = "put_csum (ipv6_checksum ?ll mca 58 ([131, 0, 0, 0, 0, 0, 0, 0] @ be_bytes 16 mca) 24)
      ([131, 0, 0, 0, 0, 0, 0, 0] @ be_bytes 16 mca)"
  let ?p = "ip6_header 32 0 1 ?ll mca @ router_alert @ ?m"
  have "length ?m = 24" by (simp add: put_csum_def le_bytes16_def)
  then have l: "40 \<le> length ?p" "unat (72 :: u16) \<le> length ?p" by simp_all
  obtain c' where c': "sendpacket6 os i ?p 72 c = Inr c'" "quiet c c'" by (rule sendpacket6_ok [OF l])
  have "mld1_send_report os i mca c = bindR (sendpacket6 os i ?p 72 c) (\<lambda>c. Inr (count_icmp_sent i c))"
    unfolding mld1_send_report_def Let_def ..
  then have "mld1_send_report os i mca c = Inr (count_icmp_sent i c')" unfolding c'(1) by simp
  then show ?thesis using that quiet_trans [OF c'(2) quiet_count_icmp_sent] by blast
qed

lemma foldl_idle: "foldl (\<lambda>n x. n) a xs = a"
  by (induction xs) auto

lemma mld2_send_report_idle: "mld2_send_report i mca c = Inr c"
  by (simp add: mld2_send_report_def foldl_idle cong: if_cong)

lemma mld_send_report_ok: "\<exists>c'. mld_send_report os i mca c = Inr c' \<and> quiet c c'"
proof -
  obtain c' where "mld1_send_report os i mca c = Inr c'" "quiet c c'" by (rule mld1_send_report_ok)
  then show ?thesis by (simp add: mld_send_report_def mld2_send_report_idle)
qed

lemma mld_send_report_all_ok: "\<exists>c'. mld_send_report_all os i mca c = Inr c' \<and> quiet c c'"
  unfolding mld_send_report_all_def by (rule foldR_quiet) (use mld_send_report_ok in simp)

end
