(* ===== verification/Kernel_routing.thy ===== *)
theory Kernel_routing
  imports Mld_send "HOL-Library.Multiset"
begin

text \<open>
  The multicast routes of the kernel, \<^verbatim>\<open>src/kernel_routing.c\<close>, and the socket side of upstream
  subscriptions, \<^verbatim>\<open>src/mcast_client.c\<close>. \<^verbatim>\<open>routes\<close> is \<^verbatim>\<open>NULL\<close> until \<^verbatim>\<open>mrouter_init\<close>; walking it then is
  a fault.
\<close>

section \<open>mcast_client.c\<close>

definition mcast_socket_create6 :: "os \<Rightarrow> conf \<Rightarrow> int" where
  "mcast_socket_create6 os c = (let fd = os_socket os (c_trace c) in if fd = -1 then -1 else fd)"

definition mcast_join_group :: "os \<Rightarrow> int \<Rightarrow> ifindex \<Rightarrow> in6_addr \<Rightarrow> conf \<Rightarrow> int \<times> conf" where
  "mcast_join_group os s ifindex mca c =
     (let call = Join_group s ifindex mca; res = os_setsockopt os (c_trace c) call; c = emit call c in
      if res = -1 then (-1, c) else (0, c))"

definition setsourcefilter :: "os \<Rightarrow> int \<Rightarrow> ifindex \<Rightarrow> in6_addr \<Rightarrow> nat \<Rightarrow> in6_addr option list \<Rightarrow> conf \<Rightarrow> int \<times> conf" where
  "setsourcefilter os s ifindex mca fmode slist c =
     (let call = Set_filter s ifindex mca fmode slist; res = os_setsockopt os (c_trace c) call in (res, emit call c))"

text \<open>
  The address array has one entry per list node; nodes without data are skipped while filling it,
  so as many entries at its end stay zero.
\<close>

definition mcast_set_filter :: "os \<Rightarrow> int \<Rightarrow> ifindex \<Rightarrow> in6_addr \<Rightarrow> nat \<Rightarrow> srclist \<Rightarrow> conf \<Rightarrow> int \<times> conf" where
  "mcast_set_filter os s ifindex mca filter_mode src_list c =
     (if src_list = [] then (0, c)
      else
        let filled = map (\<lambda>src. Some (ms_addr src)) (elems src_list);
            sources = filled @ replicate (length src_list - length filled) None in
        setsourcefilter os s ifindex mca filter_mode sources c)"

section \<open>kernel_routing.c\<close>

text \<open>
  \<^verbatim>\<open>mrouter_init\<close>: \<open>mrouter_s6\<close> is the new raw socket, \<open>ret\<close> the result of \<^verbatim>\<open>MRT6_INIT\<close>. When that fails the
  list header is freed and \<^verbatim>\<open>routes\<close> keeps pointing at it; any use of it is as bad as of \<^verbatim>\<open>NULL\<close>, so
  it is \<open>None\<close> here.
\<close>

definition mrouter_init :: "int \<Rightarrow> int \<Rightarrow> conf \<Rightarrow> int \<times> conf" where
  "mrouter_init mrouter_s6 ret c =
     (if ret = -1 then (-1, c\<lparr>c_routes := None\<rparr>) else (mrouter_s6, c\<lparr>c_routes := Some []\<rparr>))"

text \<open>Registering and removing a multicast interface with the kernel.\<close>

definition mrouter6_addmif :: "os \<Rightarrow> int \<Rightarrow> nat \<Rightarrow> ifindex \<Rightarrow> conf \<Rightarrow> int \<times> conf" where
  "mrouter6_addmif os mrouter_s6 mif_index pif_index c =
     (let call = Mif_add mrouter_s6 mif_index pif_index in (os_setsockopt os (c_trace c) call, emit call c))"

definition mrouter6_delmif :: "os \<Rightarrow> int \<Rightarrow> nat \<Rightarrow> conf \<Rightarrow> int \<times> conf" where
  "mrouter6_delmif os mrouter_s6 mif_index c =
     (let call = Mif_del mrouter_s6 mif_index in (os_setsockopt os (c_trace c) call, emit call c))"

text \<open>Whether an interface that has joined the group wants a source; \<^verbatim>\<open>now\<close> is a \<^verbatim>\<open>uint32_t\<close>.\<close>

fun check_grpints :: "u32 \<Rightarrow> ifindex \<Rightarrow> in6_addr \<Rightarrow> grpintnode list \<Rightarrow> bool option" where
  "check_grpints now ifindex src [] = None"
| "check_grpints now ifindex src (gi # gis) =
     (if gi_ifindex gi \<noteq> ifindex then check_grpints now ifindex src gis
      else if gi_filter_mode gi = MLD2_MODE_IS_INCLUDE then
        if gi_includes gi \<noteq> [] then
          if src_hasmember (gi_includes gi) src \<noteq> None then Some True
          else check_grpints now ifindex src gis
        else Some False
      else if gi_filter_timer gi \<le> now then Some False
      else if gi_excludes gi \<noteq> [] \<and> src_hasmember (gi_excludes gi) src \<noteq> None then Some False
      else Some True)"

fun check_groups :: "u32 \<Rightarrow> ifindex \<Rightarrow> in6_addr \<Rightarrow> in6_addr \<Rightarrow> groupnode list \<Rightarrow> bool" where
  "check_groups now ifindex src grp [] = False"
| "check_groups now ifindex src grp (g # gs) =
     (if grp \<noteq> g_mca g then check_groups now ifindex src grp gs
      else case check_grpints now ifindex src (g_interfaces g) of
             Some r \<Rightarrow> r | None \<Rightarrow> check_groups now ifindex src grp gs)"

definition check_route :: "ifindex \<Rightarrow> in6_addr \<Rightarrow> in6_addr \<Rightarrow> conf \<Rightarrow> bool" where
  "check_route ifindex src grp c = check_groups (of_int (c_clock c)) ifindex src grp (c_groups c)"

definition save_route :: "int \<Rightarrow> in6_addr \<Rightarrow> in6_addr \<Rightarrow> conf \<Rightarrow> conf res" where
  "save_route vif src dst c = (case c_routes c of None \<Rightarrow> Inl Null_deref
     | Some rs \<Rightarrow> Inr (c\<lparr>c_routes := Some (rs @ [\<lparr>kr_src = src, kr_grp = dst, kr_parent = vif\<rparr>])\<rparr>))"

definition have_route :: "int \<Rightarrow> in6_addr \<Rightarrow> in6_addr \<Rightarrow> conf \<Rightarrow> bool res" where
  "have_route vif src dst c = (case c_routes c of None \<Rightarrow> Inl Null_deref
     | Some rs \<Rightarrow> Inr (\<exists>r \<in> set rs. kr_src r = src \<and> kr_grp r = dst \<and> kr_parent r = vif))"

text \<open>
  The loop of \<^verbatim>\<open>expire_routes\<close>: after a deletion \<^verbatim>\<open>ln\<close> is already the next node, and the increment of
  the loop then steps over that one unchecked. The result is the routes left and the calls made.
\<close>

fun expire_list :: "(kernel_route6 \<Rightarrow> bool) \<Rightarrow> int \<Rightarrow> kernel_route6 list \<Rightarrow> kernel_route6 list \<times> io list" where
  "expire_list wanted fd [] = ([], [])"
| "expire_list wanted fd (r # rs) =
     (if \<not> wanted r then
        (case rs of
           [] \<Rightarrow> ([], [Mfc_del fd (kr_src r) (kr_grp r)])
         | r2 # rs2 \<Rightarrow> let (keep, calls) = expire_list wanted fd rs2 in
                        (r2 # keep, Mfc_del fd (kr_src r) (kr_grp r) # calls))
      else let (keep, calls) = expire_list wanted fd rs in (r # keep, calls))"

definition expire_routes :: "int \<Rightarrow> conf \<Rightarrow> conf res" where
  "expire_routes fd c = (case c_routes c of None \<Rightarrow> Inl Null_deref
     | Some rs \<Rightarrow>
         let (keep, calls) = expire_list (\<lambda>r. check_route (c_downstream_id c) (kr_src r) (kr_grp r) c) fd rs in
         Inr (c\<lparr>c_routes := Some keep, c_trace := c_trace c @ calls\<rparr>))"

text \<open>
  An upcall: \<open>buf\<close> is the 1024-byte buffer as \<^verbatim>\<open>recvmsg\<close> left it, read as a \<^verbatim>\<open>struct mrt6msg\<close> (a zero
  byte, the type, the interface as a machine-order 16-bit value, padding, source, destination).
\<close>

definition mrouter6_handlesocket :: "os \<Rightarrow> int \<Rightarrow> bytes \<Rightarrow> conf \<Rightarrow> conf res" where
  "mrouter6_handlesocket os fd buf c =
     bindR (read_bytes buf 0 40) (\<lambda>m.
       let im6_mif = [m ! 2, m ! 3];
           im6_src = be_word (take 16 (drop 8 m));
           im6_dst = be_word (drop 24 m) in
       if m ! 0 \<noteq> 0 then Inr c
       else if \<not> IN6_IS_ADDR_MULTICAST im6_dst \<or> IN6_IS_ADDR_MC_NODELOCAL im6_dst
               \<or> IN6_IS_ADDR_MC_LINKLOCAL im6_dst then Inr c
       else
         let wanted = (if im6_mif = [0, 0] then check_route (c_downstream_id c) im6_src im6_dst c else False) in
         if wanted then
           let call = Mfc_add fd im6_src im6_dst; res = os_setsockopt os (c_trace c) call; c = emit call c in
           if res = 0 then
             bindR (have_route 0 im6_src im6_dst c) (\<lambda>have.
               if have then Inr c else save_route 0 im6_src im6_dst c)
           else Inr c
         else Inr c)"

section \<open>check_route\<close>

text \<open>
  What a subscription promises: in INCLUDE mode the sources of the include list, in EXCLUDE mode, as
  long as the filter timer runs, all but those of the exclude list.
\<close>

definition grpint_wants :: "u32 \<Rightarrow> in6_addr \<Rightarrow> grpintnode \<Rightarrow> bool" where
  "grpint_wants now src gi \<longleftrightarrow> (if gi_filter_mode gi = MLD2_MODE_IS_INCLUDE then src \<in> addrs (gi_includes gi)
     else now < gi_filter_timer gi \<and> src \<notin> addrs (gi_excludes gi))"

definition route_wanted :: "ifindex \<Rightarrow> in6_addr \<Rightarrow> in6_addr \<Rightarrow> conf \<Rightarrow> bool" where
  "route_wanted ifindex src grp c \<longleftrightarrow> (\<exists>g \<in> set (c_groups c). g_mca g = grp
     \<and> (\<exists>gi \<in> set (g_interfaces g). gi_ifindex gi = ifindex \<and> grpint_wants (of_int (c_clock c)) src gi))"

lemma check_grpints_other: "ifindex \<notin> gi_ifindex ` set gis \<Longrightarrow> check_grpints now ifindex src gis = None"
  by (induction gis) auto

lemma check_grpints_wants:
  assumes "distinct (map gi_ifindex gis)"
  shows "(case check_grpints now ifindex src gis of Some r \<Rightarrow> r | None \<Rightarrow> False)
     \<longleftrightarrow> (\<exists>gi \<in> set gis. gi_ifindex gi = ifindex \<and> grpint_wants now src gi)"
  using assms
proof (induction gis)
  case (Cons gi gis)
  show ?case
  proof (cases "gi_ifindex gi = ifindex")
    case True
    then have o: "ifindex \<notin> gi_ifindex ` set gis" using Cons.prems by auto
    have "(case check_grpints now ifindex src (gi # gis) of Some r \<Rightarrow> r | None \<Rightarrow> False) \<longleftrightarrow> grpint_wants now src gi"
      using True by (auto simp: grpint_wants_def check_grpints_other [OF o] not_le)
    moreover have "(\<exists>x \<in> set gis. gi_ifindex x = ifindex \<and> grpint_wants now src x) = False" using o by auto
    moreover have "(\<exists>x \<in> set (gi # gis). gi_ifindex x = ifindex \<and> grpint_wants now src x) \<longleftrightarrow> grpint_wants now src gi
        \<or> (\<exists>x \<in> set gis. gi_ifindex x = ifindex \<and> grpint_wants now src x)" using True by auto
    ultimately show ?thesis by blast
  next
    case False
    then show ?thesis using Cons by simp
  qed
qed simp

lemma check_groups_other: "grp \<notin> g_mca ` set gs \<Longrightarrow> check_groups now ifindex src grp gs = False"
  by (induction gs) auto

lemma check_groups_wants:
  assumes "wf_groups gs"
  shows "check_groups now ifindex src grp gs \<longleftrightarrow> (\<exists>g \<in> set gs. g_mca g = grp
     \<and> (\<exists>gi \<in> set (g_interfaces g). gi_ifindex gi = ifindex \<and> grpint_wants now src gi))"
  using assms
proof (induction gs)
  case (Cons g gs)
  have w: "wf_groups gs" "g_mca g \<notin> g_mca ` set gs" "distinct (map gi_ifindex (g_interfaces g))"
    using Cons.prems by (auto simp: wf_groups_def wf_group_def)
  show ?case
  proof (cases "g_mca g = grp")
    case True
    then have o: "check_groups now ifindex src grp gs = False" using w(2) check_groups_other by blast
    have "(\<exists>x \<in> set gs. g_mca x = grp \<and> (\<exists>gi \<in> set (g_interfaces x). gi_ifindex gi = ifindex \<and> grpint_wants now src gi)) = False"
      using True w(2) by (metis image_eqI)
    then show ?thesis using True o check_grpints_wants [OF w(3), of now ifindex src] by (auto split: option.splits)
  next
    case False
    then show ?thesis using Cons.IH [OF w(1)] by simp
  qed
qed simp

lemma check_route_wanted: "wf_conf c \<Longrightarrow> check_route ifindex src grp c = route_wanted ifindex src grp c"
  by (simp add: check_route_def route_wanted_def check_groups_wants wf_conf_def)

text \<open>
  C20. In a well-formed state \<^verbatim>\<open>check_route\<close>, a search with early returns over lists, decides the abstract
  question: some subscription of the interface to the group wants the source.
\<close>

theorem check_route_correct:
  assumes "wf_conf c"
  shows "check_route ifindex src grp c \<longleftrightarrow> route_wanted ifindex src grp c"
  using assms by (rule check_route_wanted)

definition example_group :: groupnode where
  "example_group = \<lparr>g_mca = 0xff0e0001, g_interfaces = [\<lparr>gi_ifindex = 3, gi_includes = [Some (msrc_create 7 0)],
     gi_excludes = [], gi_filter_mode = 1, gi_filter_timer = 0\<rparr>], g_lastforward = 0, g_bytes = 0, g_packets = 0\<rparr>"

theorem check_route_correct_witness:
  "check_route 3 7 0xff0e0001 (example_conf\<lparr>c_groups := [example_group]\<rparr>)
   \<longleftrightarrow> route_wanted 3 7 0xff0e0001 (example_conf\<lparr>c_groups := [example_group]\<rparr>)"
  by (rule check_route_correct)
    (simp add: wf_conf_def wf_groups_def wf_group_def wf_grpint_def wf_ints_def example_group_def example_conf_def)

section \<open>expire_routes\<close>

lemma expire_list_spec:
  assumes "expire_list w fd rs = (keep, calls)"
  shows "\<exists>del. calls = map (\<lambda>r. Mfc_del fd (kr_src r) (kr_grp r)) del \<and> mset keep + mset del = mset rs
     \<and> (\<forall>r \<in> set del. \<not> w r) \<and> filter w keep = filter w rs"
  using assms
proof (induction w fd rs arbitrary: keep calls rule: expire_list.induct)
  case (2 w fd r rs)
  show ?case
  proof (cases "w r")
    case True
    then obtain k where k: "expire_list w fd rs = (k, calls)" "keep = r # k"
      using 2(3) by (cases "expire_list w fd rs") auto
    from 2(2) [OF _ k(1)] True obtain del where
      "calls = map (\<lambda>r. Mfc_del fd (kr_src r) (kr_grp r)) del" "mset k + mset del = mset rs"
      "\<forall>r \<in> set del. \<not> w r" "filter w k = filter w rs" by auto
    with k(2) True show ?thesis by (intro exI [of _ del]) simp
  next
    case False
    show ?thesis
    proof (cases rs)
      case Nil
      then show ?thesis using False 2(3) by (intro exI [of _ "[r]"]) simp
    next
      case (Cons r2 rs2)
      obtain k ca where k: "expire_list w fd rs2 = (k, ca)" by fastforce
      then have kc: "keep = r2 # k" "calls = Mfc_del fd (kr_src r) (kr_grp r) # ca"
        using False 2(3) Cons by auto
      from 2(1) [OF False Cons k] obtain del where
        "ca = map (\<lambda>r. Mfc_del fd (kr_src r) (kr_grp r)) del" "mset k + mset del = mset rs2"
        "\<forall>r \<in> set del. \<not> w r" "filter w k = filter w rs2" by auto
      with kc False Cons show ?thesis by (intro exI [of _ "r # del"]) auto
    qed
  qed
qed simp

lemma expire_list_progress:
  "\<exists>r \<in> set rs. \<not> w r \<Longrightarrow> length (fst (expire_list w fd rs)) < length rs"
proof (induction w fd rs rule: expire_list.induct)
  case (2 w fd r rs)
  show ?case
  proof (cases "w r")
    case False
    show ?thesis
    proof (cases rs)
      case (Cons r2 rs2)
      obtain k ca where k: "expire_list w fd rs2 = (k, ca)" by fastforce
      from expire_list_spec [OF k] obtain del where "mset k + mset del = mset rs2" by auto
      then have "length k \<le> length rs2" by (metis le_add1 size_mset size_union)
      then show ?thesis using False Cons k by simp
    qed (use False in simp)
  next
    case True
    then show ?thesis using 2 by (cases "expire_list w fd rs") auto
  qed
qed simp

lemma expire_list_done: "\<forall>r \<in> set rs. w r \<Longrightarrow> expire_list w fd rs = (rs, [])"
  by (induction rs) auto

lemma expire_routes_some:
  assumes "c_routes c = Some rs"
  shows "expire_routes fd c = Inr (c\<lparr>c_routes := Some (fst (expire_list (\<lambda>r. check_route (c_downstream_id c) (kr_src r) (kr_grp r) c) fd rs)),
    c_trace := c_trace c @ snd (expire_list (\<lambda>r. check_route (c_downstream_id c) (kr_src r) (kr_grp r) c) fd rs)\<rparr>)"
  using assms by (simp add: expire_routes_def split_def Let_def)

text \<open>
  C14. \<^verbatim>\<open>expire_routes\<close> needs the list to exist. It then deletes only routes that no downstream
  subscription wants, asks the kernel to delete exactly those, and keeps every wanted route, in order.
\<close>

theorem expire_routes_correct:
  assumes "wf_conf c"
  shows "case c_routes c of None \<Rightarrow> expire_routes fd c = Inl Null_deref
   | Some rs \<Rightarrow> \<exists>c' keep del. expire_routes fd c = Inr c' \<and> c_routes c' = Some keep
       \<and> c_trace c' = c_trace c @ map (\<lambda>r. Mfc_del fd (kr_src r) (kr_grp r)) del
       \<and> mset keep + mset del = mset rs
       \<and> (\<forall>r \<in> set del. \<not> route_wanted (c_downstream_id c) (kr_src r) (kr_grp r) c)
       \<and> filter (\<lambda>r. route_wanted (c_downstream_id c) (kr_src r) (kr_grp r) c) keep
         = filter (\<lambda>r. route_wanted (c_downstream_id c) (kr_src r) (kr_grp r) c) rs"
proof (cases "c_routes c")
  case None
  then show ?thesis by (simp add: expire_routes_def)
next
  case (Some rs)
  let ?w = "\<lambda>r. check_route (c_downstream_id c) (kr_src r) (kr_grp r) c"
  obtain keep calls where e: "expire_list ?w fd rs = (keep, calls)" by fastforce
  from expire_list_spec [OF this] obtain del where del: "calls = map (\<lambda>r. Mfc_del fd (kr_src r) (kr_grp r)) del"
    "mset keep + mset del = mset rs" "\<forall>r \<in> set del. \<not> ?w r" "filter ?w keep = filter ?w rs" by auto
  let ?c = "c\<lparr>c_routes := Some keep, c_trace := c_trace c @ calls\<rparr>"
  have "expire_routes fd c = Inr ?c" using expire_routes_some [OF Some] e by simp
  moreover have "c_routes ?c = Some keep" "c_trace ?c = c_trace c @ map (\<lambda>r. Mfc_del fd (kr_src r) (kr_grp r)) del"
    using del(1) by simp_all
  ultimately show ?thesis
    using del(2-4) unfolding Some option.case check_route_wanted [OF assms] by blast
qed

theorem expire_routes_correct_witness:
  "case c_routes (example_conf\<lparr>c_routes := Some [\<lparr>kr_src = 1, kr_grp = 2, kr_parent = 0\<rparr>]\<rparr>) of None \<Rightarrow> False
   | Some rs \<Rightarrow> \<exists>c' keep del. expire_routes 5 (example_conf\<lparr>c_routes := Some [\<lparr>kr_src = 1, kr_grp = 2, kr_parent = 0\<rparr>]\<rparr>) = Inr c'
       \<and> c_routes c' = Some keep \<and> mset keep + mset del = mset rs"
proof -
  let ?c = "example_conf\<lparr>c_routes := Some [\<lparr>kr_src = 1, kr_grp = 2, kr_parent = 0\<rparr>]\<rparr>"
  have "wf_conf ?c" using example_conf_wf by (simp add: wf_conf_def)
  from expire_routes_correct [OF this, of 5] show ?thesis by auto
qed

lemma check_route_frame [simp]:
  "check_route i src grp (c\<lparr>c_routes := rs, c_trace := t\<rparr>) = check_route i src grp c"
  by (simp add: check_route_def)

lemma expire_list_unwanted:
  assumes "expire_list w fd rs = (keep, calls)" and "length (filter (\<lambda>r. \<not> w r) rs) \<le> Suc n"
  shows "length (filter (\<lambda>r. \<not> w r) keep) \<le> n" "filter w keep = filter w rs"
proof -
  show f: "filter w keep = filter w rs" using expire_list_spec [OF assms(1)] by blast
  have "length keep = length (filter w keep) + length (filter (\<lambda>r. \<not> w r) keep)"
    "length rs = length (filter w rs) + length (filter (\<lambda>r. \<not> w r) rs)"
    by (simp_all add: sum_length_filter_compl)
  moreover have "length (filter w keep) = length (filter w rs)" using f by simp
  moreover have "length keep < length rs \<or> length (filter (\<lambda>r. \<not> w r) keep) = 0"
  proof (cases "\<exists>r \<in> set rs. \<not> w r")
    case True
    then show ?thesis using expire_list_progress [of rs w fd] assms(1) by simp
  next
    case False
    then have "keep = rs" using expire_list_done [of rs w fd] assms(1) by simp
    with False have "filter (\<lambda>r. \<not> w r) keep = []" by (simp add: filter_empty_conv)
    then show ?thesis by simp
  qed
  ultimately show "length (filter (\<lambda>r. \<not> w r) keep) \<le> n" using assms(2) by linarith
qed

lemma expire_runs:
  assumes "c_routes c = Some rs" and "length (filter (\<lambda>r. \<not> check_route (c_downstream_id c) (kr_src r) (kr_grp r) c) rs) \<le> n"
  shows "\<exists>c'. foldR (\<lambda>_. expire_routes fd) (replicate n ()) c = Inr c'
    \<and> c_routes c' = Some (filter (\<lambda>r. check_route (c_downstream_id c) (kr_src r) (kr_grp r) c) rs)"
  using assms
proof (induction n arbitrary: c rs)
  case 0
  then show ?case by (simp add: filter_empty_conv filter_id_conv)
next
  case (Suc n)
  let ?w = "\<lambda>r. check_route (c_downstream_id c) (kr_src r) (kr_grp r) c"
  obtain keep calls where e: "expire_list ?w fd rs = (keep, calls)" by fastforce
  let ?c = "c\<lparr>c_routes := Some keep, c_trace := c_trace c @ calls\<rparr>"
  have s: "expire_routes fd c = Inr ?c" using expire_routes_some [OF Suc.prems(1)] e by simp
  have u: "length (filter (\<lambda>r. \<not> ?w r) keep) \<le> n" "filter ?w keep = filter ?w rs"
    using expire_list_unwanted [OF e] Suc.prems(2) by simp_all
  obtain c' where "foldR (\<lambda>_. expire_routes fd) (replicate n ()) ?c = Inr c'" "c_routes c' = Some (filter ?w keep)"
    using Suc.IH [of ?c keep] u(1) by auto
  then show ?case using s u(2) by (intro exI [of _ c']) simp
qed

text \<open>
  C36. Repeated on unchanged subscriptions, \<^verbatim>\<open>expire_routes\<close> converges: after as many runs as there are
  routes, exactly the wanted ones are left.
\<close>

theorem expire_routes_converges:
  assumes "wf_conf c" and "c_routes c = Some rs" and "length rs \<le> n"
  shows "\<exists>c'. foldR (\<lambda>_. expire_routes fd) (replicate n ()) c = Inr c'
     \<and> c_routes c' = Some (filter (\<lambda>r. route_wanted (c_downstream_id c) (kr_src r) (kr_grp r) c) rs)"
proof -
  have "length (filter (\<lambda>r. \<not> check_route (c_downstream_id c) (kr_src r) (kr_grp r) c) rs) \<le> n"
    using assms(3) length_filter_le order_trans by blast
  from expire_runs [OF assms(2) this] show ?thesis unfolding check_route_wanted [OF assms(1)] .
qed

definition example_routes :: "kernel_route6 list" where
  "example_routes = [\<lparr>kr_src = 1, kr_grp = 2, kr_parent = 0\<rparr>, \<lparr>kr_src = 3, kr_grp = 2, kr_parent = 0\<rparr>]"

lemma example_routes_wf: "wf_conf (example_conf\<lparr>c_routes := Some example_routes\<rparr>)"
  using example_conf_wf by (simp add: wf_conf_def)

theorem expire_routes_converges_witness:
  "\<exists>c'. foldR (\<lambda>_. expire_routes 5) [(), ()] (example_conf\<lparr>c_routes := Some example_routes\<rparr>) = Inr c' \<and> c_routes c' = Some []"
proof -
  let ?c = "example_conf\<lparr>c_routes := Some example_routes\<rparr>"
  have "filter (\<lambda>r. route_wanted (c_downstream_id ?c) (kr_src r) (kr_grp r) ?c) example_routes = []"
    by (simp add: example_routes_def route_wanted_def example_conf_def)
  moreover have "length example_routes \<le> 2" by (simp add: example_routes_def)
  moreover have "c_routes ?c = Some example_routes" by simp
  ultimately have "\<exists>c'. foldR (\<lambda>_. expire_routes 5) (replicate 2 ()) ?c = Inr c' \<and> c_routes c' = Some []"
    using expire_routes_converges [OF example_routes_wf, of example_routes 2 5] by metis
  then show ?thesis by (simp only: replicate_Suc numeral_2_eq_2 replicate_0)
qed

text \<open>
  One run is not enough: the route behind a deleted one is not looked at, so it survives the run
  even when nothing wants it.
\<close>

lemma expire_routes_skips_next:
  assumes "wf_conf c" and "c_routes c = Some (r # r2 # rs)"
    and "\<not> route_wanted (c_downstream_id c) (kr_src r) (kr_grp r) c"
  shows "\<exists>c' keep. expire_routes fd c = Inr c' \<and> c_routes c' = Some (r2 # keep)"
  using assms(3) expire_routes_some [OF assms(2), of fd]
  by (simp add: check_route_wanted [OF assms(1), symmetric] split_def Let_def)

lemma expire_routes_skips_next_witness:
  "\<exists>c' keep. expire_routes 5 (example_conf\<lparr>c_routes := Some example_routes\<rparr>) = Inr c'
     \<and> c_routes c' = Some (\<lparr>kr_src = 3, kr_grp = 2, kr_parent = 0\<rparr> # keep)"
  by (rule expire_routes_skips_next [OF example_routes_wf, where r = "\<lparr>kr_src = 1, kr_grp = 2, kr_parent = 0\<rparr>" and rs = "[]"])
    (simp_all add: example_routes_def route_wanted_def example_conf_def)

section \<open>Upcalls\<close>

definition upcall_src :: "bytes \<Rightarrow> in6_addr" where
  "upcall_src buf = be_word (take 16 (drop 8 buf))"

definition upcall_dst :: "bytes \<Rightarrow> in6_addr" where
  "upcall_dst buf = be_word (take 16 (drop 24 buf))"

definition routable :: "in6_addr \<Rightarrow> bool" where
  "routable a \<longleftrightarrow> IN6_IS_ADDR_MULTICAST a \<and> \<not> IN6_IS_ADDR_MC_NODELOCAL a \<and> \<not> IN6_IS_ADDR_MC_LINKLOCAL a"

definition upcall_accepted :: "bytes \<Rightarrow> conf \<Rightarrow> bool" where
  "upcall_accepted buf c \<longleftrightarrow> buf ! 0 = 0 \<and> routable (upcall_dst buf) \<and> buf ! 2 = 0 \<and> buf ! 3 = 0
     \<and> route_wanted (c_downstream_id c) (upcall_src buf) (upcall_dst buf) c"

lemma handlesocket_fields:
  assumes "40 \<le> length buf"
  shows "take 40 buf ! 0 = buf ! 0" "take 40 buf ! 2 = buf ! 2" "take 40 buf ! 3 = buf ! 3"
    "be_word (take 16 (drop 8 (take 40 buf))) = upcall_src buf" "be_word (drop 24 (take 40 buf)) = upcall_dst buf"
  using assms by (simp_all add: upcall_src_def upcall_dst_def drop_take)

lemma have_route_iff:
  assumes "c_routes c = Some rs"
  shows "have_route vif src dst c = Inr (\<lparr>kr_src = src, kr_grp = dst, kr_parent = vif\<rparr> \<in> set rs)"
proof -
  have "(kr_src r = src \<and> kr_grp r = dst \<and> kr_parent r = vif) \<longleftrightarrow> r = \<lparr>kr_src = src, kr_grp = dst, kr_parent = vif\<rparr>" for r :: kernel_route6
    by (cases r) auto
  then have "(\<exists>r \<in> set rs. kr_src r = src \<and> kr_grp r = dst \<and> kr_parent r = vif) \<longleftrightarrow> \<lparr>kr_src = src, kr_grp = dst, kr_parent = vif\<rparr> \<in> set rs"
    by simp
  then show ?thesis using assms by (simp add: have_route_def)
qed

lemma handlesocket_unfold:
  assumes "wf_conf c" and "40 \<le> length buf"
  shows "mrouter6_handlesocket os fd buf c =
    (if upcall_accepted buf c then
       let call = Mfc_add fd (upcall_src buf) (upcall_dst buf); c' = emit call c in
       if os_setsockopt os (c_trace c) call = 0 then
         bindR (have_route 0 (upcall_src buf) (upcall_dst buf) c') (\<lambda>have.
           if have then Inr c' else save_route 0 (upcall_src buf) (upcall_dst buf) c')
       else Inr c'
     else Inr c)"
proof -
  have r: "read_bytes buf 0 40 = Inr (take 40 buf)" using assms(2) by simp
  show ?thesis
    unfolding mrouter6_handlesocket_def r bindR_simps Let_def handlesocket_fields [OF assms(2)] check_route_wanted [OF assms(1)]
    by (simp add: upcall_accepted_def routable_def)
qed

text \<open>
  C16. An upcall is acted on exactly when it reports a routable multicast packet on the upstream
  interface that some downstream subscription wants; then the kernel is asked for the route once,
  and if it agrees the route is recorded, never twice. Nothing else changes the routes.
\<close>

theorem mrouter6_handlesocket_correct:
  assumes "wf_conf c" and "40 \<le> length buf" and "c_routes c = Some rs" and "distinct rs"
  shows "\<exists>c' rs'. mrouter6_handlesocket os fd buf c = Inr c' \<and> wf_conf c' \<and> c_routes c' = Some rs' \<and> distinct rs'
     \<and> (if upcall_accepted buf c
        then c_trace c' = c_trace c @ [Mfc_add fd (upcall_src buf) (upcall_dst buf)]
           \<and> set rs' = set rs \<union> (if os_setsockopt os (c_trace c) (Mfc_add fd (upcall_src buf) (upcall_dst buf)) = 0
               then {\<lparr>kr_src = upcall_src buf, kr_grp = upcall_dst buf, kr_parent = 0\<rparr>} else {})
        else c' = c)"
proof -
  let ?r = "\<lparr>kr_src = upcall_src buf, kr_grp = upcall_dst buf, kr_parent = 0\<rparr>"
  let ?call = "Mfc_add fd (upcall_src buf) (upcall_dst buf)"
  let ?d = "emit ?call c"
  have h: "have_route 0 (upcall_src buf) (upcall_dst buf) ?d = Inr (?r \<in> set rs)" using assms(3) by (intro have_route_iff) simp
  have s: "save_route 0 (upcall_src buf) (upcall_dst buf) ?d = Inr (?d\<lparr>c_routes := Some (rs @ [?r])\<rparr>)"
    using assms(3) by (simp add: save_route_def)
  have w: "wf_conf ?d" "wf_conf (?d\<lparr>c_routes := Some (rs @ [?r])\<rparr>)" using assms(1) by (simp_all add: wf_conf_def)
  note u = handlesocket_unfold [OF assms(1,2), of os fd]
  consider "\<not> upcall_accepted buf c" | "upcall_accepted buf c" "os_setsockopt os (c_trace c) ?call \<noteq> 0"
    | "upcall_accepted buf c" "os_setsockopt os (c_trace c) ?call = 0" "?r \<in> set rs"
    | "upcall_accepted buf c" "os_setsockopt os (c_trace c) ?call = 0" "?r \<notin> set rs" by blast
  then show ?thesis
  proof cases
    case 1
    then show ?thesis unfolding u using assms by simp
  next
    case 2
    then show ?thesis unfolding u using assms w by simp
  next
    case 3
    then show ?thesis unfolding u Let_def h using assms w by (simp add: insert_absorb)
  next
    case 4
    then show ?thesis unfolding u Let_def h s using assms w by simp
  qed
qed

theorem mrouter6_handlesocket_correct_witness:
  "\<exists>c' rs'. mrouter6_handlesocket example_os 5 (replicate 40 0) (example_conf\<lparr>c_routes := Some example_routes\<rparr>) = Inr c'
     \<and> c_routes c' = Some rs' \<and> distinct rs'"
  using mrouter6_handlesocket_correct [OF example_routes_wf, of "replicate 40 0" example_routes example_os 5]
  by (auto simp: example_routes_def)

section \<open>Frames\<close>

lemma expire_routes_frame:
  assumes "expire_routes fd c = Inr c'"
  shows "c_groups c' = c_groups c" "c_ints c' = c_ints c" "c_clock c' = c_clock c"
    "c_downstream_id c' = c_downstream_id c" "\<exists>rs. c_routes c' = Some rs"
  using assms by (auto simp: expire_routes_def split_def Let_def split: option.splits)

lemma expire_routes_wf: "expire_routes fd c = Inr c' \<Longrightarrow> wf_conf c \<Longrightarrow> wf_conf c'"
  using expire_routes_frame [of fd c c'] by (simp add: wf_conf_def)

end
