(* ===== verification/Mld2_logic.thy ===== *)
theory Mld2_logic
  imports Kernel_routing
begin

text \<open>
  The router side of MLDv2, \<^verbatim>\<open>src/mld2_logic.c\<close>: what a report does to the state of a group on an
  interface, the subscription of the upstream interface, and the expiry of sources. A
  \<^verbatim>\<open>struct groupnode *\<close> is a position \<open>g\<close> in the groups and a \<^verbatim>\<open>struct grpintnode *\<close> a position \<open>j\<close> in the
  interfaces of \<open>g\<close>; a loop that may delete the node it stands on counts the nodes it has left to visit.
\<close>

section \<open>Timers\<close>

text \<open>A time is cut to 32 bits on the way into a timer.\<close>

definition timer_of :: "time_t \<Rightarrow> u32" where
  "timer_of t = of_int t"

definition set_source_timers :: "srclist \<Rightarrow> srclist option \<Rightarrow> u32 \<Rightarrow> srclist" where
  "set_source_timers sources which_list timer_value =
     map (map_option (\<lambda>source.
       if (case which_list of None \<Rightarrow> False | Some w \<Rightarrow> list_hasmember (Some msrc_cmp) w source = None) then source
       else source\<lparr>ms_timer := uint timer_value\<rparr>)) sources"

section \<open>Reports from downstream\<close>

text \<open>
  The two halves of \<^verbatim>\<open>handle_downstream_subscription\<close>: the node is in INCLUDE or in EXCLUDE mode.
\<close>

definition downstream_include :: "os \<Rightarrow> nat \<Rightarrow> mrec \<Rightarrow> nat \<Rightarrow> nat \<Rightarrow> conf \<Rightarrow> conf res" where
  "downstream_include os i mrec g j c =
     (let mode = mr_filter_mode mrec; B = mr_source_list mrec; A = gi_includes (grpint_at c g j);
          now = c_clock c in
      if mode = 1 \<or> mode = 5 \<or> mode = 3 then
        let tmp = set_source_timers (src_union A B) (Some B) (timer_of (now + MALI)) in
        bindR (if mode = 3 then
                 let AminusB = src_difference A B in
                 bindR (mld_send_mquery os i (mr_mca mrec) AminusB False c) (\<lambda>c.
                   Inr (set_source_timers tmp (Some AminusB) (timer_of (now + LLQI)), c))
               else Inr (tmp, c)) (\<lambda>(tmp, c).
          Inr (upd_grpint g j (\<lambda>gi. gi\<lparr>gi_includes := tmp\<rparr>) c))
      else if mode = 2 \<or> mode = 4 then
        let AjoinB = src_intersect A B; BminusA = src_difference B A; AminusB = src_difference A B;
            c = upd_grpint g j (\<lambda>gi. gi\<lparr>
                  gi_includes := set_source_timers (src_difference AjoinB AminusB) (Some BminusA) 0,
                  gi_excludes := src_difference BminusA AminusB,
                  gi_filter_timer := timer_of (now + MALI)\<rparr>) c in
        bindR (if mode = 4 then
                 bindR (mld_send_mquery os i (mr_mca mrec) AjoinB False c) (\<lambda>c.
                   Inr (upd_grpint g j (\<lambda>gi. gi\<lparr>gi_includes :=
                     set_source_timers (gi_includes gi) (Some AjoinB) (timer_of (now + LLQI))\<rparr>) c))
               else Inr c) (\<lambda>c.
          Inr (upd_grpint g j (\<lambda>gi. gi\<lparr>gi_filter_mode := MLD2_MODE_IS_EXCLUDE\<rparr>) c))
      else if mode = 6 then
        let AintersectB = src_intersect A B in
        bindR (mld_send_mquery os i (mr_mca mrec) AintersectB False c) (\<lambda>c.
          Inr (upd_grpint g j (\<lambda>gi. gi\<lparr>gi_includes :=
            set_source_timers (gi_includes gi) (Some AintersectB) (timer_of (now + LLQI))\<rparr>) c))
      else Inr c)"

definition downstream_exclude :: "os \<Rightarrow> nat \<Rightarrow> mrec \<Rightarrow> nat \<Rightarrow> nat \<Rightarrow> conf \<Rightarrow> conf res" where
  "downstream_exclude os i mrec g j c =
     (let mode = mr_filter_mode mrec; A = mr_source_list mrec;
          X = gi_includes (grpint_at c g j); Y = gi_excludes (grpint_at c g j); now = c_clock c in
      if mode = 1 \<or> mode = 5 \<or> mode = 3 then
        let XplusA = src_union X A; YminusA = src_intersect Y A;
            XplusA = set_source_timers XplusA None (timer_of (now + MALI)) in
        bindR (if mode = 3 then
                 let XminusA = src_difference X A in
                 bindR (mld_send_mquery os i (mr_mca mrec) XminusA False c) (\<lambda>c.
                 let XplusA = set_source_timers XplusA (Some XminusA) (timer_of (now + LLQI)) in
                 bindR (mld_send_query os i (mr_mca mrec) None False c) (\<lambda>c.
                   Inr (XplusA, upd_grpint g j (\<lambda>gi. gi\<lparr>gi_filter_timer := timer_of (now + LLQI)\<rparr>) c)))
               else Inr (XplusA, c)) (\<lambda>(XplusA, c).
          Inr (upd_grpint g j (\<lambda>gi. gi\<lparr>gi_includes := XplusA, gi_excludes := YminusA\<rparr>) c))
      else if mode = 2 \<or> mode = 4 then
        let AminusY = src_difference A Y; AminXminY = src_difference AminusY X;
            XminusA = src_difference X A; X = src_remove_all X XminusA; Y = src_remove_all Y XminusA;
            YminusA = src_difference Y A; X = src_remove_all X YminusA; Y = src_remove_all Y YminusA;
            filter_timer = gi_filter_timer (grpint_at c g j);
            timer = (if mode = 2 then timer_of (now + MALI) else filter_timer);
            c = upd_grpint g j (\<lambda>gi. gi\<lparr>gi_includes := set_source_timers X (Some AminXminY) timer,
                                        gi_excludes := set_source_timers Y (Some AminXminY) timer\<rparr>) c in
        bindR (if mode = 4 then
                 bindR (mld_send_mquery os i (mr_mca mrec) AminusY False c) (\<lambda>c.
                   Inr (upd_grpint g j (\<lambda>gi. gi\<lparr>
                     gi_includes := set_source_timers (gi_includes gi) (Some AminusY) (timer_of (now + LLQI)),
                     gi_excludes := set_source_timers (gi_excludes gi) (Some AminusY) (timer_of (now + LLQI))\<rparr>) c))
               else Inr c) (\<lambda>c.
          Inr (upd_grpint g j (\<lambda>gi. gi\<lparr>gi_filter_timer := timer_of (now + MALI)\<rparr>) c))
      else if mode = 6 then
        let AminusY = src_difference A Y; AminXminY = src_difference AminusY X;
            X = set_source_timers (src_add_all X AminusY) (Some AminXminY) (gi_filter_timer (grpint_at c g j)) in
        bindR (mld_send_mquery os i (mr_mca mrec) AminusY False c) (\<lambda>c.
          Inr (upd_grpint g j (\<lambda>gi. gi\<lparr>
            gi_includes := set_source_timers X (Some AminusY) (timer_of (now + LLQI)),
            gi_excludes := set_source_timers (gi_excludes gi) (Some AminusY) (timer_of (now + LLQI))\<rparr>) c))
      else Inr c)"

definition handle_downstream_subscription :: "os \<Rightarrow> nat \<Rightarrow> mrec \<Rightarrow> conf \<Rightarrow> conf res" where
  "handle_downstream_subscription os i mrec c =
     (let ((g, j), isnew, c) = groupint_get os (mr_mca mrec) i c;
          mode = gi_filter_mode (grpint_at c g j) in
      if mode = MLD2_MODE_IS_INCLUDE then downstream_include os i mrec g j c
      else if mode = MLD2_MODE_IS_EXCLUDE then downstream_exclude os i mrec g j c
      else Inr c)"

section \<open>The subscription upstream\<close>

text \<open>The subscriptions in the order the loops visit them.\<close>

definition subscriptions :: "conf \<Rightarrow> (in6_addr \<times> grpintnode) list" where
  "subscriptions c = concat (map (\<lambda>g. map (Pair (g_mca g)) (g_interfaces g)) (c_groups c))"

definition upstream_join :: "os \<Rightarrow> nat \<Rightarrow> in6_addr \<times> grpintnode \<Rightarrow> int \<times> conf \<Rightarrow> int \<times> conf" where
  "upstream_join os i sub st =
     (let (mca, gi) = sub; (upstream_socket, c) = st in
      if gi_ifindex gi \<noteq> in_ifindex (int_at c i) then st
      else
        let sources = (if gi_filter_mode gi = MLD2_MODE_IS_INCLUDE then gi_includes gi else gi_excludes gi) in
        if sources = [] \<and> gi_filter_mode gi = MLD2_MODE_IS_INCLUDE then st
        else
          let (upstream_socket, c) =
                (if upstream_socket = 0
                 then let s = mcast_socket_create6 os c in (s, upd_int i (\<lambda>n. n\<lparr>in_upstream_socket := s\<rparr>) c)
                 else (upstream_socket, c));
              (_, c) = mcast_join_group os upstream_socket (c_upstream_id c) mca c;
              (_, c) = mcast_set_filter os upstream_socket (c_upstream_id c) mca (gi_filter_mode gi) sources c in
          (upstream_socket, c))"

definition handle_upstream_subscription :: "os \<Rightarrow> nat option \<Rightarrow> conf \<Rightarrow> conf res" where
  "handle_upstream_subscription os intn c =
     (case intn of None \<Rightarrow> Inl Null_deref
      | Some i \<Rightarrow>
          let old_upstream_socket = in_upstream_socket (int_at c i);
              c = upd_int i (\<lambda>n. n\<lparr>in_upstream_socket := 0\<rparr>) c;
              (_, c) = foldl (\<lambda>st sub. upstream_join os i sub st) (0, c) (subscriptions c);
              c = (if old_upstream_socket \<noteq> 0 then emit (Close old_upstream_socket) c else c) in
          expire_routes (c_mr6_fd c) c)"

section \<open>Expiry\<close>

text \<open>0: only the interface was removed; 1: the group too.\<close>

definition remove_grpintn :: "nat \<Rightarrow> nat \<Rightarrow> conf \<Rightarrow> nat \<times> conf" where
  "remove_grpintn g j c =
     (let c = upd_group g (\<lambda>gr. gr\<lparr>g_interfaces := remove_nth j (g_interfaces gr)\<rparr>) c in
      if g_interfaces (c_groups c ! g) = [] then (1, c\<lparr>c_groups := remove_nth g (c_groups c)\<rparr>)
      else (0, c))"

definition expire_source :: "os \<Rightarrow> nat \<Rightarrow> nat \<Rightarrow> nat \<Rightarrow> msrc \<Rightarrow> time_t \<Rightarrow> conf \<Rightarrow> (nat \<times> conf) res" where
  "expire_source os g j k src now c =
     (if ms_timer src \<le> now then
        let c = upd_grpint g j (\<lambda>gi. gi\<lparr>gi_includes := remove_nth k (gi_includes gi)\<rparr>) c in
        if gi_includes (grpint_at c g j) = [] then
          let ifindex = gi_ifindex (grpint_at c g j); (lastgroup, c) = remove_grpintn g j c in
          bindR (handle_upstream_subscription os (int_find ifindex c) c) (\<lambda>c. Inr (lastgroup + 1, c))
        else Inr (0, c)
      else Inr (0, c))"

definition mld2_switch_to_include :: "os \<Rightarrow> nat \<Rightarrow> nat \<Rightarrow> conf \<Rightarrow> (nat \<times> conf) res" where
  "mld2_switch_to_include os g j c =
     (let c = upd_grpint g j (\<lambda>gi. gi\<lparr>gi_filter_mode := MLD2_MODE_IS_INCLUDE\<rparr>) c in
      bindR (handle_upstream_subscription os (int_find (gi_ifindex (grpint_at c g j)) c) c) (\<lambda>c.
        if gi_includes (grpint_at c g j) = [] then Inr (remove_grpintn g j c) else Inr (0, c)))"

text \<open>
  The loops of \<^verbatim>\<open>expire_sources\<close>. Each works on copies of the nodes it visits, so deleting the node
  it stands on is safe; the first argument counts the nodes not visited yet, the position stays
  where it is when the node at it is gone.
\<close>

primrec expire_includes :: "nat \<Rightarrow> os \<Rightarrow> nat \<Rightarrow> nat \<Rightarrow> nat \<Rightarrow> time_t \<Rightarrow> conf \<Rightarrow> (nat \<times> conf) res" where
  "expire_includes 0 os g j k now c = Inr (0, c)"
| "expire_includes (Suc n) os g j k now c =
     (case gi_includes (grpint_at c g j) ! k of
        None \<Rightarrow> expire_includes n os g j (Suc k) now c
      | Some src \<Rightarrow>
          bindR (expire_source os g j k src now c) (\<lambda>(removed, c).
            if removed \<noteq> 0 then Inr (removed, c)
            else expire_includes n os g j (if ms_timer src \<le> now then k else Suc k) now c))"

primrec expire_interfaces :: "nat \<Rightarrow> os \<Rightarrow> nat \<Rightarrow> nat \<Rightarrow> time_t \<Rightarrow> conf \<Rightarrow> (bool \<times> conf) res" where
  "expire_interfaces 0 os g j now c = Inr (False, c)"
| "expire_interfaces (Suc n) os g j now c =
     (let gi = grpint_at c g j in
      if gi_filter_mode gi = MLD2_MODE_IS_INCLUDE then
        bindR (expire_includes (length (gi_includes gi)) os g j 0 now c) (\<lambda>(removed, c).
          if removed = 2 then Inr (True, c)
          else expire_interfaces n os g (if removed = 1 then j else Suc j) now c)
      else if uint (gi_filter_timer gi) \<le> now then
        bindR (mld2_switch_to_include os g j c) (\<lambda>(lastgroup, c).
          if lastgroup \<noteq> 0 then Inr (True, c)
          else expire_interfaces n os g (if gi_includes gi = [] then j else Suc j) now c)
      else expire_interfaces n os g (Suc j) now c)"

primrec expire_groups :: "nat \<Rightarrow> os \<Rightarrow> nat \<Rightarrow> time_t \<Rightarrow> conf \<Rightarrow> conf res" where
  "expire_groups 0 os g now c = Inr c"
| "expire_groups (Suc n) os g now c =
     bindR (expire_interfaces (length (g_interfaces (c_groups c ! g))) os g 0 now c) (\<lambda>(gone, c).
       expire_groups n os (if gone then g else Suc g) now c)"

definition expire_sources :: "os \<Rightarrow> conf \<Rightarrow> conf res" where
  "expire_sources os c = expire_groups (length (c_groups c)) os 0 (c_clock c) c"

section \<open>The state of one subscription\<close>

text \<open>
  \<open>grpint_becomes g j v c c'\<close>: of the subscription state only the node at \<open>(g, j)\<close> differs, and it is
  \<open>v\<close> now; interfaces are at most destroyed, routes, clock and roles stay.
\<close>

abbreviation valid_grpint :: "conf \<Rightarrow> nat \<Rightarrow> nat \<Rightarrow> bool" where
  "valid_grpint c g j \<equiv> g < length (c_groups c) \<and> j < length (g_interfaces (c_groups c ! g))"

definition grpint_becomes :: "nat \<Rightarrow> nat \<Rightarrow> grpintnode \<Rightarrow> conf \<Rightarrow> conf \<Rightarrow> bool" where
  "grpint_becomes g j v c c' \<longleftrightarrow> c_groups c' = c_groups (upd_grpint g j (\<lambda>_. v) c) \<and> ints_kept c c'
     \<and> c_routes c' = c_routes c \<and> c_clock c' = c_clock c \<and> c_downstream_id c' = c_downstream_id c"

lemma upd_grpint_groups: "c_groups (upd_grpint g j f c) = (c_groups c)[g := (c_groups c ! g)
    \<lparr>g_interfaces := (g_interfaces (c_groups c ! g))[j := f (grpint_at c g j)]\<rparr>]"
  by (simp add: upd_grpint_def upd_group_def)

lemma grpint_becomes_refl: "valid_grpint c g j \<Longrightarrow> grpint_becomes g j (grpint_at c g j) c c"
  by (simp add: grpint_becomes_def upd_grpint_groups)

lemma grpint_becomes_at: "grpint_becomes g j v c c' \<Longrightarrow> valid_grpint c g j \<Longrightarrow> grpint_at c' g j = v"
  by (simp add: grpint_becomes_def upd_grpint_groups)

lemma grpint_becomes_quiet: "grpint_becomes g j v c c1 \<Longrightarrow> quiet c1 c2 \<Longrightarrow> grpint_becomes g j v c c2"
  unfolding grpint_becomes_def quiet_def using ints_kept_trans by metis

lemma ints_kept_upd_grpint [simp]: "ints_kept c (upd_grpint g j f c') \<longleftrightarrow> ints_kept c c'"
  by (simp add: ints_kept_def)

lemma grpint_becomes_upd:
  assumes "grpint_becomes g j v c c1" and "valid_grpint c g j"
  shows "grpint_becomes g j (f v) c (upd_grpint g j f c1)"
  using assms grpint_becomes_at [OF assms]
  by (simp add: grpint_becomes_def upd_grpint_groups)

lemma grpint_becomes_wf:
  assumes "grpint_becomes g j v c c'" and "wf_conf c" and "valid_grpint c g j"
    and "gi_ifindex v = gi_ifindex (grpint_at c g j)" and "wf_grpint v"
  shows "wf_conf c'"
proof -
  have "wf_groups (c_groups (upd_grpint g j (\<lambda>_. v) c))"
    using assms by (intro wf_groups_upd_grpint) (simp_all add: wf_conf_def)
  moreover have "wf_ints (c_ints c')"
    using assms(1,2) wf_ints_kept [of c c'] by (simp add: grpint_becomes_def wf_conf_def)
  ultimately show ?thesis using assms(1) by (simp add: grpint_becomes_def wf_conf_def)
qed

text \<open>Queries leave the nodes as they are.\<close>

lemma mquery_becomes:
  "\<exists>c2. mld_send_mquery os i mca l False c1 = Inr c2 \<and> (\<forall>v. grpint_becomes g j v c c1 \<longrightarrow> grpint_becomes g j v c c2)"
  using mld_send_mquery_ok grpint_becomes_quiet by metis

lemma query_becomes:
  "\<exists>c2. mld_send_query os i mca None False c1 = Inr c2 \<and> (\<forall>v. grpint_becomes g j v c c1 \<longrightarrow> grpint_becomes g j v c c2)"
  using mld_send_query_ok grpint_becomes_quiet by metis

section \<open>What a report does to a node\<close>

definition include_next :: "mrec \<Rightarrow> time_t \<Rightarrow> grpintnode \<Rightarrow> grpintnode" where
  "include_next mrec now gi =
     (let mode = mr_filter_mode mrec; B = mr_source_list mrec; A = gi_includes gi;
          tmp = set_source_timers (src_union A B) (Some B) (timer_of (now + MALI));
          excl = gi\<lparr>gi_includes := set_source_timers (src_difference (src_intersect A B) (src_difference A B)) (Some (src_difference B A)) 0,
            gi_excludes := src_difference (src_difference B A) (src_difference A B), gi_filter_timer := timer_of (now + MALI)\<rparr> in
      if mode = 1 \<or> mode = 5 then gi\<lparr>gi_includes := tmp\<rparr>
      else if mode = 3 then gi\<lparr>gi_includes := set_source_timers tmp (Some (src_difference A B)) (timer_of (now + LLQI))\<rparr>
      else if mode = 2 then excl\<lparr>gi_filter_mode := 2\<rparr>
      else if mode = 4 then excl\<lparr>gi_includes := set_source_timers (gi_includes excl) (Some (src_intersect A B)) (timer_of (now + LLQI)),
          gi_filter_mode := 2\<rparr>
      else if mode = 6 then gi\<lparr>gi_includes := set_source_timers A (Some (src_intersect A B)) (timer_of (now + LLQI))\<rparr>
      else gi)"

lemma downstream_include_quiet:
  assumes "valid_grpint c g j" and "mr_filter_mode mrec = 1 \<or> mr_filter_mode mrec = 5 \<or> mr_filter_mode mrec = 2 \<or> mr_filter_mode mrec \<notin> {1..6}"
  shows "\<exists>c'. downstream_include os i mrec g j c = Inr c'
     \<and> grpint_becomes g j (include_next mrec (c_clock c) (grpint_at c g j)) c c'"
proof -
  note b0 = grpint_becomes_refl [OF assms(1)]
  note up = grpint_becomes_upd [OF _ assms(1)]
  let ?gi = "grpint_at c g j" and ?m = "mr_filter_mode mrec" and ?B = "mr_source_list mrec" and ?now = "c_clock c"
  let ?A = "gi_includes ?gi"
  consider "?m = 1 \<or> ?m = 5" | "?m = 2" | "?m \<notin> {1..6}" using assms(2) by blast
  then show ?thesis
  proof cases
    case 1
    then show ?thesis
      using up [OF b0, of "\<lambda>gi. gi\<lparr>gi_includes := set_source_timers (src_union ?A ?B) (Some ?B) (timer_of (?now + MALI))\<rparr>"]
      by (auto simp: downstream_include_def include_next_def Let_def)
  next
    case 2
    show ?thesis
      using 2 up [OF up [OF b0, of "\<lambda>gi. gi\<lparr>gi_includes := set_source_timers (src_difference (src_intersect ?A ?B) (src_difference ?A ?B))
            (Some (src_difference ?B ?A)) 0, gi_excludes := src_difference (src_difference ?B ?A) (src_difference ?A ?B),
            gi_filter_timer := timer_of (?now + MALI)\<rparr>"], of "\<lambda>gi. gi\<lparr>gi_filter_mode := 2\<rparr>"]
      by (simp add: downstream_include_def include_next_def Let_def)
  next
    case 3
    then show ?thesis using b0 by (auto simp: downstream_include_def include_next_def Let_def)
  qed
qed

lemma downstream_include_queries:
  assumes "valid_grpint c g j" and "mr_filter_mode mrec = 3 \<or> mr_filter_mode mrec = 4 \<or> mr_filter_mode mrec = 6"
  shows "\<exists>c'. downstream_include os i mrec g j c = Inr c'
     \<and> grpint_becomes g j (include_next mrec (c_clock c) (grpint_at c g j)) c c'"
proof -
  note b0 = grpint_becomes_refl [OF assms(1)]
  note up = grpint_becomes_upd [OF _ assms(1)]
  note q = mquery_becomes
  let ?gi = "grpint_at c g j" and ?m = "mr_filter_mode mrec" and ?B = "mr_source_list mrec" and ?now = "c_clock c"
  let ?A = "gi_includes ?gi"
  consider "?m = 3" | "?m = 4" | "?m = 6" using assms(2) by blast
  then show ?thesis
  proof cases
    case 1
    obtain c2 where c2: "mld_send_mquery os i (mr_mca mrec) (src_difference ?A ?B) False c = Inr c2"
      "grpint_becomes g j ?gi c c2" using q b0 by blast
    show ?thesis
      using 1 c2(1) up [OF c2(2), of "\<lambda>gi. gi\<lparr>gi_includes := set_source_timers (set_source_timers (src_union ?A ?B) (Some ?B)
        (timer_of (?now + MALI))) (Some (src_difference ?A ?B)) (timer_of (?now + LLQI))\<rparr>"]
      by (simp add: downstream_include_def include_next_def Let_def)
  next
    case 2
    let ?f = "\<lambda>gi. gi\<lparr>gi_includes := set_source_timers (src_difference (src_intersect ?A ?B) (src_difference ?A ?B))
            (Some (src_difference ?B ?A)) 0, gi_excludes := src_difference (src_difference ?B ?A) (src_difference ?A ?B),
            gi_filter_timer := timer_of (?now + MALI)\<rparr>"
    obtain c2 where c2: "mld_send_mquery os i (mr_mca mrec) (src_intersect ?A ?B) False (upd_grpint g j ?f c) = Inr c2"
      "grpint_becomes g j (?f ?gi) c c2" using q up [OF b0, of ?f] by blast
    show ?thesis
      using 2 c2(1) up [OF up [OF c2(2), of "\<lambda>gi. gi\<lparr>gi_includes := set_source_timers (gi_includes gi) (Some (src_intersect ?A ?B))
            (timer_of (?now + LLQI))\<rparr>"], of "\<lambda>gi. gi\<lparr>gi_filter_mode := 2\<rparr>"]
      by (simp add: downstream_include_def include_next_def Let_def)
  next
    case 3
    obtain c2 where c2: "mld_send_mquery os i (mr_mca mrec) (src_intersect ?A ?B) False c = Inr c2"
      "grpint_becomes g j ?gi c c2" using q b0 by blast
    show ?thesis
      using 3 c2(1) up [OF c2(2), of "\<lambda>gi. gi\<lparr>gi_includes := set_source_timers (gi_includes gi) (Some (src_intersect ?A ?B))
            (timer_of (?now + LLQI))\<rparr>"]
      by (simp add: downstream_include_def include_next_def Let_def)
  qed
qed

lemma downstream_include_next:
  assumes "valid_grpint c g j"
  shows "\<exists>c'. downstream_include os i mrec g j c = Inr c'
     \<and> grpint_becomes g j (include_next mrec (c_clock c) (grpint_at c g j)) c c'"
proof -
  consider "mr_filter_mode mrec = 1 \<or> mr_filter_mode mrec = 5 \<or> mr_filter_mode mrec = 2 \<or> mr_filter_mode mrec \<notin> {1..6}" | "mr_filter_mode mrec = 3 \<or> mr_filter_mode mrec = 4 \<or> mr_filter_mode mrec = 6" by fastforce
  then show ?thesis using downstream_include_quiet [OF assms] downstream_include_queries [OF assms] by cases
qed

definition exclude_next :: "mrec \<Rightarrow> time_t \<Rightarrow> grpintnode \<Rightarrow> grpintnode" where
  "exclude_next mrec now gi =
     (let mode = mr_filter_mode mrec; A = mr_source_list mrec; X = gi_includes gi; Y = gi_excludes gi;
          XplusA = set_source_timers (src_union X A) None (timer_of (now + MALI));
          AminusY = src_difference A Y; AminXminY = src_difference AminusY X; XminusA = src_difference X A;
          X1 = src_remove_all X XminusA; Y1 = src_remove_all Y XminusA; YminusA = src_difference Y1 A;
          X2 = src_remove_all X1 YminusA; Y2 = src_remove_all Y1 YminusA;
          lower = (\<lambda>l. set_source_timers l (Some AminusY) (timer_of (now + LLQI))) in
      if mode = 1 \<or> mode = 5 then gi\<lparr>gi_includes := XplusA, gi_excludes := src_intersect Y A\<rparr>
      else if mode = 3 then gi\<lparr>gi_filter_timer := timer_of (now + LLQI),
          gi_includes := set_source_timers XplusA (Some XminusA) (timer_of (now + LLQI)), gi_excludes := src_intersect Y A\<rparr>
      else if mode = 2 then gi\<lparr>gi_includes := set_source_timers X2 (Some AminXminY) (timer_of (now + MALI)),
          gi_excludes := set_source_timers Y2 (Some AminXminY) (timer_of (now + MALI)), gi_filter_timer := timer_of (now + MALI)\<rparr>
      else if mode = 4 then gi\<lparr>gi_includes := lower (set_source_timers X2 (Some AminXminY) (gi_filter_timer gi)),
          gi_excludes := lower (set_source_timers Y2 (Some AminXminY) (gi_filter_timer gi)), gi_filter_timer := timer_of (now + MALI)\<rparr>
      else if mode = 6 then gi\<lparr>gi_includes := lower (set_source_timers (src_add_all X AminusY) (Some AminXminY) (gi_filter_timer gi)),
          gi_excludes := lower Y\<rparr>
      else gi)"

lemma downstream_exclude_quiet:
  assumes "valid_grpint c g j" and "mr_filter_mode mrec = 1 \<or> mr_filter_mode mrec = 5 \<or> mr_filter_mode mrec = 2 \<or> mr_filter_mode mrec \<notin> {1..6}"
  shows "\<exists>c'. downstream_exclude os i mrec g j c = Inr c'
     \<and> grpint_becomes g j (exclude_next mrec (c_clock c) (grpint_at c g j)) c c'"
proof -
  note b0 = grpint_becomes_refl [OF assms(1)]
  note up = grpint_becomes_upd [OF _ assms(1)]
  let ?gi = "grpint_at c g j" and ?m = "mr_filter_mode mrec" and ?A = "mr_source_list mrec" and ?now = "c_clock c"
  let ?X = "gi_includes ?gi" and ?Y = "gi_excludes ?gi"
  let ?XplusA = "set_source_timers (src_union ?X ?A) None (timer_of (?now + MALI))"
  let ?AminusY = "src_difference ?A ?Y"
  let ?AminXminY = "src_difference ?AminusY ?X"
  let ?X1 = "src_remove_all ?X (src_difference ?X ?A)" and ?Y1 = "src_remove_all ?Y (src_difference ?X ?A)"
  let ?X2 = "src_remove_all ?X1 (src_difference ?Y1 ?A)" and ?Y2 = "src_remove_all ?Y1 (src_difference ?Y1 ?A)"
  consider "?m = 1 \<or> ?m = 5" | "?m = 2" | "?m \<notin> {1..6}" using assms(2) by blast
  then show ?thesis
  proof cases
    case 1
    then show ?thesis
      using up [OF b0, of "\<lambda>gi. gi\<lparr>gi_includes := ?XplusA, gi_excludes := src_intersect ?Y ?A\<rparr>"]
      by (auto simp: downstream_exclude_def exclude_next_def Let_def)
  next
    case 2
    show ?thesis
      using 2 up [OF up [OF b0, of "\<lambda>gi. gi\<lparr>gi_includes := set_source_timers ?X2 (Some ?AminXminY) (timer_of (?now + MALI)),
          gi_excludes := set_source_timers ?Y2 (Some ?AminXminY) (timer_of (?now + MALI))\<rparr>"],
        of "\<lambda>gi. gi\<lparr>gi_filter_timer := timer_of (?now + MALI)\<rparr>"]
      by (simp add: downstream_exclude_def exclude_next_def Let_def)
  next
    case 3
    then show ?thesis using b0 by (auto simp: downstream_exclude_def exclude_next_def Let_def)
  qed
qed

lemma downstream_exclude_queries:
  assumes "valid_grpint c g j" and "mr_filter_mode mrec = 3 \<or> mr_filter_mode mrec = 4 \<or> mr_filter_mode mrec = 6"
  shows "\<exists>c'. downstream_exclude os i mrec g j c = Inr c'
     \<and> grpint_becomes g j (exclude_next mrec (c_clock c) (grpint_at c g j)) c c'"
proof -
  note b0 = grpint_becomes_refl [OF assms(1)]
  note up = grpint_becomes_upd [OF _ assms(1)]
  note q = mquery_becomes
  note q1 = query_becomes
  let ?gi = "grpint_at c g j" and ?m = "mr_filter_mode mrec" and ?A = "mr_source_list mrec" and ?now = "c_clock c"
  let ?X = "gi_includes ?gi" and ?Y = "gi_excludes ?gi"
  let ?XplusA = "set_source_timers (src_union ?X ?A) None (timer_of (?now + MALI))"
  let ?AminusY = "src_difference ?A ?Y"
  let ?AminXminY = "src_difference ?AminusY ?X"
  let ?X1 = "src_remove_all ?X (src_difference ?X ?A)" and ?Y1 = "src_remove_all ?Y (src_difference ?X ?A)"
  let ?X2 = "src_remove_all ?X1 (src_difference ?Y1 ?A)" and ?Y2 = "src_remove_all ?Y1 (src_difference ?Y1 ?A)"
  let ?low = "\<lambda>l. set_source_timers l (Some ?AminusY) (timer_of (?now + LLQI))"
  consider "?m = 3" | "?m = 4" | "?m = 6" using assms(2) by blast
  then show ?thesis
  proof cases
    case 1
    obtain c2 where c2: "mld_send_mquery os i (mr_mca mrec) (src_difference ?X ?A) False c = Inr c2"
      "grpint_becomes g j ?gi c c2" using q b0 by blast
    obtain c3 where c3: "mld_send_query os i (mr_mca mrec) None False c2 = Inr c3"
      "grpint_becomes g j ?gi c c3" using q1 c2(2) by blast
    show ?thesis
      using 1 c2(1) c3(1) up [OF up [OF c3(2), of "\<lambda>gi. gi\<lparr>gi_filter_timer := timer_of (?now + LLQI)\<rparr>"],
        of "\<lambda>gi. gi\<lparr>gi_includes := set_source_timers ?XplusA (Some (src_difference ?X ?A)) (timer_of (?now + LLQI)),
          gi_excludes := src_intersect ?Y ?A\<rparr>"]
      by (simp add: downstream_exclude_def exclude_next_def Let_def)
  next
    case 2
    let ?f = "\<lambda>gi. gi\<lparr>gi_includes := set_source_timers ?X2 (Some ?AminXminY) (gi_filter_timer ?gi),
          gi_excludes := set_source_timers ?Y2 (Some ?AminXminY) (gi_filter_timer ?gi)\<rparr>"
    obtain c2 where c2: "mld_send_mquery os i (mr_mca mrec) ?AminusY False (upd_grpint g j ?f c) = Inr c2"
      "grpint_becomes g j (?f ?gi) c c2" using q up [OF b0, of ?f] by blast
    show ?thesis
      using 2 c2(1) up [OF up [OF c2(2), of "\<lambda>gi. gi\<lparr>gi_includes := ?low (gi_includes gi), gi_excludes := ?low (gi_excludes gi)\<rparr>"],
        of "\<lambda>gi. gi\<lparr>gi_filter_timer := timer_of (?now + MALI)\<rparr>"]
      by (simp add: downstream_exclude_def exclude_next_def Let_def)
  next
    case 3
    obtain c2 where c2: "mld_send_mquery os i (mr_mca mrec) ?AminusY False c = Inr c2"
      "grpint_becomes g j ?gi c c2" using q b0 by blast
    show ?thesis
      using 3 c2(1) up [OF c2(2), of "\<lambda>gi. gi\<lparr>gi_includes := ?low (set_source_timers (src_add_all ?X ?AminusY) (Some ?AminXminY) (gi_filter_timer ?gi)),
          gi_excludes := ?low (gi_excludes gi)\<rparr>"]
      by (simp add: downstream_exclude_def exclude_next_def Let_def)
  qed
qed

lemma downstream_exclude_next:
  assumes "valid_grpint c g j"
  shows "\<exists>c'. downstream_exclude os i mrec g j c = Inr c'
     \<and> grpint_becomes g j (exclude_next mrec (c_clock c) (grpint_at c g j)) c c'"
proof -
  consider "mr_filter_mode mrec = 1 \<or> mr_filter_mode mrec = 5 \<or> mr_filter_mode mrec = 2 \<or> mr_filter_mode mrec \<notin> {1..6}" | "mr_filter_mode mrec = 3 \<or> mr_filter_mode mrec = 4 \<or> mr_filter_mode mrec = 6" by fastforce
  then show ?thesis using downstream_exclude_quiet [OF assms] downstream_exclude_queries [OF assms] by cases
qed

section \<open>Refinement of RFC 3810\<close>

text \<open>
  The router filter state of RFC 3810 (section 7.4): the include list, or the requested and the
  exclude list; and its tables for current-state and for state-change records.
\<close>

datatype filter_state = Include "in6_addr set" | Exclude "in6_addr set" "in6_addr set"

fun rfc3810_step :: "int \<Rightarrow> in6_addr set \<Rightarrow> filter_state \<Rightarrow> filter_state" where
  "rfc3810_step m B (Include A) =
     (if m = 1 \<or> m = 3 \<or> m = 5 then Include (A \<union> B)
      else if m = 2 \<or> m = 4 then Exclude (A \<inter> B) (B - A)
      else Include A)"
| "rfc3810_step m A (Exclude X Y) =
     (if m = 1 \<or> m = 3 \<or> m = 5 then Exclude (X \<union> A) (Y - A)
      else if m = 2 \<or> m = 4 then Exclude (A - Y) (Y \<inter> A)
      else if m = 6 then Exclude (X \<union> (A - Y)) Y
      else Exclude X Y)"

definition filter_abs :: "grpintnode \<Rightarrow> filter_state" where
  "filter_abs gi = (if gi_filter_mode gi = MLD2_MODE_IS_INCLUDE then Include (addrs (gi_includes gi))
     else Exclude (addrs (gi_includes gi)) (addrs (gi_excludes gi)))"

lemma elems_map_option: "elems (map (map_option f) l) = map f (elems l)"
  by (induction l) (auto simp: elems_def split: option.splits)

lemma set_source_timers_addrs [simp]:
  "addrs (set_source_timers l w t) = addrs l" "wf_srcs (set_source_timers l w t) = wf_srcs l"
  "set_source_timers l w t = [] \<longleftrightarrow> l = []"
proof -
  let ?f = "\<lambda>source. if (case w of None \<Rightarrow> False | Some w \<Rightarrow> list_hasmember (Some msrc_cmp) w source = None) then source
       else source\<lparr>ms_timer := uint t\<rparr>"
  have e: "map ms_addr (elems (set_source_timers l w t)) = map ms_addr (elems l)"
    unfolding set_source_timers_def elems_map_option by simp
  show "wf_srcs (set_source_timers l w t) = wf_srcs l" unfolding wf_srcs_def e ..
  show "addrs (set_source_timers l w t) = addrs l" unfolding addrs_def using e by (metis list.set_map)
qed (simp add: set_source_timers_def)

lemma wf_srcs_add_all [simp]: "wf_srcs (src_add_all a b) = wf_srcs a"
  by (simp add: wf_srcs_def)

lemmas wf_src_ops = ss.wf_un ss.wf_inter ss.wf_diff ss.wf_rem

lemma include_next_wf:
  assumes "wf_grpint gi" and "wf_srcs (mr_source_list mrec)"
  shows "wf_grpint (include_next mrec now gi)" "gi_ifindex (include_next mrec now gi) = gi_ifindex gi"
  using assms by (auto simp: include_next_def Let_def wf_grpint_def wf_src_ops)

lemma exclude_next_wf:
  assumes "wf_grpint gi" and "wf_srcs (mr_source_list mrec)"
  shows "wf_grpint (exclude_next mrec now gi)" "gi_ifindex (exclude_next mrec now gi) = gi_ifindex gi"
  using assms by (auto simp: exclude_next_def Let_def wf_grpint_def wf_src_ops)

lemma include_next_rfc:
  assumes "gi_filter_mode gi = 1"
  shows "filter_abs (include_next mrec now gi) = rfc3810_step (mr_filter_mode mrec) (addrs (mr_source_list mrec)) (filter_abs gi)"
  using assms
  by (auto simp: include_next_def Let_def filter_abs_def ss.keys_ops)

lemma exclude_next_abs:
  assumes "wf_grpint gi" and "gi_filter_mode gi = 2"
  shows "filter_abs (exclude_next mrec now gi) =
    (let m = mr_filter_mode mrec; A = addrs (mr_source_list mrec); X = addrs (gi_includes gi); Y = addrs (gi_excludes gi) in
     if m = 1 \<or> m = 3 \<or> m = 5 then Exclude (X \<union> A) (Y \<inter> A)
     else if m = 2 \<or> m = 4 then Exclude (X \<inter> A) (Y \<inter> A) else Exclude X Y)"
proof -
  have w: "wf_srcs (gi_includes gi)" "wf_srcs (gi_excludes gi)" using assms(1) by (simp_all add: wf_grpint_def)
  note k = ss.keys_rem_twice [OF w refl refl, of "mr_source_list mrec"]
  show ?thesis
    using assms(2) k by (simp add: exclude_next_def Let_def filter_abs_def ss.keys_ops)
qed

text \<open>
  The filter state that the router keeps for a group on an interface; without a node it is
  INCLUDE of nothing, as in the RFC.
\<close>

definition subscription_of :: "conf \<Rightarrow> in6_addr \<Rightarrow> ifindex \<Rightarrow> filter_state" where
  "subscription_of c mca k = (case group_find mca c of None \<Rightarrow> Include {}
     | Some g \<Rightarrow> (case grpint_find (g_interfaces (c_groups c ! g)) k of None \<Rightarrow> Include {}
        | Some j \<Rightarrow> filter_abs (grpint_at c g j)))"

lemma subscription_at:
  assumes "wf_conf c" and "valid_grpint c g j"
  shows "subscription_of c (g_mca (c_groups c ! g)) (gi_ifindex (grpint_at c g j)) = filter_abs (grpint_at c g j)"
proof -
  have "group_find (g_mca (c_groups c ! g)) c = Some g" using assms group_find_unique by blast
  moreover have "distinct (map gi_ifindex (g_interfaces (c_groups c ! g)))"
    using assms wf_groups_nth [of "c_groups c" g] by (simp add: wf_conf_def wf_group_def)
  then have "grpint_find (g_interfaces (c_groups c ! g)) (gi_ifindex (grpint_at c g j)) = Some j"
    using it.find_unique assms(2) by blast
  ultimately show ?thesis by (simp add: subscription_of_def)
qed

lemma subscription_becomes_other:
  assumes "wf_conf c" and "valid_grpint c g j" and "grpint_becomes g j v c c'"
    and "gi_ifindex v = gi_ifindex (grpint_at c g j)"
    and "(mca, k) \<noteq> (g_mca (c_groups c ! g), gi_ifindex (grpint_at c g j))"
  shows "subscription_of c' mca k = subscription_of c mca k"
proof -
  let ?gr = "(c_groups c ! g)\<lparr>g_interfaces := (g_interfaces (c_groups c ! g))[j := v]\<rparr>"
  have gs: "c_groups c' = (c_groups c)[g := ?gr]" using assms(3) by (simp add: grpint_becomes_def upd_grpint_groups)
  have w: "distinct (map g_mca (c_groups c))" "distinct (map gi_ifindex (g_interfaces (c_groups c ! g)))"
    using assms(1,2) wf_groups_nth [of "c_groups c" g] by (simp_all add: wf_conf_def wf_group_def wf_groups_def)
  have gf: "group_find mca c' = group_find mca c"
    unfolding group_find_def gs by (rule gt.find_update [OF w(1)]) simp
  show ?thesis
  proof (cases "group_find mca c = Some g")
    case False
    then have "g' \<noteq> g" if "group_find mca c = Some g'" for g' using that by auto
    then show ?thesis by (auto simp: subscription_of_def gf gs split: option.splits)
  next
    case True
    then have mca: "g_mca (c_groups c ! g) = mca" using group_find_SomeD by blast
    have at: "g_interfaces (c_groups c' ! g) = (g_interfaces (c_groups c ! g))[j := v]" using gs assms(2) by simp
    have f: "grpint_find (g_interfaces (c_groups c' ! g)) k = grpint_find (g_interfaces (c_groups c ! g)) k"
      unfolding at by (rule it.find_update [OF w(2) assms(4)])
    have "j' \<noteq> j" if "grpint_find (g_interfaces (c_groups c ! g)) k = Some j'" for j'
      using it.find_key_Some [OF that] mca assms(5) by auto
    then show ?thesis using f unfolding at
      by (auto simp: subscription_of_def gf True at split: option.splits)
  qed
qed

lemma filter_abs_create: "filter_abs (grpint_create os c n) = Include {}"
  by (simp add: filter_abs_def grpint_create_def)

text \<open>A new group, or a new node in a known group, starts with the subscription that nobody has: INCLUDE of nothing.\<close>

lemma subscription_new_group:
  assumes "wf_conf c" and "group_find (g_mca gr) c = None" and "c_groups c' = c_groups c @ [gr]" and "g_interfaces gr = [n]"
    and "filter_abs n = Include {}"
  shows "subscription_of c' mca k = subscription_of c mca k"
proof -
  have d: "distinct (map g_mca (c_groups c))" using assms(1) by (simp add: wf_conf_def wf_groups_def)
  have n: "groups_find (c_groups c) (g_mca gr) = None" using assms(2) by (simp add: group_find_def)
  show ?thesis
  proof (cases "mca = g_mca gr")
    case True
    have "group_find mca c' = Some (length (c_groups c))"
      using gt.find_add_new [OF d n] True by (simp add: group_find_def assms(3))
    then show ?thesis using True assms by (auto simp: subscription_of_def grpint_find_def)
  next
    case False
    then have "group_find mca c' = group_find mca c"
      using gt.find_add_old [OF d n] by (simp add: group_find_def assms(3))
    then show ?thesis
      by (auto simp: subscription_of_def assms(3) nth_append dest: group_find_SomeD split: option.splits)
  qed
qed

lemma subscription_new_node:
  assumes "distinct (map gi_ifindex l)" and "grpint_find l (gi_ifindex n) = None" and "filter_abs n = Include {}"
  shows "(case grpint_find (l @ [n]) k of None \<Rightarrow> Include {} | Some j \<Rightarrow> filter_abs ((l @ [n]) ! j))
    = (case grpint_find l k of None \<Rightarrow> Include {} | Some j \<Rightarrow> filter_abs (l ! j))"
proof (cases "k = gi_ifindex n")
  case True
  then show ?thesis using it.find_add_new [OF assms(1,2)] assms(2,3) by simp
next
  case False
  have "grpint_find l k = Some j \<Longrightarrow> j < length l" for j using it.find_key_Some by blast
  then show ?thesis using it.find_add_old [OF assms(1,2) False] by (auto simp: nth_append split: option.splits)
qed

lemma subscription_known_group:
  assumes "wf_conf c" and "g < length (c_groups c)" and "c_groups c' = (c_groups c)[g := gr]" and "g_mca gr = g_mca (c_groups c ! g)"
    and "g_interfaces gr = g_interfaces (c_groups c ! g)
      \<or> grpint_find (g_interfaces (c_groups c ! g)) (gi_ifindex n) = None \<and> g_interfaces gr = g_interfaces (c_groups c ! g) @ [n]"
    and "filter_abs n = Include {}"
  shows "subscription_of c' mca k = subscription_of c mca k"
proof -
  let ?l = "g_interfaces (c_groups c ! g)"
  have d: "distinct (map g_mca (c_groups c))" "distinct (map gi_ifindex ?l)"
    using assms(1,2) wf_groups_nth [of "c_groups c" g] by (simp_all add: wf_conf_def wf_groups_def wf_group_def)
  have gf: "group_find mca c' = group_find mca c"
    unfolding group_find_def assms(3) by (rule gt.find_update [OF d(1) assms(4)])
  have n: "(case grpint_find (g_interfaces gr) k of None \<Rightarrow> Include {} | Some j \<Rightarrow> filter_abs (g_interfaces gr ! j))
      = (case grpint_find ?l k of None \<Rightarrow> Include {} | Some j \<Rightarrow> filter_abs (?l ! j))"
    using assms(5)
  proof (elim disjE conjE)
    assume "grpint_find ?l (gi_ifindex n) = None" and gr: "g_interfaces gr = ?l @ [n]"
    then show ?thesis unfolding gr by (intro subscription_new_node [OF d(2) _ assms(6)])
  qed (simp only:)
  show ?thesis
  proof (cases "group_find mca c = Some g")
    case True
    have at: "c_groups c' ! g = gr" using assms(2,3) by simp
    show ?thesis unfolding subscription_of_def gf True option.case at by (rule n)
  next
    case False
    then show ?thesis by (auto simp: subscription_of_def gf assms(3) split: option.splits)
  qed
qed

lemma groupint_get_subscription:
  assumes "wf_conf c" and "groupint_get os mca i c = ((g, j), isnew, c')"
  shows "subscription_of c' mca' k = subscription_of c mca' k"
proof (cases "group_find mca c")
  case None
  then show ?thesis using assms(2)
    by (intro subscription_new_group [OF assms(1)]) (auto simp: groupint_get_new [OF None] filter_abs_create)
next
  case (Some g0)
  then have g0: "g0 < length (c_groups c)" by (simp add: group_find_SomeD)
  have "\<exists>gr. c_groups c' = (c_groups c)[g0 := gr] \<and> g_mca gr = g_mca (c_groups c ! g0)
     \<and> (g_interfaces gr = g_interfaces (c_groups c ! g0)
        \<or> grpint_find (g_interfaces (c_groups c ! g0)) (gi_ifindex (grpint_create os c (int_at c i))) = None
          \<and> g_interfaces gr = g_interfaces (c_groups c ! g0) @ [grpint_create os c (int_at c i)])"
    using assms(2) by (auto simp: groupint_get_known [OF Some] Let_def split: option.splits)
  then show ?thesis using subscription_known_group [OF assms(1) g0] filter_abs_create by metis
qed

text \<open>The step that the code takes: the RFC's from INCLUDE, its own from EXCLUDE.\<close>

fun ecmh_step :: "int \<Rightarrow> in6_addr set \<Rightarrow> filter_state \<Rightarrow> filter_state" where
  "ecmh_step m B (Include A) = rfc3810_step m B (Include A)"
| "ecmh_step m A (Exclude X Y) =
     (if m = 1 \<or> m = 3 \<or> m = 5 then Exclude (X \<union> A) (Y \<inter> A)
      else if m = 2 \<or> m = 4 then Exclude (X \<inter> A) (Y \<inter> A)
      else Exclude X Y)"

text \<open>What becomes of a node in either mode, and that it is the step of the abstract subscription.\<close>

definition next_node :: "mrec \<Rightarrow> time_t \<Rightarrow> grpintnode \<Rightarrow> grpintnode" where
  "next_node mrec now gi = (if gi_filter_mode gi = 1 then include_next mrec now gi else exclude_next mrec now gi)"

lemma next_node_wf:
  assumes "wf_grpint gi" and "wf_srcs (mr_source_list mrec)"
  shows "wf_grpint (next_node mrec now gi)" "gi_ifindex (next_node mrec now gi) = gi_ifindex gi"
  unfolding next_node_def using include_next_wf [OF assms] exclude_next_wf [OF assms] by simp_all

lemma next_node_abs:
  assumes "wf_grpint gi"
  shows "filter_abs (next_node mrec now gi) = ecmh_step (mr_filter_mode mrec) (addrs (mr_source_list mrec)) (filter_abs gi)"
proof (cases "gi_filter_mode gi = 1")
  case True
  then show ?thesis using include_next_rfc [OF True, of mrec now] by (simp add: next_node_def filter_abs_def [of gi])
next
  case False
  then have "gi_filter_mode gi = 2" using assms by (simp add: wf_grpint_def)
  then show ?thesis using False exclude_next_abs [OF assms, of mrec now]
    by (simp add: next_node_def Let_def filter_abs_def [of gi])
qed

lemma handle_downstream_result:
  assumes "wf_conf c" and "wf_srcs (mr_source_list mrec)"
  shows "\<exists>c'. handle_downstream_subscription os i mrec c = Inr c' \<and> wf_conf c' \<and> ints_kept c c'
    \<and> c_routes c' = c_routes c \<and> c_clock c' = c_clock c \<and> c_downstream_id c' = c_downstream_id c
    \<and> (\<forall>mca k. subscription_of c' mca k =
       (if mca = mr_mca mrec \<and> k = in_ifindex (int_at c i)
        then ecmh_step (mr_filter_mode mrec) (addrs (mr_source_list mrec)) (subscription_of c mca k)
        else subscription_of c mca k))"
proof -
  obtain g j isnew c1 where gi: "groupint_get os (mr_mca mrec) i c = ((g, j), isnew, c1)"
    by (metis prod_cases3 prod.exhaust)
  note p = groupint_get_pointers [OF gi] and f = groupint_get_frame [OF gi]
  have w1: "wf_conf c1" using assms(1) gi by (rule groupint_get_wf)
  have val: "valid_grpint c1 g j" using p by simp
  let ?gi = "grpint_at c1 g j"
  have wgi: "wf_grpint ?gi" using w1 p wf_groups_nth wf_group_nth by (simp add: wf_conf_def)
  define v where "v = next_node mrec (c_clock c1) ?gi"
  note v = next_node_wf [OF wgi assms(2), of "c_clock c1", folded v_def]
  note vf = next_node_abs [OF wgi, of mrec "c_clock c1", folded v_def]
  have "\<exists>c'. handle_downstream_subscription os i mrec c = Inr c' \<and> grpint_becomes g j v c1 c'"
    using downstream_include_next [OF val, of os i mrec] downstream_exclude_next [OF val, of os i mrec] wgi
    by (auto simp: handle_downstream_subscription_def gi v_def next_node_def wf_grpint_def)
  then obtain c' where c': "handle_downstream_subscription os i mrec c = Inr c'" "grpint_becomes g j v c1 c'" by blast
  have wf': "wf_conf c'" using grpint_becomes_wf [OF c'(2) w1 val v(2,1)] .
  have at: "grpint_at c' g j = v" using grpint_becomes_at [OF c'(2) val] .
  have val': "valid_grpint c' g j" "g_mca (c_groups c' ! g) = mr_mca mrec"
    using val c'(2) p(2) by (simp_all add: grpint_becomes_def upd_grpint_groups)
  have s': "subscription_of c' (mr_mca mrec) (in_ifindex (int_at c i)) = filter_abs v"
    using subscription_at [OF wf' val'(1)] val'(2) at v(2) p(4) by simp
  have s1: "subscription_of c (mr_mca mrec) (in_ifindex (int_at c i)) = filter_abs ?gi"
    using subscription_at [OF w1 val] p groupint_get_subscription [OF assms(1) gi] by simp
  have "subscription_of c' mca k = subscription_of c mca k" if "\<not> (mca = mr_mca mrec \<and> k = in_ifindex (int_at c i))" for mca k
    using subscription_becomes_other [OF w1 val c'(2) v(2), of mca k] that p groupint_get_subscription [OF assms(1) gi] by auto
  then have "subscription_of c' mca k =
       (if mca = mr_mca mrec \<and> k = in_ifindex (int_at c i)
        then ecmh_step (mr_filter_mode mrec) (addrs (mr_source_list mrec)) (subscription_of c mca k)
        else subscription_of c mca k)" for mca k
    using s' s1 vf by simp
  moreover have "ints_kept c c1" using f(1) by (simp add: ints_kept_def)
  moreover have "ints_kept c1 c'" "c_routes c' = c_routes c1" "c_clock c' = c_clock c1"
    "c_downstream_id c' = c_downstream_id c1" using c'(2) by (simp_all add: grpint_becomes_def)
  ultimately show ?thesis using c'(1) wf' f(2,4,5) ints_kept_trans by (intro exI [of _ c'] conjI allI) auto
qed

text \<open>
  C6. A report for a group whose filter mode on the interface is INCLUDE (or that the router does not
  know yet) takes the step of RFC 3810's tables, for every record type; the state stays well formed
  and no other subscription changes.
\<close>

theorem include_report_refines_rfc3810:
  assumes "wf_conf c" and "wf_srcs (mr_source_list mrec)"
    and "subscription_of c (mr_mca mrec) (in_ifindex (int_at c i)) = Include A"
  shows "\<exists>c'. handle_downstream_subscription os i mrec c = Inr c' \<and> wf_conf c'
     \<and> subscription_of c' (mr_mca mrec) (in_ifindex (int_at c i))
       = rfc3810_step (mr_filter_mode mrec) (addrs (mr_source_list mrec)) (Include A)
     \<and> (\<forall>mca k. (mca, k) \<noteq> (mr_mca mrec, in_ifindex (int_at c i)) \<longrightarrow> subscription_of c' mca k = subscription_of c mca k)"
proof -
  obtain c' where "handle_downstream_subscription os i mrec c = Inr c'" "wf_conf c'"
    "\<forall>mca k. subscription_of c' mca k = (if mca = mr_mca mrec \<and> k = in_ifindex (int_at c i)
        then ecmh_step (mr_filter_mode mrec) (addrs (mr_source_list mrec)) (subscription_of c mca k)
        else subscription_of c mca k)"
    using handle_downstream_result [OF assms(1,2), of os i] by blast
  with assms(3) show ?thesis by auto
qed

definition example_mrec :: "int \<Rightarrow> in6_addr \<Rightarrow> mrec" where
  "example_mrec m a = \<lparr>mr_mca = 0xff0e0001, mr_filter_mode = m, mr_source_list = [Some (msrc_create a 0)]\<rparr>"

lemma example_mrec_simps [simp]:
  "mr_mca (example_mrec m a) = 0xff0e0001" "mr_filter_mode (example_mrec m a) = m"
  "wf_srcs (mr_source_list (example_mrec m a))" "addrs (mr_source_list (example_mrec m a)) = {a}"
  by (simp_all add: example_mrec_def msrc_create_def)

theorem include_report_refines_rfc3810_witness:
  "\<exists>c'. handle_downstream_subscription example_os 0 (example_mrec 2 7) (example_conf\<lparr>c_ints := [int_zero]\<rparr>) = Inr c'
     \<and> wf_conf c' \<and> subscription_of c' 0xff0e0001 0 = Exclude {} {7}"
proof -
  let ?c = "example_conf\<lparr>c_ints := [int_zero]\<rparr>"
  have "wf_conf ?c" by (simp add: wf_conf_def example_conf_def wf_groups_def wf_ints_def int_zero_def)
  moreover have "wf_srcs (mr_source_list (example_mrec 2 7))" by simp
  moreover have "subscription_of ?c (mr_mca (example_mrec 2 7)) (in_ifindex (int_at ?c 0)) = Include {}"
    by (simp add: subscription_of_def group_find_def groups_find_def example_conf_def)
  ultimately show ?thesis
    using include_report_refines_rfc3810 [of ?c "example_mrec 2 7" 0 "{}" example_os]
    by (auto simp: int_zero_def)
qed


definition example_exclude_conf :: conf where
  "example_exclude_conf = example_conf\<lparr>c_ints := [int_zero], c_groups := [\<lparr>g_mca = 0xff0e0001,
     g_interfaces = [\<lparr>gi_ifindex = 0, gi_includes = [], gi_excludes = [Some (msrc_create 9 0)], gi_filter_mode = 2,
       gi_filter_timer = 2000\<rparr>], g_lastforward = 0, g_bytes = 0, g_packets = 0\<rparr>]\<rparr>"

lemma example_exclude_conf_wf: "wf_conf example_exclude_conf"
  by (simp add: wf_conf_def example_exclude_conf_def wf_groups_def wf_group_def wf_grpint_def wf_ints_def int_zero_def)

lemma example_exclude_subscription: "subscription_of example_exclude_conf 0xff0e0001 0 = Exclude {} {9}"
  by (simp add: subscription_of_def group_find_def groups_find_def grpint_find_def example_exclude_conf_def
      filter_abs_def msrc_create_def)


end
