(* ===== verification/Upstream.thy ===== *)
theory Upstream
  imports Mld2_logic
begin

text \<open>
  What \<^verbatim>\<open>handle_upstream_subscription\<close> and the expiry of sources in \<^verbatim>\<open>src/mld2_logic.c\<close> do to the
  state, and which calls they make.
\<close>

section \<open>The calls upstream\<close>

text \<open>The calls for one subscription on a socket, and for all of an interface.\<close>

definition filter_addrs :: "srclist \<Rightarrow> in6_addr option list" where
  "filter_addrs l = map (\<lambda>src. Some (ms_addr src)) (elems l) @ replicate (length l - length (elems l)) None"

definition sub_sources :: "grpintnode \<Rightarrow> srclist" where
  "sub_sources gi = (if gi_filter_mode gi = MLD2_MODE_IS_INCLUDE then gi_includes gi else gi_excludes gi)"

definition sub_active :: "ifindex \<Rightarrow> grpintnode \<Rightarrow> bool" where
  "sub_active ifx gi \<longleftrightarrow> gi_ifindex gi = ifx \<and> \<not> (sub_sources gi = [] \<and> gi_filter_mode gi = MLD2_MODE_IS_INCLUDE)"

definition sub_calls :: "int \<Rightarrow> ifindex \<Rightarrow> in6_addr \<times> grpintnode \<Rightarrow> io list" where
  "sub_calls s up = (\<lambda>(mca, gi). Join_group s up mca #
     (if sub_sources gi = [] then [] else [Set_filter s up mca (gi_filter_mode gi) (filter_addrs (sub_sources gi))]))"

definition upstream_calls :: "int \<Rightarrow> ifindex \<Rightarrow> ifindex \<Rightarrow> (in6_addr \<times> grpintnode) list \<Rightarrow> io list" where
  "upstream_calls s up ifx subs = concat (map (sub_calls s up) (filter (\<lambda>sub. sub_active ifx (snd sub)) subs))"

lemma join_filter_trace:
  "snd (mcast_set_filter os s up mca m l (snd (mcast_join_group os s up mca c)))
     = c\<lparr>c_trace := c_trace c @ Join_group s up mca # (if l = [] then [] else [Set_filter s up mca m (filter_addrs l)])\<rparr>"
  by (simp add: mcast_set_filter_def setsourcefilter_def mcast_join_group_def Let_def emit_def filter_addrs_def)

lemma upstream_join_skip:
  "\<not> sub_active (in_ifindex (int_at c i)) (snd sub) \<Longrightarrow> upstream_join os i sub (s, c) = (s, c)"
  by (auto simp: upstream_join_def sub_active_def sub_sources_def Let_def split: prod.splits)

lemma upstream_join_more:
  assumes "sub_active (in_ifindex (int_at c i)) (snd sub)" and "s \<noteq> 0"
  shows "upstream_join os i sub (s, c) = (s, c\<lparr>c_trace := c_trace c @ sub_calls s (c_upstream_id c) sub\<rparr>)"
proof -
  obtain mca gi where sub: "sub = (mca, gi)" by fastforce
  have "c_upstream_id (snd (mcast_join_group os s u m c)) = c_upstream_id c" for u m
    by (simp add: mcast_join_group_def Let_def emit_def)
  then show ?thesis
    using assms join_filter_trace [of os s "c_upstream_id c" mca "gi_filter_mode gi" "sub_sources gi" c]
    by (auto simp: upstream_join_def sub_active_def sub_sources_def sub_calls_def sub Let_def split_def)
qed

lemma upstream_join_first:
  assumes "sub_active (in_ifindex (int_at c i)) (snd sub)" and "os_socket os (c_trace c) \<noteq> 0"
  shows "upstream_join os i sub (0, c) = upstream_join os i sub (os_socket os (c_trace c),
      upd_int i (\<lambda>n. n\<lparr>in_upstream_socket := os_socket os (c_trace c)\<rparr>) c)"
proof -
  have "in_ifindex (int_at (upd_int i (\<lambda>n. n\<lparr>in_upstream_socket := z\<rparr>) c) i) = in_ifindex (int_at c i)" for z
    by (simp add: nth_upd_int)
  moreover have "mcast_socket_create6 os c = os_socket os (c_trace c)"
    by (simp add: mcast_socket_create6_def Let_def)
  ultimately show ?thesis using assms
    by (auto simp: upstream_join_def Let_def split_def sub_active_def sub_sources_def)
qed

lemma upstream_calls_Cons:
  "upstream_calls s up ifx (sub # subs) = (if sub_active ifx (snd sub) then sub_calls s up sub else []) @ upstream_calls s up ifx subs"
  by (simp add: upstream_calls_def)

lemma upstream_loop_more:
  assumes "s \<noteq> 0"
  shows "foldl (\<lambda>st sub. upstream_join os i sub st) (s, c) subs
     = (s, c\<lparr>c_trace := c_trace c @ upstream_calls s (c_upstream_id c) (in_ifindex (int_at c i)) subs\<rparr>)"
proof (induction subs arbitrary: c)
  case Nil
  then show ?case by (simp add: upstream_calls_def)
next
  case (Cons sub subs)
  then show ?case
    by (cases "sub_active (in_ifindex (int_at c i)) (snd sub)")
      (simp_all add: upstream_join_skip upstream_join_more [OF _ assms] upstream_calls_Cons)
qed

lemma upstream_loop:
  assumes "os_socket os (c_trace c) \<noteq> 0"
  shows "foldl (\<lambda>st sub. upstream_join os i sub st) (0, c) subs =
    (let s = os_socket os (c_trace c); calls = upstream_calls s (c_upstream_id c) (in_ifindex (int_at c i)) subs in
     if calls = [] then (0, c)
     else (s, (upd_int i (\<lambda>n. n\<lparr>in_upstream_socket := s\<rparr>) c)\<lparr>c_trace := c_trace c @ calls\<rparr>))"
proof (induction subs)
  case Nil
  then show ?case by (simp add: upstream_calls_def)
next
  case (Cons sub subs)
  show ?case
  proof (cases "sub_active (in_ifindex (int_at c i)) (snd sub)")
    case False
    then show ?thesis using Cons by (simp add: upstream_join_skip upstream_calls_Cons)
  next
    case True
    let ?s = "os_socket os (c_trace c)"
    let ?c = "upd_int i (\<lambda>n. n\<lparr>in_upstream_socket := ?s\<rparr>) c"
    have up: "in_ifindex (int_at ?c i) = in_ifindex (int_at c i)" "c_upstream_id ?c = c_upstream_id c"
      by (simp_all add: nth_upd_int) (simp add: upd_int_def)
    have "foldl (\<lambda>st sub. upstream_join os i sub st) (0, c) (sub # subs)
        = foldl (\<lambda>st sub. upstream_join os i sub st) (?s, ?c) (sub # subs)"
      by (simp only: foldl_Cons upstream_join_first [OF True assms])
    also have "\<dots> = (?s, ?c\<lparr>c_trace := c_trace ?c @ upstream_calls ?s (c_upstream_id ?c) (in_ifindex (int_at ?c i)) (sub # subs)\<rparr>)"
      by (rule upstream_loop_more [OF assms])
    finally show ?thesis unfolding up using True
      by (simp add: upstream_calls_Cons sub_calls_def split_def Let_def)
  qed
qed

section \<open>Frames\<close>

lemma quiet_trace [simp]: "quiet c (c\<lparr>c_trace := t\<rparr>)"
  by (simp add: quiet_def ints_kept_def)

lemma quiet_socket [simp]: "quiet c (upd_int i (\<lambda>n. n\<lparr>in_upstream_socket := s\<rparr>) c)"
  by (rule quiet_upd_int) simp_all

lemma upstream_join_quiet: "quiet c (snd (upstream_join os i sub (s, c)))"
proof (cases "sub_active (in_ifindex (int_at c i)) (snd sub)")
  case False
  then show ?thesis by (simp add: upstream_join_skip)
next
  case True
  have j: "quiet d (snd (mcast_set_filter os s' u mca m l (snd (mcast_join_group os s' u mca d))))" for d s' u mca m l
    unfolding join_filter_trace by simp
  have u: "c_upstream_id (snd (mcast_join_group os s' u mca d)) = c_upstream_id d" for s' u mca d
    by (simp add: mcast_join_group_def Let_def emit_def)
  have "quiet (upd_int i (\<lambda>n. n\<lparr>in_upstream_socket := z\<rparr>) c)
      (snd (mcast_set_filter os s' u mca m l (snd (mcast_join_group os s' u mca (upd_int i (\<lambda>n. n\<lparr>in_upstream_socket := z\<rparr>) c)))))"
    for z s' u mca m l by (rule j)
  then have k: "quiet c (snd (mcast_set_filter os s' u mca m l (snd (mcast_join_group os s' u mca (upd_int i (\<lambda>n. n\<lparr>in_upstream_socket := z\<rparr>) c)))))"
    for z s' u mca m l using quiet_socket quiet_trans by blast
  show ?thesis by (simp add: upstream_join_def Let_def split_def j k u)
qed

lemma upstream_loop_quiet: "quiet c (snd (foldl (\<lambda>st sub. upstream_join os i sub st) (s, c) subs))"
proof (induction subs arbitrary: s c)
  case (Cons sub subs)
  obtain s1 c1 where st: "upstream_join os i sub (s, c) = (s1, c1)" by fastforce
  then have "quiet c c1" using upstream_join_quiet [of c os i sub s] by simp
  then show ?case using Cons [of c1 s1] st quiet_trans [of c c1] by simp
qed simp

text \<open>With the route list there and an interface to work for, the upstream update always returns.\<close>

definition calm :: "conf \<Rightarrow> conf \<Rightarrow> bool" where
  "calm c c' \<longleftrightarrow> ints_kept c c' \<and> c_clock c' = c_clock c \<and> c_downstream_id c' = c_downstream_id c
     \<and> c_routes c' \<noteq> None \<and> (\<forall>k. int_find k c' = int_find k c)"

definition settled :: "conf \<Rightarrow> conf \<Rightarrow> bool" where
  "settled c c' \<longleftrightarrow> calm c c' \<and> c_groups c' = c_groups c"

lemma int_find_socket [simp]: "int_find k (upd_int i (\<lambda>n. n\<lparr>in_upstream_socket := s\<rparr>) c) = int_find k c"
  by (simp add: int_find_def nth_upd_int)

lemma int_find_trace [simp]: "int_find k (c\<lparr>c_trace := t\<rparr>) = int_find k c" "int_find k (emit e c) = int_find k c"
  by (simp_all add: int_find_def)

lemma upstream_join_find: "int_find k (snd (upstream_join os i sub (s, c))) = int_find k c"
proof -
  have j: "int_find k (snd (mcast_set_filter os s' u mca m l (snd (mcast_join_group os s' u mca d)))) = int_find k d" for d s' u mca m l
    unfolding join_filter_trace by simp
  have u: "c_upstream_id (snd (mcast_join_group os s' u mca d)) = c_upstream_id d" for s' u mca d
    by (simp add: mcast_join_group_def Let_def emit_def)
  show ?thesis by (simp add: upstream_join_def Let_def split_def j u)
qed

lemma upstream_loop_find: "int_find k (snd (foldl (\<lambda>st sub. upstream_join os i sub st) (s, c) subs)) = int_find k c"
proof (induction subs arbitrary: s c)
  case (Cons sub subs)
  obtain s1 c1 where st: "upstream_join os i sub (s, c) = (s1, c1)" by fastforce
  then have "int_find k c1 = int_find k c" using upstream_join_find [of k os i sub s c] by simp
  then show ?case using Cons [of s1 c1] st by simp
qed simp

lemma handle_upstream_ok:
  assumes "c_routes c \<noteq> None"
  shows "\<exists>c'. handle_upstream_subscription os (Some i) c = Inr c' \<and> settled c c'"
proof -
  let ?c = "upd_int i (\<lambda>n. n\<lparr>in_upstream_socket := 0\<rparr>) c"
  obtain s c1 where f: "foldl (\<lambda>st sub. upstream_join os i sub st) (0, ?c) (subscriptions ?c) = (s, c1)" by fastforce
  have q1: "quiet c c1" using upstream_loop_quiet [of ?c os i 0 "subscriptions ?c"] f quiet_socket quiet_trans by (metis snd_conv)
  let ?old = "in_upstream_socket (int_at c i)"
  let ?c2 = "if ?old \<noteq> 0 then emit (Close ?old) c1 else c1"
  have q2: "quiet c ?c2" using q1 quiet_trans [OF q1 quiet_emit] by simp
  then obtain rs where rs: "c_routes ?c2 = Some rs" using assms by (auto simp: quiet_def)
  have h: "handle_upstream_subscription os (Some i) c = expire_routes (c_mr6_fd ?c2) ?c2"
    by (simp add: handle_upstream_subscription_def Let_def f)
  obtain c' where c': "expire_routes (c_mr6_fd ?c2) ?c2 = Inr c'" using expire_routes_some [OF rs] by blast
  note e = expire_routes_frame [OF c']
  have "ints_kept ?c2 c'" using e(2) by (simp add: ints_kept_def)
  moreover have "ints_kept c ?c2" using q2 by (rule quietD)
  ultimately have "ints_kept c c'" by (rule ints_kept_trans [rotated])
  moreover have "int_find k c1 = int_find k c" for k using upstream_loop_find [of k os i 0 ?c "subscriptions ?c"] f by simp
  moreover have "c_ints c' = c_ints c1" using e(2) by simp
  then have "int_find k c' = int_find k c1" for k by (simp add: int_find_def)
  ultimately have "settled c c'" using e(1,3,4,5) quietD(2,4,5) [OF q2] by (auto simp: settled_def calm_def)
  then show ?thesis using h c' by simp
qed

lemma settled_wf: "settled c c' \<Longrightarrow> wf_conf c \<Longrightarrow> wf_conf c'"
  unfolding settled_def calm_def wf_conf_def using wf_ints_kept by metis

text \<open>
  C12. Rebuilding the upstream subscription of an interface: on one fresh socket it joins every group that
  the interface has an active subscription to and sets its source filter, only then closes the old socket,
  and last asks the kernel to drop routes; the new socket is remembered, none if there was nothing
  to join. No subscription changes.
\<close>

theorem handle_upstream_subscription_correct:
  assumes "c_routes c \<noteq> None" and "os_socket os (c_trace c) \<noteq> 0" and "i < length (c_ints c)"
    and "calls = upstream_calls (os_socket os (c_trace c)) (c_upstream_id c) (in_ifindex (int_at c i)) (subscriptions c)"
  shows "\<exists>c' del. handle_upstream_subscription os (Some i) c = Inr c' \<and> c_groups c' = c_groups c
     \<and> c_trace c' = c_trace c @ calls
         @ (if in_upstream_socket (int_at c i) \<noteq> 0 then [Close (in_upstream_socket (int_at c i))] else [])
         @ map (\<lambda>r :: kernel_route6. Mfc_del (c_mr6_fd c) (kr_src r) (kr_grp r)) del
     \<and> in_upstream_socket (int_at c' i) = (if calls = [] then 0 else os_socket os (c_trace c))"
proof -
  let ?s = "os_socket os (c_trace c)" and ?old = "in_upstream_socket (int_at c i)"
  let ?c = "upd_int i (\<lambda>n. n\<lparr>in_upstream_socket := 0\<rparr>) c"
  have sub: "subscriptions ?c = subscriptions c" by (simp add: subscriptions_def)
  have up: "in_ifindex (int_at ?c i) = in_ifindex (int_at c i)" "c_upstream_id ?c = c_upstream_id c" "c_mr6_fd ?c = c_mr6_fd c"
    by (simp_all add: nth_upd_int) (simp_all add: upd_int_def)
  define c1 where "c1 = (if calls = [] then ?c else (upd_int i (\<lambda>n. n\<lparr>in_upstream_socket := ?s\<rparr>) ?c)\<lparr>c_trace := c_trace ?c @ calls\<rparr>)"
  have f: "snd (foldl (\<lambda>st sub. upstream_join os i sub st) (0, ?c) (subscriptions ?c)) = c1"
    using upstream_loop [of os ?c i "subscriptions ?c"] assms(2,4) unfolding sub up by (simp add: c1_def Let_def)
  define c2 where "c2 = (if ?old \<noteq> 0 then emit (Close ?old) c1 else c1)"
  have h: "handle_upstream_subscription os (Some i) c = expire_routes (c_mr6_fd c2) c2"
    using f by (simp add: handle_upstream_subscription_def Let_def split_def c2_def)
  have c1: "c_routes c1 = c_routes c" "c_groups c1 = c_groups c" "c_trace c1 = c_trace c @ calls" "c_mr6_fd c1 = c_mr6_fd c"
    "in_upstream_socket (int_at c1 i) = (if calls = [] then 0 else ?s)"
    using assms(3) by (simp_all add: c1_def upd_int_def)
  have c2: "c_routes c2 = c_routes c" "c_groups c2 = c_groups c" "c_mr6_fd c2 = c_mr6_fd c"
    "c_trace c2 = c_trace c @ calls @ (if ?old \<noteq> 0 then [Close ?old] else [])" "c_ints c2 = c_ints c1"
    using c1 by (simp_all add: c2_def) (simp_all add: emit_def)
  obtain rs where rs: "c_routes c2 = Some rs" using assms(1) c2(1) by auto
  let ?w = "\<lambda>r. check_route (c_downstream_id c2) (kr_src r) (kr_grp r) c2"
  obtain keep dels where ex: "expire_list ?w (c_mr6_fd c2) rs = (keep, dels)" by fastforce
  from expire_list_spec [OF this] obtain del where "dels = map (\<lambda>r :: kernel_route6. Mfc_del (c_mr6_fd c2) (kr_src r) (kr_grp r)) del" by blast
  then show ?thesis
    using expire_routes_some [OF rs, of "c_mr6_fd c2"] ex h c1(5) c2 by (intro exI [of _ "c2\<lparr>c_routes := Some keep, c_trace := c_trace c2 @ dels\<rparr>"] exI [of _ del]) simp
qed

theorem handle_upstream_subscription_correct_witness:
  "\<exists>c'. handle_upstream_subscription example_os (Some 0) (example_exclude_conf\<lparr>c_routes := Some []\<rparr>) = Inr c'
     \<and> take 2 (c_trace c') = [Join_group 10 0 0xff0e0001, Set_filter 10 0 0xff0e0001 2 [Some 9]]"
proof -
  let ?c = "example_exclude_conf\<lparr>c_routes := Some []\<rparr>"
  let ?calls = "[Join_group 10 0 0xff0e0001, Set_filter 10 0 0xff0e0001 2 [Some 9]]"
  have s: "os_socket example_os (c_trace ?c) = 10" by (simp add: example_os_def example_exclude_conf_def example_conf_def)
  have c: "?calls = upstream_calls (os_socket example_os (c_trace ?c)) (c_upstream_id ?c) (in_ifindex (int_at ?c 0)) (subscriptions ?c)"
    unfolding s by (simp add: upstream_calls_def subscriptions_def example_exclude_conf_def example_conf_def sub_active_def
        sub_calls_def sub_sources_def filter_addrs_def int_zero_def msrc_create_def elems_def)
  have "c_routes ?c \<noteq> None" "os_socket example_os (c_trace ?c) \<noteq> 0" "0 < length (c_ints ?c)"
    "in_upstream_socket (int_at ?c 0) = 0" "c_trace ?c = []"
    unfolding s by (simp_all add: example_exclude_conf_def int_zero_def example_conf_def)
  then obtain c' del where c': "handle_upstream_subscription example_os (Some 0) ?c = Inr c'"
    "c_trace c' = ?calls @ map (\<lambda>r :: kernel_route6. Mfc_del (c_mr6_fd ?c) (kr_src r) (kr_grp r)) del"
    using handle_upstream_subscription_correct [of ?c example_os 0 ?calls, OF _ _ _ c] by auto
  then show ?thesis by (intro exI [of _ c']) simp
qed

end
