(* ===== verification/Expiry.thy ===== *)
theory Expiry
  imports Upstream
begin

text \<open>
  The expiry of sources and subscriptions (\<^verbatim>\<open>expire_sources\<close> of \<^verbatim>\<open>src/mld2_logic.c\<close>) against a
  specification on lists: three nested loops that delete under themselves are one filter.
\<close>

section \<open>Specification\<close>

definition src_alive :: "time_t \<Rightarrow> msrc option \<Rightarrow> bool" where
  "src_alive now x = (case x of None \<Rightarrow> True | Some s \<Rightarrow> now < ms_timer s)"

text \<open>What becomes of a node, \<open>None\<close> that it is removed.\<close>

definition expire_node :: "time_t \<Rightarrow> grpintnode \<Rightarrow> grpintnode option" where
  "expire_node now gi =
     (if gi_filter_mode gi = MLD2_MODE_IS_INCLUDE then
        let alive = filter (src_alive now) (gi_includes gi) in
        if gi_includes gi \<noteq> [] \<and> alive = [] then None else Some (gi\<lparr>gi_includes := alive\<rparr>)
      else if uint (gi_filter_timer gi) \<le> now then
        if gi_includes gi = [] then None else Some (gi\<lparr>gi_filter_mode := MLD2_MODE_IS_INCLUDE\<rparr>)
      else Some gi)"

definition expire_spec :: "time_t \<Rightarrow> groupnode list \<Rightarrow> groupnode list" where
  "expire_spec now gs = filter (\<lambda>g. g_interfaces g \<noteq> [])
     (map (\<lambda>g. g\<lparr>g_interfaces := List.map_filter (expire_node now) (g_interfaces g)\<rparr>) gs)"

section \<open>Removing a node\<close>

definition del_grpint :: "nat \<Rightarrow> nat \<Rightarrow> groupnode list \<Rightarrow> groupnode list" where
  "del_grpint g j gs = (let l = remove_nth j (g_interfaces (gs ! g)) in
     if l = [] then remove_nth g gs else gs[g := (gs ! g)\<lparr>g_interfaces := l\<rparr>])"

lemma remove_nth_update [simp]: "remove_nth i (xs[i := v]) = remove_nth i xs"
  by (simp add: remove_nth_def)

lemma remove_grpintn_alt:
  assumes "g < length (c_groups c)"
  shows "remove_grpintn g j c = (if remove_nth j (g_interfaces (c_groups c ! g)) = [] then 1 else 0,
     c\<lparr>c_groups := del_grpint g j (c_groups c)\<rparr>)"
  using assms by (simp add: remove_grpintn_def upd_group_def del_grpint_def Let_def)

lemma del_grpint_upd:
  assumes "g < length (c_groups c)"
  shows "del_grpint g j (c_groups (upd_grpint g j f c)) = del_grpint g j (c_groups c)"
  using assms by (simp add: del_grpint_def upd_grpint_groups Let_def)

lemma calm_trans: "calm a b \<Longrightarrow> calm b c \<Longrightarrow> calm a c"
  unfolding calm_def using ints_kept_trans by metis

lemma calm_groups [simp]: "c_routes c \<noteq> None \<Longrightarrow> calm c (c\<lparr>c_groups := gs\<rparr>)"
  by (simp add: calm_def ints_kept_def int_find_def)

lemma calm_upd_grpint [simp]: "c_routes c \<noteq> None \<Longrightarrow> calm c (upd_grpint g j f c)"
  by (simp add: calm_def int_find_def)

lemma calm_refl: "c_routes c \<noteq> None \<Longrightarrow> calm c c"
  by (simp add: calm_def)

lemma settled_calm: "settled c c' \<Longrightarrow> calm c c'" "settled c c' \<Longrightarrow> c_groups c' = c_groups c"
  by (simp_all add: settled_def)

lemma upd_grpint_gi:
  "valid_grpint c g j \<Longrightarrow> grpint_at (upd_grpint g j f c) g j = f (grpint_at c g j)"
  by (simp add: upd_grpint_groups)

section \<open>One node\<close>

text \<open>The last source of a node expires: the node goes, and its group with it if it was the only one.\<close>

lemma expire_source_last:
  assumes "valid_grpint c g j" and "c_routes c \<noteq> None" and "int_find (gi_ifindex (grpint_at c g j)) c \<noteq> None"
    and "ms_timer src \<le> now" and "remove_nth k (gi_includes (grpint_at c g j)) = []"
  shows "\<exists>c'. expire_source os g j k src now c = Inr (if remove_nth j (g_interfaces (c_groups c ! g)) = [] then 2 else 1, c')
     \<and> calm c c' \<and> c_groups c' = del_grpint g j (c_groups c)"
proof -
  let ?c1 = "upd_grpint g j (\<lambda>gi. gi\<lparr>gi_includes := remove_nth k (gi_includes gi)\<rparr>) c"
  let ?c2 = "?c1\<lparr>c_groups := del_grpint g j (c_groups ?c1)\<rparr>"
  have len: "g < length (c_groups ?c1)" using assms(1) by simp
  have gi: "gi_includes (grpint_at ?c1 g j) = []" "gi_ifindex (grpint_at ?c1 g j) = gi_ifindex (grpint_at c g j)"
    using assms(1,5) by (simp_all add: upd_grpint_gi)
  have l: "remove_nth j (g_interfaces (c_groups ?c1 ! g)) = remove_nth j (g_interfaces (c_groups c ! g))"
    using assms(1) by (simp add: upd_grpint_groups)
  obtain i where i: "int_find (gi_ifindex (grpint_at c g j)) ?c2 = Some i"
    using assms(3) by (auto simp: int_find_def)
  have r: "c_routes ?c2 \<noteq> None" using assms(2) by simp
  from handle_upstream_ok [OF r, of os i] obtain c' where
    h: "handle_upstream_subscription os (Some i) ?c2 = Inr c'" "settled ?c2 c'" by blast
  have "expire_source os g j k src now c = Inr (if remove_nth j (g_interfaces (c_groups c ! g)) = [] then 2 else 1, c')"
    using assms(4) gi h(1) i by (simp add: expire_source_def Let_def remove_grpintn_alt [OF len] l)
  moreover have "calm c ?c1" "calm ?c1 ?c2" using assms(2) by simp_all
  then have "calm c c'" using settled_calm(1) [OF h(2)] calm_trans by blast
  moreover have "c_groups c' = del_grpint g j (c_groups c)"
    using settled_calm(2) [OF h(2)] del_grpint_upd assms(1) by simp
  ultimately show ?thesis by blast
qed

lemma remove_nth_middle [simp]: "remove_nth (length pre) (pre @ x # xs) = pre @ xs"
  by (simp add: remove_nth_def)

lemma upd_grpint_twice:
  assumes "valid_grpint c g j"
  shows "c_groups (upd_grpint g j f (upd_grpint g j h c)) = c_groups (upd_grpint g j (\<lambda>gi. f (h gi)) c)"
  using assms by (simp add: upd_grpint_groups)

lemma upd_grpint_same: "valid_grpint c g j \<Longrightarrow> f (grpint_at c g j) = grpint_at c g j \<Longrightarrow> c_groups (upd_grpint g j f c) = c_groups c"
  by (simp add: upd_grpint_groups)

text \<open>A source that has run out while others are left is unlinked, and nothing else happens.\<close>

lemma expire_includes_unlinks:
  fixes c g j pre defines "d \<equiv> upd_grpint g j (\<lambda>gi. gi\<lparr>gi_includes := remove_nth (length pre) (gi_includes gi)\<rparr>) c"
  assumes "valid_grpint c g j" and "gi_includes (grpint_at c g j) = pre @ Some src # xs" and "ms_timer src \<le> now" and "pre @ xs \<noteq> []"
  shows "expire_includes (length (Some src # xs)) os g j (length pre) now c = expire_includes (length xs) os g j (length pre) now d"
    "grpint_at d g j = (grpint_at c g j)\<lparr>gi_includes := pre @ xs\<rparr>" "valid_grpint d g j"
    "remove_nth j (g_interfaces (c_groups d ! g)) = remove_nth j (g_interfaces (c_groups c ! g))"
    "del_grpint g j (c_groups d) = del_grpint g j (c_groups c)"
    "c_groups (upd_grpint g j (\<lambda>gi. gi\<lparr>gi_includes := l\<rparr>) d) = c_groups (upd_grpint g j (\<lambda>gi. gi\<lparr>gi_includes := l\<rparr>) c)"
proof -
  have rm: "remove_nth (length pre) (gi_includes (grpint_at c g j)) = pre @ xs" using assms(3) by simp
  show gi: "grpint_at d g j = (grpint_at c g j)\<lparr>gi_includes := pre @ xs\<rparr>" using assms(2) rm by (simp add: d_def upd_grpint_gi)
  then have "(gi_includes (grpint_at d g j) = []) = False" using assms(5) by simp
  then have "expire_source os g j (length pre) src now c = Inr (0, d)"
    unfolding d_def by (simp only: expire_source_def Let_def assms(4) if_True if_False)
  then show "expire_includes (length (Some src # xs)) os g j (length pre) now c = expire_includes (length xs) os g j (length pre) now d"
    using assms(3,4) by simp
  show "del_grpint g j (c_groups d) = del_grpint g j (c_groups c)" using assms(2) by (simp add: d_def del_grpint_upd)
qed (use assms(2) in \<open>simp_all add: d_def upd_grpint_groups\<close>)

lemma expire_includes_spec:
  assumes "valid_grpint c g j" and "c_routes c \<noteq> None" and "int_find (gi_ifindex (grpint_at c g j)) c \<noteq> None"
    and "gi_includes (grpint_at c g j) = pre @ rest"
  shows "\<exists>r c'. expire_includes (length rest) os g j (length pre) now c = Inr (r, c') \<and> calm c c' \<and>
    (if rest \<noteq> [] \<and> pre @ filter (src_alive now) rest = []
     then r = (if remove_nth j (g_interfaces (c_groups c ! g)) = [] then 2 else 1) \<and> c_groups c' = del_grpint g j (c_groups c)
     else r = 0 \<and> c_groups c' = c_groups (upd_grpint g j (\<lambda>gi. gi\<lparr>gi_includes := pre @ filter (src_alive now) rest\<rparr>) c))"
  using assms
proof (induction rest arbitrary: c pre)
  case Nil
  then show ?case by (simp add: calm_refl upd_grpint_same)
next
  case (Cons x xs)
  have at: "gi_includes (grpint_at c g j) ! length pre = x" using Cons.prems(4) by simp
  show ?case
  proof (cases "src_alive now x")
    case True
    have step: "expire_includes (length (x # xs)) os g j (length pre) now c = expire_includes (length xs) os g j (length (pre @ [x])) now c"
      using at True by (simp add: expire_source_def src_alive_def split: option.splits)
    show ?thesis unfolding step using Cons.IH [of c "pre @ [x]"] Cons.prems True by simp
  next
    case False
    then obtain src where src: "x = Some src" "ms_timer src \<le> now" by (auto simp: src_alive_def split: option.splits)
    have rm: "remove_nth (length pre) (gi_includes (grpint_at c g j)) = pre @ xs" using Cons.prems(4) by simp
    show ?thesis
    proof (cases "pre @ xs = []")
      case True
      then obtain c' where c': "expire_source os g j (length pre) src now c = Inr (if remove_nth j (g_interfaces (c_groups c ! g)) = [] then 2 else 1, c')"
        "calm c c'" "c_groups c' = del_grpint g j (c_groups c)"
        using expire_source_last [OF Cons.prems(1-3) src(2), of "length pre" os] rm by auto
      then show ?thesis using True False at src by simp
    next
      case ne: False
      let ?c1 = "upd_grpint g j (\<lambda>gi. gi\<lparr>gi_includes := remove_nth (length pre) (gi_includes gi)\<rparr>) c"
      note u = expire_includes_unlinks [OF Cons.prems(1,4) [unfolded src(1)] src(2) ne]
      have f: "int_find (gi_ifindex (grpint_at ?c1 g j)) ?c1 \<noteq> None" using Cons.prems(3) by (simp add: u(2) int_find_def)
      have "c_routes ?c1 \<noteq> None" "gi_includes (grpint_at ?c1 g j) = pre @ xs" using Cons.prems(2) by (simp_all add: u(2))
      from Cons.IH [OF u(3) this(1) f this(2)] obtain r c' where
        ih: "expire_includes (length xs) os g j (length pre) now ?c1 = Inr (r, c')" "calm ?c1 c'"
        "if xs \<noteq> [] \<and> pre @ filter (src_alive now) xs = []
         then r = (if remove_nth j (g_interfaces (c_groups ?c1 ! g)) = [] then 2 else 1) \<and> c_groups c' = del_grpint g j (c_groups ?c1)
         else r = 0 \<and> c_groups c' = c_groups (upd_grpint g j (\<lambda>gi. gi\<lparr>gi_includes := pre @ filter (src_alive now) xs\<rparr>) ?c1)" by blast
      have "calm c c'" using calm_trans [OF _ ih(2)] Cons.prems(2) by simp
      then show ?thesis unfolding src(1) u(1) using ih(1,3) [unfolded u(4-6)] False [unfolded src(1)] ne
        by (intro exI [of _ r] exI [of _ c']) (auto split: if_splits)
    qed
  qed
qed

lemma switch_to_include_spec:
  assumes "valid_grpint c g j" and "c_routes c \<noteq> None" and "int_find (gi_ifindex (grpint_at c g j)) c \<noteq> None"
  shows "\<exists>r c'. mld2_switch_to_include os g j c = Inr (r, c') \<and> calm c c' \<and>
    (if gi_includes (grpint_at c g j) = []
     then r = (if remove_nth j (g_interfaces (c_groups c ! g)) = [] then 1 else 0) \<and> c_groups c' = del_grpint g j (c_groups c)
     else r = 0 \<and> c_groups c' = c_groups (upd_grpint g j (\<lambda>gi. gi\<lparr>gi_filter_mode := MLD2_MODE_IS_INCLUDE\<rparr>) c))"
proof -
  let ?c1 = "upd_grpint g j (\<lambda>gi. gi\<lparr>gi_filter_mode := MLD2_MODE_IS_INCLUDE\<rparr>) c"
  have gi: "gi_ifindex (grpint_at ?c1 g j) = gi_ifindex (grpint_at c g j)" "gi_includes (grpint_at ?c1 g j) = gi_includes (grpint_at c g j)"
    using assms(1) by (simp_all add: upd_grpint_gi)
  obtain i where i: "int_find (gi_ifindex (grpint_at c g j)) ?c1 = Some i" using assms(3) by (auto simp: int_find_def)
  have "c_routes ?c1 \<noteq> None" using assms(2) by simp
  from handle_upstream_ok [OF this, of os i] obtain c2 where
    h: "handle_upstream_subscription os (Some i) ?c1 = Inr c2" "settled ?c1 c2" by blast
  have gs: "c_groups c2 = c_groups ?c1" using settled_calm(2) [OF h(2)] .
  have cm: "calm c c2" using settled_calm(1) [OF h(2)] calm_trans [OF calm_upd_grpint [OF assms(2)]] by blast
  then have r2: "c_routes c2 \<noteq> None" by (simp add: calm_def)
  have len: "g < length (c_groups c2)" using assms(1) gs by simp
  have l: "remove_nth j (g_interfaces (c_groups c2 ! g)) = remove_nth j (g_interfaces (c_groups c ! g))"
    using assms(1) by (simp add: gs upd_grpint_groups)
  have d: "del_grpint g j (c_groups c2) = del_grpint g j (c_groups c)" using assms(1) by (simp add: gs del_grpint_upd)
  have i2: "gi_includes (grpint_at c2 g j) = gi_includes (grpint_at c g j)" using gs gi(2) by simp
  have sw: "mld2_switch_to_include os g j c = (if gi_includes (grpint_at c g j) = [] then Inr (remove_grpintn g j c2) else Inr (0, c2))"
    unfolding mld2_switch_to_include_def Let_def gi(1) i h(1) bindR_simps i2 ..
  show ?thesis
  proof (cases "gi_includes (grpint_at c g j) = []")
    case True
    have "calm c (c2\<lparr>c_groups := del_grpint g j (c_groups c)\<rparr>)" using cm calm_groups [OF r2] calm_trans by blast
    then show ?thesis using True sw by (simp add: remove_grpintn_alt [OF len] l d)
  next
    case False
    then show ?thesis using sw cm gs by simp
  qed
qed

section \<open>One group\<close>

lemma expire_interfaces_kept:
  assumes "valid_grpint c g j" and "c_routes c \<noteq> None" and "int_find (gi_ifindex (grpint_at c g j)) c \<noteq> None"
    and "expire_node now (grpint_at c g j) = Some gi'"
  shows "\<exists>c1. calm c c1 \<and> c_groups c1 = c_groups (upd_grpint g j (\<lambda>_. gi') c)
     \<and> expire_interfaces (Suc n) os g j now c = expire_interfaces n os g (Suc j) now c1"
proof -
  let ?gi = "grpint_at c g j"
  consider (inc) "gi_filter_mode ?gi = 1" | (out) "gi_filter_mode ?gi \<noteq> 1" "uint (gi_filter_timer ?gi) \<le> now"
    | (run) "gi_filter_mode ?gi \<noteq> 1" "\<not> uint (gi_filter_timer ?gi) \<le> now" by blast
  then show ?thesis
  proof cases
    case inc
    then have e: "\<not> (gi_includes ?gi \<noteq> [] \<and> filter (src_alive now) (gi_includes ?gi) = [])"
      "gi' = ?gi\<lparr>gi_includes := filter (src_alive now) (gi_includes ?gi)\<rparr>"
      using assms(4) by (auto simp: expire_node_def Let_def split: if_splits)
    obtain c1 where "expire_includes (length (gi_includes ?gi)) os g j 0 now c = Inr (0, c1)" "calm c c1"
      "c_groups c1 = c_groups (upd_grpint g j (\<lambda>gi. gi\<lparr>gi_includes := filter (src_alive now) (gi_includes ?gi)\<rparr>) c)"
      using expire_includes_spec [OF assms(1-3), of "[]" "gi_includes ?gi" os now] e(1) by auto
    then show ?thesis using inc e(2) by (intro exI [of _ c1]) (simp add: Let_def upd_grpint_groups)
  next
    case out
    then have e: "gi_includes ?gi \<noteq> []" "gi' = ?gi\<lparr>gi_filter_mode := 1\<rparr>"
      using assms(4) by (auto simp: expire_node_def split: if_splits)
    obtain c1 where "mld2_switch_to_include os g j c = Inr (0, c1)" "calm c c1"
      "c_groups c1 = c_groups (upd_grpint g j (\<lambda>gi. gi\<lparr>gi_filter_mode := 1\<rparr>) c)"
      using switch_to_include_spec [OF assms(1-3), of os] e(1) by auto
    then show ?thesis using out e by (intro exI [of _ c1]) (simp add: Let_def upd_grpint_groups)
  next
    case run
    then have "gi' = ?gi" using assms(4) by (simp add: expire_node_def)
    then show ?thesis using run assms by (intro exI [of _ c]) (simp add: Let_def calm_refl upd_grpint_groups)
  qed
qed

lemma expire_interfaces_gone:
  assumes "valid_grpint c g j" and "c_routes c \<noteq> None" and "int_find (gi_ifindex (grpint_at c g j)) c \<noteq> None"
    and "expire_node now (grpint_at c g j) = None"
  shows "\<exists>c1. calm c c1 \<and> c_groups c1 = del_grpint g j (c_groups c)
     \<and> expire_interfaces (Suc n) os g j now c =
       (if remove_nth j (g_interfaces (c_groups c ! g)) = [] then Inr (True, c1) else expire_interfaces n os g j now c1)"
proof (cases "gi_filter_mode (grpint_at c g j) = 1")
  case True
  let ?gi = "grpint_at c g j"
  have e: "gi_includes ?gi \<noteq> []" "filter (src_alive now) (gi_includes ?gi) = []"
    using assms(4) True by (auto simp: expire_node_def Let_def split: if_splits)
  obtain c1 where "expire_includes (length (gi_includes ?gi)) os g j 0 now c
      = Inr (if remove_nth j (g_interfaces (c_groups c ! g)) = [] then 2 else 1, c1)" "calm c c1"
    "c_groups c1 = del_grpint g j (c_groups c)"
    using expire_includes_spec [OF assms(1-3), of "[]" "gi_includes ?gi" os now] e by auto
  then show ?thesis using True by (intro exI [of _ c1]) (simp add: Let_def)
next
  case False
  let ?gi = "grpint_at c g j"
  have e: "gi_includes ?gi = []" "uint (gi_filter_timer ?gi) \<le> now"
    using assms(4) False by (auto simp: expire_node_def split: if_splits)
  obtain c1 where "mld2_switch_to_include os g j c = Inr (if remove_nth j (g_interfaces (c_groups c ! g)) = [] then 1 else 0, c1)" "calm c c1"
    "c_groups c1 = del_grpint g j (c_groups c)"
    using switch_to_include_spec [OF assms(1-3), of os] e(1) by auto
  then show ?thesis using False e by (intro exI [of _ c1]) (simp add: Let_def)
qed

text \<open>The outcome of the loop over the interfaces of a group: the nodes \<open>l\<close> are left, or the group is gone.\<close>

definition leaves_nodes :: "nat \<Rightarrow> grpintnode list \<Rightarrow> conf \<Rightarrow> (bool \<times> conf) res \<Rightarrow> bool" where
  "leaves_nodes g l c r \<longleftrightarrow> (\<exists>c'. r = Inr (l = [], c') \<and> calm c c'
     \<and> c_groups c' = (if l = [] then remove_nth g (c_groups c) else (c_groups c)[g := (c_groups c ! g)\<lparr>g_interfaces := l\<rparr>]))"

lemma leaves_nodes_step:
  assumes "leaves_nodes g l c1 r" and "calm c c1" and "g < length (c_groups c)" and "c_groups c1 = (c_groups c)[g := (c_groups c ! g)\<lparr>g_interfaces := m\<rparr>]"
  shows "leaves_nodes g l c r"
  using assms calm_trans [OF assms(2)] by (auto simp: leaves_nodes_def)

lemma expire_interfaces_spec:
  assumes "g < length (c_groups c)" and "c_routes c \<noteq> None" and "g_interfaces (c_groups c ! g) = pre @ rest"
    and "pre @ rest \<noteq> []" and "\<forall>gi \<in> set rest. int_find (gi_ifindex gi) c \<noteq> None"
  shows "leaves_nodes g (pre @ List.map_filter (expire_node now) rest) c (expire_interfaces (length rest) os g (length pre) now c)"
  using assms
proof (induction rest arbitrary: c pre)
  case Nil
  have "(c_groups c)[g := (c_groups c ! g)\<lparr>g_interfaces := pre\<rparr>] = c_groups c"
    using Nil.prems(3) list_update_id [of "c_groups c" g] by (cases "c_groups c ! g") simp
  then show ?case using Nil by (simp add: leaves_nodes_def calm_refl map_filter_simps)
next
  case (Cons x xs)
  have v: "valid_grpint c g (length pre)" "grpint_at c g (length pre) = x" using Cons.prems by simp_all
  have fx: "int_find (gi_ifindex (grpint_at c g (length pre))) c \<noteq> None" using Cons.prems(5) v(2) by simp
  have rm: "remove_nth (length pre) (g_interfaces (c_groups c ! g)) = pre @ xs" using Cons.prems(3) by simp
  have more: "leaves_nodes g (l @ List.map_filter (expire_node now) xs) c (expire_interfaces (length xs) os g (length l) now c1)"
    if "calm c c1" "c_groups c1 = (c_groups c)[g := (c_groups c ! g)\<lparr>g_interfaces := l @ xs\<rparr>]" "l @ xs \<noteq> []" for l c1
    using that Cons.prems(1,5) by (intro leaves_nodes_step [OF Cons.IH _ _ that(2)]) (simp_all add: calm_def)
  show ?case
  proof (cases "expire_node now x")
    case (Some x')
    then obtain c1 where c1: "calm c c1" "c_groups c1 = c_groups (upd_grpint g (length pre) (\<lambda>_. x') c)"
      "expire_interfaces (Suc (length xs)) os g (length pre) now c = expire_interfaces (length xs) os g (Suc (length pre)) now c1"
      using expire_interfaces_kept [OF v(1) Cons.prems(2) fx, of now x'] v(2) by auto
    then show ?thesis using more [of c1 "pre @ [x']"] Cons.prems(1,3) Some
      by (simp add: upd_grpint_groups map_filter_simps del: expire_interfaces.simps)
  next
    case None
    then obtain c1 where c1: "calm c c1" "c_groups c1 = del_grpint g (length pre) (c_groups c)"
      "expire_interfaces (Suc (length xs)) os g (length pre) now c =
        (if pre @ xs = [] then Inr (True, c1) else expire_interfaces (length xs) os g (length pre) now c1)"
      using expire_interfaces_gone [OF v(1) Cons.prems(2) fx, of now] v(2) rm by auto
    then show ?thesis using more [of c1 pre] None rm
      by (cases "pre @ xs = []") (auto simp: leaves_nodes_def map_filter_simps del_grpint_def Let_def simp del: expire_interfaces.simps)
  qed
qed

section \<open>All groups\<close>

definition subscribed_ints_exist :: "conf \<Rightarrow> groupnode list \<Rightarrow> bool" where
  "subscribed_ints_exist c gs \<longleftrightarrow> (\<forall>g \<in> set gs. \<forall>gi \<in> set (g_interfaces g). int_find (gi_ifindex gi) c \<noteq> None)"

lemma expire_groups_spec:
  assumes "c_routes c \<noteq> None" and "c_groups c = pre @ rest" and "\<forall>g \<in> set rest. g_interfaces g \<noteq> []"
    and "subscribed_ints_exist c rest"
  shows "\<exists>c'. expire_groups (length rest) os (length pre) now c = Inr c' \<and> calm c c'
    \<and> c_groups c' = pre @ expire_spec now rest"
  using assms
proof (induction rest arbitrary: c pre)
  case Nil
  then show ?case by (simp add: calm_refl expire_spec_def)
next
  case (Cons x xs)
  let ?kept = "List.map_filter (expire_node now) (g_interfaces x)"
  have at: "c_groups c ! length pre = x" "length pre < length (c_groups c)" using Cons.prems(2) by simp_all
  have "\<forall>gi \<in> set (g_interfaces x). int_find (gi_ifindex gi) c \<noteq> None" "g_interfaces x \<noteq> []"
    using Cons.prems(3,4) by (simp_all add: subscribed_ints_exist_def)
  then obtain c1 where c1: "expire_interfaces (length (g_interfaces x)) os (length pre) 0 now c = Inr (?kept = [], c1)" "calm c c1"
    "c_groups c1 = (if ?kept = [] then remove_nth (length pre) (c_groups c) else (c_groups c)[length pre := x\<lparr>g_interfaces := ?kept\<rparr>])"
    using expire_interfaces_spec [OF at(2) Cons.prems(1), of "[]" "g_interfaces x" now os] at(1) by (auto simp: leaves_nodes_def)
  have e: "subscribed_ints_exist c1 xs" "c_routes c1 \<noteq> None"
    using Cons.prems(4) c1(2) by (simp_all add: subscribed_ints_exist_def calm_def)
  define pre' where "pre' = (if ?kept = [] then pre else pre @ [x\<lparr>g_interfaces := ?kept\<rparr>])"
  have gs: "c_groups c1 = pre' @ xs" using c1(3) Cons.prems(2) by (simp add: pre'_def)
  obtain c' where "expire_groups (length xs) os (length pre') now c1 = Inr c'" "calm c1 c'" "c_groups c' = pre' @ expire_spec now xs"
    using Cons.IH [OF e(2) gs _ e(1)] Cons.prems(3) by auto
  then show ?case using c1(1) calm_trans [OF c1(2)] at(1)
    by (intro exI [of _ c'], cases "?kept = []") (simp_all add: pre'_def expire_spec_def)
qed

lemma expire_sources_spec:
  assumes "wf_conf c" and "c_routes c \<noteq> None" and "subscribed_ints_exist c (c_groups c)"
  shows "\<exists>c'. expire_sources os c = Inr c' \<and> calm c c' \<and> c_groups c' = expire_spec (c_clock c) (c_groups c)"
proof -
  have "\<forall>g \<in> set (c_groups c). g_interfaces g \<noteq> []" using assms(1) by (simp add: wf_conf_def wf_groups_def wf_group_def)
  then show ?thesis
    using expire_groups_spec [OF assms(2), of "[]" "c_groups c" os "c_clock c"] assms(3) by (simp add: expire_sources_def)
qed

section \<open>Properties\<close>

lemma elems_filter: "elems (filter P l) = filter (\<lambda>s. P (Some s)) (elems l)"
  by (induction l) (auto simp: elems_def split: option.splits)

lemma wf_srcs_filter: "wf_srcs l \<Longrightarrow> wf_srcs (filter P l)"
  by (simp add: wf_srcs_def elems_filter distinct_map_filter)

lemma expire_node_wf:
  "expire_node now gi = Some gi' \<Longrightarrow> wf_grpint gi \<Longrightarrow> wf_grpint gi' \<and> gi_ifindex gi' = gi_ifindex gi"
  by (auto simp: expire_node_def wf_grpint_def Let_def wf_srcs_filter split: if_splits)

lemma map_filter_expire:
  assumes "distinct (map gi_ifindex l)" and "\<forall>gi \<in> set l. wf_grpint gi"
  shows "distinct (map gi_ifindex (List.map_filter (expire_node now) l))"
    "\<forall>gi \<in> set (List.map_filter (expire_node now) l). wf_grpint gi"
    "gi_ifindex ` set (List.map_filter (expire_node now) l) \<subseteq> gi_ifindex ` set l"
  using assms by (induction l) (auto simp: map_filter_simps dest!: expire_node_wf split: option.splits)

lemma expire_spec_wf:
  assumes "wf_groups gs"
  shows "wf_groups (expire_spec now gs)"
proof -
  have "distinct (map g_mca (expire_spec now gs))"
    using assms unfolding expire_spec_def by (intro distinct_map_filter) (simp add: wf_groups_def comp_def)
  moreover have "wf_group g" if "g \<in> set (expire_spec now gs)" for g
  proof -
    obtain g0 where "g0 \<in> set gs" "g = g0\<lparr>g_interfaces := List.map_filter (expire_node now) (g_interfaces g0)\<rparr>" "g_interfaces g \<noteq> []"
      using \<open>g \<in> set (expire_spec now gs)\<close> by (auto simp: expire_spec_def)
    then show ?thesis using assms map_filter_expire [of "g_interfaces g0" now] by (simp add: wf_groups_def wf_group_def)
  qed
  ultimately show ?thesis by (simp add: wf_groups_def)
qed

text \<open>
  C11. The expiry pass: provided the route list exists and every subscribed interface does, it returns,
  and the subscriptions it leaves are the specified ones: expired sources are gone from INCLUDE
  nodes, a node whose last source expired is gone, an EXCLUDE node whose filter timer ran out is in
  INCLUDE mode or, without requested sources, gone, and so is a group without nodes; all else is
  as it was, and the state is well formed.
\<close>

theorem expire_sources_correct:
  assumes "wf_conf c" and "c_routes c \<noteq> None" and "subscribed_ints_exist c (c_groups c)"
  shows "\<exists>c'. expire_sources os c = Inr c' \<and> c_groups c' = expire_spec (c_clock c) (c_groups c) \<and> wf_conf c'"
proof -
  obtain c' where c': "expire_sources os c = Inr c'" "calm c c'" "c_groups c' = expire_spec (c_clock c) (c_groups c)"
    using expire_sources_spec [OF assms, of os] by blast
  have "wf_groups (c_groups c')" using assms(1) c'(3) expire_spec_wf by (simp add: wf_conf_def)
  moreover have "wf_ints (c_ints c')" using c'(2) assms(1) wf_ints_kept [of c c'] by (simp add: calm_def wf_conf_def)
  ultimately show ?thesis using c' by (auto simp: wf_conf_def)
qed

definition example_expire_conf :: conf where
  "example_expire_conf = example_exclude_conf\<lparr>c_ints := [int_zero\<lparr>in_mtu := 1500\<rparr>], c_routes := Some [], c_clock := 3000\<rparr>"

lemma example_expire_conf_ok:
  "wf_conf example_expire_conf" "c_routes example_expire_conf \<noteq> None"
  "subscribed_ints_exist example_expire_conf (c_groups example_expire_conf)"
  using example_exclude_conf_wf
  by (simp_all add: wf_conf_def example_expire_conf_def wf_ints_def int_zero_def subscribed_ints_exist_def int_find_def
      example_exclude_conf_def)

theorem expire_sources_correct_witness:
  "\<exists>c'. expire_sources example_os example_expire_conf = Inr c' \<and> c_groups c' = []"
proof -
  have "expire_spec (c_clock example_expire_conf) (c_groups example_expire_conf) = []"
    by (simp add: expire_spec_def example_expire_conf_def example_exclude_conf_def expire_node_def map_filter_simps)
  then show ?thesis using expire_sources_correct [OF example_expire_conf_ok, of example_os] by auto
qed

text \<open>
  What never expires: an INCLUDE node without a source to time out (an empty list, or only the
  \<^verbatim>\<open>NULL\<close> entries of \<^verbatim>\<open>list_add_all\<close>) survives every pass, at any time, unchanged. Such nodes are made
  by leaving, or blocking sources of, a group that nobody had joined.
\<close>

lemma sourceless_include_never_expires:
  assumes "wf_conf c" and "c_routes c \<noteq> None" and "subscribed_ints_exist c (c_groups c)"
    and "g \<in> set (c_groups c)" and "gi \<in> set (g_interfaces g)"
    and "gi_filter_mode gi = 1" and "elems (gi_includes gi) = []"
  shows "\<exists>c' g'. expire_sources os (c\<lparr>c_clock := t\<rparr>) = Inr c' \<and> g' \<in> set (c_groups c') \<and> g_mca g' = g_mca g
     \<and> gi \<in> set (g_interfaces g')"
proof -
  let ?c = "c\<lparr>c_clock := t\<rparr>"
  have "wf_conf ?c" "c_routes ?c \<noteq> None" "subscribed_ints_exist ?c (c_groups ?c)"
    using assms(1-3) by (simp_all add: wf_conf_def subscribed_ints_exist_def int_find_def)
  then obtain c' where c': "expire_sources os ?c = Inr c'" "c_groups c' = expire_spec t (c_groups c)"
    using expire_sources_spec [of ?c os] by auto
  have "x = None" if "x \<in> set (gi_includes gi)" for x
    using that assms(7) set_elems [of "gi_includes gi"] by (metis empty_iff list.set(1) mem_Collect_eq option.exhaust)
  then have "filter (src_alive t) (gi_includes gi) = gi_includes gi" by (intro filter_True) (metis src_alive_def option.case(1))
  then have "expire_node t gi = Some gi" using assms(6) by (simp add: expire_node_def Let_def)
  then have in': "gi \<in> set (List.map_filter (expire_node t) (g_interfaces g))" using assms(5) by (force simp: map_filter_def)
  let ?g = "g\<lparr>g_interfaces := List.map_filter (expire_node t) (g_interfaces g)\<rparr>"
  have "?g \<in> set (expire_spec t (c_groups c))" using assms(4) in' by (auto simp: expire_spec_def)
  then show ?thesis using c' in' by (intro exI [of _ c'] exI [of _ ?g]) simp
qed

definition example_idle_node :: grpintnode where
  "example_idle_node = \<lparr>gi_ifindex = 0, gi_includes = [], gi_excludes = [], gi_filter_mode = 1, gi_filter_timer = 0\<rparr>"

definition example_idle_group :: groupnode where
  "example_idle_group = \<lparr>g_mca = 0xff0e0001, g_interfaces = [example_idle_node], g_lastforward = 0, g_bytes = 0, g_packets = 0\<rparr>"

lemma sourceless_include_never_expires_witness:
  "\<exists>c' g'. expire_sources example_os (example_expire_conf\<lparr>c_groups := [example_idle_group], c_clock := 1000000\<rparr>) = Inr c'
     \<and> g' \<in> set (c_groups c') \<and> g_mca g' = 0xff0e0001 \<and> example_idle_node \<in> set (g_interfaces g')"
proof -
  let ?c = "example_expire_conf\<lparr>c_groups := [example_idle_group]\<rparr>"
  have "wf_conf ?c" using example_expire_conf_ok(1)
    by (simp add: wf_conf_def wf_groups_def wf_group_def wf_grpint_def example_idle_group_def example_idle_node_def)
  moreover have "c_routes ?c \<noteq> None" using example_expire_conf_ok(2) by simp
  moreover have "subscribed_ints_exist ?c (c_groups ?c)"
    by (simp add: subscribed_ints_exist_def example_idle_group_def example_idle_node_def int_find_def example_expire_conf_def int_zero_def)
  moreover have "example_idle_group \<in> set (c_groups ?c)" "example_idle_node \<in> set (g_interfaces example_idle_group)"
    "gi_filter_mode example_idle_node = 1" "elems (gi_includes example_idle_node) = []" "g_mca example_idle_group = 0xff0e0001"
    by (simp_all add: example_idle_group_def example_idle_node_def)
  ultimately show ?thesis
    using sourceless_include_never_expires [of ?c example_idle_group example_idle_node example_os 1000000] by simp
qed

end
