(* ===== verification/Mld_input.thy ===== *)
theory Mld_input
  imports Expiry
begin

text \<open>
  The receiving half of \<^verbatim>\<open>src/ecmh.c\<close>: MLD reports and queries, forwarding, ICMPv6, the IPv6 header
  chain. A packet is the memory from its IPv6 header to the end of the receive buffer, which may be more
  than its length; a read beyond that memory is a fault. The handlers write into it (the checksum,
  the hop limit), so a changed copy is passed on.
\<close>

section \<open>MLDv1\<close>

definition ignored_group :: "in6_addr \<Rightarrow> bool" where
  "ignored_group mca \<longleftrightarrow> \<not> IN6_IS_ADDR_MULTICAST mca \<or> IN6_IS_ADDR_MC_NODELOCAL mca \<or> IN6_IS_ADDR_MC_LINKLOCAL mca"

text \<open>The guards on \<^verbatim>\<open>mld2only\<close> are under a misspelt macro and not compiled.\<close>

definition l4_ipv6_icmpv6_mld1_report :: "os \<Rightarrow> nat \<Rightarrow> bytes \<Rightarrow> nat \<Rightarrow> conf \<Rightarrow> conf res" where
  "l4_ipv6_icmpv6_mld1_report os i mem off c =
     bindR (read_bytes mem (off + 8) 16) (\<lambda>a.
       let mca = be_word a; c = int_set_mld_version i 1 c in
       if ignored_group mca then Inr c
       else
         let ((g, j), isnew, c) = groupint_get os mca i c in
         (case grpint_refresh (grpint_at c g j) in6addr_any MLD2_MODE_IS_INCLUDE of
            None \<Rightarrow> Inr c
          | Some _ \<Rightarrow> if isnew then mld_send_report_all os i mca c else Inr c))"

definition l4_ipv6_icmpv6_mld1_reduction :: "nat \<Rightarrow> bytes \<Rightarrow> nat \<Rightarrow> conf \<Rightarrow> conf res" where
  "l4_ipv6_icmpv6_mld1_reduction i mem off c =
     bindR (read_bytes mem (off + 8) 16) (\<lambda>a.
       let mca = be_word a; c = int_set_mld_version i 1 c in
       if ignored_group mca then Inr c
       else (case group_find mca c of
           None \<Rightarrow> Inr c
         | Some g \<Rightarrow> (case grpint_find (g_interfaces (c_groups c ! g)) (in_ifindex (int_at c i)) of
               None \<Rightarrow> Inr c
             | Some j \<Rightarrow> Inr c)))"

section \<open>MLDv2 reports\<close>

definition is_known_grec_type :: "nat \<Rightarrow> bool" where
  "is_known_grec_type grec_type \<longleftrightarrow> grec_type = MLD2_MODE_IS_INCLUDE \<or> grec_type = MLD2_MODE_IS_EXCLUDE
     \<or> grec_type = MLD2_CHANGE_TO_INCLUDE \<or> grec_type = MLD2_CHANGE_TO_EXCLUDE
     \<or> grec_type = MLD2_ALLOW_NEW_SOURCES \<or> grec_type = MLD2_BLOCK_OLD_SOURCES"

text \<open>The loop that adds the sources of a record, each read where the pointer stands.\<close>

primrec read_sources :: "nat \<Rightarrow> bytes \<Rightarrow> nat \<Rightarrow> mrec \<Rightarrow> mrec res" where
  "read_sources 0 mem src mrec = Inr mrec"
| "read_sources (Suc nsrcs) mem src mrec =
     bindR (read_bytes mem src 16) (\<lambda>a.
       read_sources nsrcs mem (src + 16) (the (snd (mrec_add_source_addr (Some mrec) (be_word a)))))"

text \<open>
  One turn of the loop over the group records up to the finished membership record: \<open>off\<close> is where
  the report starts, \<open>grec\<close> where the group record does. \<open>None\<close> is \<^verbatim>\<open>goto out\<close>; otherwise the record and where
  the next one starts. The log line before the check of the type looks its name up.
\<close>

definition mld2_record :: "bytes \<Rightarrow> nat \<Rightarrow> nat \<Rightarrow> nat \<Rightarrow> (mrec \<times> nat) option res" where
  "mld2_record mem off plen grec =
     bindR (read_bytes mem grec 20) (\<lambda>h.
       let grec_type = unat (h ! 0); grec_auxwords = unat (h ! 1);
           nsrcs = be_nat (take 2 (drop 2 h)); grec_mca = be_word (drop 4 h); src = grec + 20 in
       if IN6_IS_ADDR_MC_NODELOCAL grec_mca \<or> IN6_IS_ADDR_MC_LINKLOCAL grec_mca then Inr None
       else if grec > off + plen then Inr None
       else
         bindR (lookup (Some mld2_grec_types) grec_type) (\<lambda>_.
         if \<not> is_known_grec_type grec_type then Inr None
         else if nsrcs > 0 \<and> (src - off) + nsrcs * 16 > plen then Inr None
         else
           bindR (read_sources nsrcs mem src (mrec_create grec_mca (int grec_type))) (\<lambda>mrec.
             Inr (Some (mrec, src + 16 * nsrcs + grec_auxwords)))))"

text \<open>The loop; its result says whether a record was handled, that is \<^verbatim>\<open>handle_upstream\<close>.\<close>

primrec mld2_records :: "nat \<Rightarrow> os \<Rightarrow> nat \<Rightarrow> bytes \<Rightarrow> nat \<Rightarrow> nat \<Rightarrow> nat \<Rightarrow> bool \<Rightarrow> conf \<Rightarrow> (bool \<times> conf) res" where
  "mld2_records 0 os i mem off plen grec handle_upstream c = Inr (handle_upstream, c)"
| "mld2_records (Suc ngrec) os i mem off plen grec handle_upstream c =
     bindR (mld2_record mem off plen grec) (\<lambda>r.
       case r of None \<Rightarrow> Inr (handle_upstream, c)
       | Some (mrec, next) \<Rightarrow>
           bindR (handle_downstream_subscription os i mrec c) (\<lambda>c.
             mld2_records ngrec os i mem off plen next True c))"

definition l4_ipv6_icmpv6_mld2_report :: "os \<Rightarrow> nat \<Rightarrow> bytes \<Rightarrow> nat \<Rightarrow> u16 \<Rightarrow> conf \<Rightarrow> conf res" where
  "l4_ipv6_icmpv6_mld2_report os i mem off plen c =
     bindR (read_bytes mem (off + 6) 2) (\<lambda>n.
       let ngrec = be_nat n; c = int_set_mld_version i 2 c in
       if 8 + ngrec * 20 > unat plen then Inr c
       else
         bindR (mld2_records ngrec os i mem off (unat plen) (off + 8) False c) (\<lambda>(handle_upstream, c).
           if handle_upstream then
             bindR (handle_upstream_subscription os (Some i) c) (\<lambda>c. expire_routes (c_mr6_fd c) c)
           else Inr c))"

section \<open>Queries\<close>

definition l4_ipv6_icmpv6_mld_query :: "os \<Rightarrow> nat \<Rightarrow> u16 \<Rightarrow> conf \<Rightarrow> conf res" where
  "l4_ipv6_icmpv6_mld_query os i plen c =
     (let c = int_set_mld_version i (if plen = 24 then 1 else 2) c; version = in_mld_version (int_at c i) in
      if \<not> c_mld2only c \<and> (c_mld1only c \<or> version = 0 \<or> version = 1) then
        foldR (\<lambda>(mca, gi) c. if gi_ifindex gi \<noteq> in_ifindex (int_at c i) then Inr c else mld_send_report os i mca c)
          (subscriptions c) c
      else if \<not> c_mld1only c \<and> (c_mld2only c \<or> version = 2) then mld2_send_report i None c
      else Inr c)"

section \<open>Forwarding\<close>

definition unroutable :: "in6_addr \<Rightarrow> in6_addr \<Rightarrow> bool" where
  "unroutable src dst \<longleftrightarrow> IN6_IS_ADDR_MULTICAST src \<or> IN6_IS_ADDR_UNSPECIFIED src \<or> IN6_IS_ADDR_UNSPECIFIED dst
     \<or> IN6_IS_ADDR_LINKLOCAL src \<or> IN6_IS_ADDR_MC_NODELOCAL dst \<or> IN6_IS_ADDR_MC_LINKLOCAL dst"

text \<open>Where in the list a source is.\<close>

definition src_position :: "srclist \<Rightarrow> in6_addr \<Rightarrow> nat option" where
  "src_position l a = index_of (elem_matches (Some msrc_cmp) (msrc_create a 0)) l"

text \<open>
  The loop over the interfaces of the group works on copies of the nodes, as in the expiry; the
  first argument counts the nodes left. After a packet was sent the loop ends.
\<close>

primrec forward_loop :: "nat \<Rightarrow> os \<Rightarrow> nat \<Rightarrow> nat \<Rightarrow> nat \<Rightarrow> in6_addr \<Rightarrow> bytes \<Rightarrow> u16 \<Rightarrow> conf \<Rightarrow> conf res" where
  "forward_loop 0 os i g j src iph len c = Inr c"
| "forward_loop (Suc n) os i g j src iph len c =
     (let gi = grpint_at c g j; now = c_clock c;
          send = (\<lambda>c. case int_find (gi_ifindex gi) c of
                        None \<Rightarrow> forward_loop n os i g (Suc j) src iph len c
                      | Some k \<Rightarrow> sendpacket6 os k iph len c) in
      if in_ifindex (int_at c i) = gi_ifindex gi then forward_loop n os i g (Suc j) src iph len c
      else if gi_filter_mode gi = MLD2_MODE_IS_INCLUDE then
        (case src_position (gi_includes gi) src of
           None \<Rightarrow> forward_loop n os i g (Suc j) src iph len c
         | Some k \<Rightarrow>
             bindR (expire_source os g j k (the (gi_includes gi ! k)) now c) (\<lambda>(lastgroup, c).
               if lastgroup \<noteq> 0 then Inr c else send c))
      else if uint (gi_filter_timer gi) \<le> now then
        bindR (mld2_switch_to_include os g j c) (\<lambda>(lastgroup, c).
          if lastgroup \<noteq> 0 then Inr c
          else forward_loop n os i g (if gi_includes gi = [] then j else Suc j) src iph len c)
      else if gi_excludes gi \<noteq> [] \<and> src_hasmember (gi_excludes gi) src \<noteq> None
      then forward_loop n os i g (Suc j) src iph len c
      else send c)"

definition l4_ipv6_multicast :: "os \<Rightarrow> nat \<Rightarrow> bytes \<Rightarrow> u16 \<Rightarrow> conf \<Rightarrow> conf res" where
  "l4_ipv6_multicast os i iph len c =
     bindR (read_bytes iph 0 40) (\<lambda>h.
       let ip6_src = be_word (take 16 (drop 8 h)); ip6_dst = be_word (drop 24 h) in
       if unroutable ip6_src ip6_dst then Inr c
       else (case group_find ip6_dst c of
           None \<Rightarrow> Inr c
         | Some g \<Rightarrow>
             let c = upd_group g (\<lambda>gr. gr\<lparr>g_bytes := g_bytes gr + ucast len, g_packets := g_packets gr + 1\<rparr>) c in
             forward_loop (length (g_interfaces (c_groups c ! g))) os i g 0 ip6_src iph len c))"

section \<open>ICMPv6\<close>

abbreviation (input) ICMP6_ECHO_REQUEST :: u8 where "ICMP6_ECHO_REQUEST \<equiv> 128"
abbreviation (input) ICMP6_ECHO_REPLY :: u8 where "ICMP6_ECHO_REPLY \<equiv> 129"

text \<open>The dispatch of \<^verbatim>\<open>l4_ipv6_icmpv6\<close> after the checksum; \<open>iph\<close> is the packet with it recomputed.\<close>

definition icmpv6_dispatch :: "os \<Rightarrow> nat \<Rightarrow> bytes \<Rightarrow> u16 \<Rightarrow> nat \<Rightarrow> u16 \<Rightarrow> conf \<Rightarrow> conf res" where
  "icmpv6_dispatch os i iph len off plen c =
     (let type = iph ! off; ip6_src = be_word (take 16 (drop 8 iph)) in
      if type = ICMP6_ECHO_REQUEST then
        let hlim = (if iph ! 7 > 0 then iph ! 7 - 1 else iph ! 7); iph = iph[7 := hlim] in
        if hlim = 0 then
          let c = c\<lparr>c_stat_hlim_exceeded := c_stat_hlim_exceeded c + 1\<rparr> in
          icmp6_send os i ip6_src ICMP6_ECHO_REPLY 0 (drop (off + 4) iph) (ucast plen - 8 + 4) c
        else l4_ipv6_multicast os i iph len c
      else if \<not> IN6_IS_ADDR_LINKLOCAL ip6_src then Inr c
      else if type = MLD_LISTENER_REPORT then l4_ipv6_icmpv6_mld1_report os i iph off c
      else if type = MLD_LISTENER_REDUCTION then l4_ipv6_icmpv6_mld1_reduction i iph off c
      else if type = 143 \<or> type = 206 then l4_ipv6_icmpv6_mld2_report os i iph off plen c
      else if type = MLD_LISTENER_QUERY then l4_ipv6_icmpv6_mld_query os i plen c
      else Inr c)"

text \<open>
  A wrong checksum is logged as dropped and nothing else: the field is overwritten with the right
  one and the message handled.
\<close>

definition l4_ipv6_icmpv6 :: "os \<Rightarrow> nat \<Rightarrow> bytes \<Rightarrow> u16 \<Rightarrow> nat \<Rightarrow> u16 \<Rightarrow> conf \<Rightarrow> conf res" where
  "l4_ipv6_icmpv6 os i iph len off plen c =
     (let c = upd_int i (\<lambda>n. n\<lparr>in_stat_icmp_received := in_stat_icmp_received n + 1\<rparr>)
                (c\<lparr>c_stat_icmp_received := c_stat_icmp_received c + 1\<rparr>) in
      bindR (read_bytes iph 0 40) (\<lambda>h.
      bindR (read_bytes iph off 4) (\<lambda>icmp.
        let type = icmp ! 0; code = icmp ! 1 in
        if type \<notin> {MLD_LISTENER_REPORT, MLD_LISTENER_REDUCTION, 143, 206, MLD_LISTENER_QUERY, ICMP6_ECHO_REQUEST}
        then bindR (icmpv6_code (unat type) (unat code)) (\<lambda>_. Inr c)
        else
          let iph = iph[off + 2 := 0, off + 3 := 0] in
          bindR (read_bytes iph off (unat plen)) (\<lambda>data.
            let ip6_src = be_word (take 16 (drop 8 h)); ip6_dst = be_word (drop 24 h);
                cksum = le_bytes16 (ipv6_checksum ip6_src ip6_dst IPPROTO_ICMPV6 data plen);
                iph = iph[off + 2 := cksum ! 0, off + 3 := cksum ! 1] in
            icmpv6_dispatch os i iph len off plen c))))"

section \<open>IPv6 and IPv4\<close>

text \<open>
  Skipping extension headers: the type and place of the header after them and the length left,
  \<open>None\<close> when the chain runs beyond the packet.
\<close>

function skip_headers :: "bytes \<Rightarrow> u16 \<Rightarrow> u8 \<Rightarrow> nat \<Rightarrow> u16 \<Rightarrow> (u8 \<times> nat \<times> u16) option res" where
  "skip_headers iph len ipe_type ipe plen =
     (if ipe_type \<in> {0, 43, 60, 51} then
        bindR (read_bytes iph ipe 2) (\<lambda>h.
          let l = unat (h ! 1) * 8 + 8 in
          if ipe + l > unat len then Inr None
          else skip_headers iph len (h ! 0) (ipe + l) (plen - of_nat l))
      else Inr (Some (ipe_type, ipe, plen)))"
  by pat_completeness auto
termination
  by (relation "measure (\<lambda>(iph, len, ipe_type, ipe, plen). unat len + 1 - ipe)") auto

declare skip_headers.simps [simp del]

definition l3_ipv6 :: "os \<Rightarrow> nat \<Rightarrow> bytes \<Rightarrow> u16 \<Rightarrow> conf \<Rightarrow> conf res" where
  "l3_ipv6 os i iph len c =
     bindR (read_bytes iph 0 40) (\<lambda>h.
       let ip6_src = be_word (take 16 (drop 8 h)); ip6_dst = be_word (drop 24 h) in
       if \<not> IN6_IS_ADDR_MULTICAST ip6_dst then Inr c
       else if ip6_src = in_linklocal (int_at c i) \<or> ip6_src = in_global (int_at c i) then Inr c
       else
         bindR (skip_headers iph len (h ! 6) 40 (be_word (take 2 (drop 4 h)))) (\<lambda>r.
           case r of None \<Rightarrow> Inr c
           | Some (ipe_type, ipe, plen) \<Rightarrow>
               if ipe_type = IPPROTO_ICMPV6 then l4_ipv6_icmpv6 os i iph len ipe plen c
               else if IN6_IS_ADDR_MULTICAST ip6_dst then
                 let hlim = (if h ! 7 > 0 then h ! 7 - 1 else h ! 7); iph = iph[7 := hlim] in
                 if hlim = 0 then Inr (c\<lparr>c_stat_hlim_exceeded := c_stat_hlim_exceeded c + 1\<rparr>)
                 else l4_ipv6_multicast os i iph len c
               else Inr c))"

text \<open>IPv4 is looked at and never acted on in this build.\<close>

definition l3_ipv4 :: "bytes \<Rightarrow> conf \<Rightarrow> conf res" where
  "l3_ipv4 iph c =
     bindR (read_bytes iph 0 20) (\<lambda>h.
       if drop_bit 4 (h ! 0) \<noteq> 4 then Inr c
       else if h ! 0 AND 0x0f < 5 then Inr c
       else if take 4 (drop 12 h) = [0xc0, 0x58, 0x63, 0x01] \<or> drop 16 h = [0xc0, 0x58, 0x63, 0x01] then Inr c
       else Inr c)"

definition l2_ethtype :: "os \<Rightarrow> nat \<Rightarrow> bytes \<Rightarrow> nat \<Rightarrow> nat \<Rightarrow> conf \<Rightarrow> conf res" where
  "l2_ethtype os i packet len ether_type c =
     (if ether_type = 0x0800 then l3_ipv4 packet c
      else if ether_type = 0x86dd then l3_ipv6 os i packet (of_nat len) c
      else Inr c)"

text \<open>\<^verbatim>\<open>len\<close> is an \<^verbatim>\<open>unsigned int\<close>: of a frame shorter than its header it wraps around.\<close>

definition l2_eth :: "os \<Rightarrow> nat \<Rightarrow> bytes \<Rightarrow> u32 \<Rightarrow> conf \<Rightarrow> conf res" where
  "l2_eth os i eth len c =
     bindR (read_bytes eth 12 2) (\<lambda>t. l2_ethtype os i (drop 14 eth) (unat (len - 14)) (be_nat t) c)"

end
