(* ===== verification/Input_inv.thy ===== *)
theory Input_inv
  imports Mld_input
begin

text \<open>
  Every input handler keeps the state well formed. A handler may fault (its result is then no
  state); what is shown here is that no state it returns breaks the invariant.
\<close>

section \<open>Sending\<close>

lemma sendpacket6_quiet:
  assumes "sendpacket6 os i iph len c = Inr c'"
  shows "quiet c c'"
proof -
  have "40 \<le> length iph" "unat len \<le> length iph"
    using assms by (auto simp: sendpacket6_def bindR_Inr_iff)
  then obtain c1 where "sendpacket6 os i iph len c = Inr c1" "quiet c c1" by (rule sendpacket6_ok)
  with assms show ?thesis by simp
qed

lemma icmp6_send_quiet: "icmp6_send os i src type code data dlen c = Inr c' \<Longrightarrow> quiet c c'"
  using quiet_trans [OF sendpacket6_quiet quiet_count_icmp_sent]
  by (auto simp: icmp6_send_def Let_def bindR_Inr_iff)

lemma mld_send_report_all_wf: "mld_send_report_all os i mca c = Inr c' \<Longrightarrow> wf_conf c \<Longrightarrow> wf_conf c'"
  using mld_send_report_all_ok [of os i mca c] quiet_wf by auto

section \<open>The upstream update and expiry\<close>

lemma handle_upstream_no_routes:
  assumes "c_routes c = None"
  shows "handle_upstream_subscription os x c = Inl Null_deref"
proof (cases x)
  case (Some i)
  let ?c = "upd_int i (\<lambda>n. n\<lparr>in_upstream_socket := 0\<rparr>) c"
  obtain s c1 where f: "foldl (\<lambda>st sub. upstream_join os i sub st) (0, ?c) (subscriptions ?c) = (s, c1)" by fastforce
  then have "quiet ?c c1" using upstream_loop_quiet [of ?c os i 0 "subscriptions ?c"] by simp
  then have n: "c_routes c1 = None" using assms by (simp add: quiet_def)
  define c2 where "c2 = (if in_upstream_socket (int_at c i) \<noteq> 0 then emit (Close (in_upstream_socket (int_at c i))) c1 else c1)"
  have "c_routes c2 = None" using n by (simp add: c2_def)
  moreover have "handle_upstream_subscription os x c = expire_routes (c_mr6_fd c2) c2"
    by (simp add: handle_upstream_subscription_def Let_def f Some c2_def)
  ultimately show ?thesis by (simp add: expire_routes_def)
qed (simp add: handle_upstream_subscription_def)

lemma handle_upstream_settled:
  assumes "handle_upstream_subscription os x c = Inr c'"
  shows "settled c c'"
proof -
  obtain i where "x = Some i" using assms by (cases x) (simp_all add: handle_upstream_subscription_def)
  moreover have "c_routes c \<noteq> None" using assms handle_upstream_no_routes by fastforce
  ultimately show ?thesis using handle_upstream_ok [of c os i] assms by auto
qed

lemma handle_upstream_wf: "handle_upstream_subscription os x c = Inr c' \<Longrightarrow> wf_conf c \<Longrightarrow> wf_conf c'"
  using handle_upstream_settled settled_wf by blast

lemma wf_srcs_remove_nth: "wf_srcs l \<Longrightarrow> wf_srcs (remove_nth k l)"
proof (induction l arbitrary: k)
  case (Cons x l)
  have sub: "addrs (remove_nth k' l) \<subseteq> addrs l" for k'
    using set_remove_nth_subset [of k' l] by (auto simp: addrs_def set_elems)
  show ?case
    using Cons sub by (cases k; cases x) (auto dest: subsetD)
qed simp

lemma del_grpint_wf:
  assumes "wf_groups gs" and "g < length gs"
  shows "wf_groups (del_grpint g j gs)"
proof (cases "remove_nth j (g_interfaces (gs ! g)) = []")
  case True
  then show ?thesis using assms by (simp add: del_grpint_def wf_groups_remove)
next
  case False
  have "wf_group (gs ! g)" using assms wf_groups_nth by blast
  then have "wf_group ((gs ! g)\<lparr>g_interfaces := remove_nth j (g_interfaces (gs ! g))\<rparr>)"
    using False set_remove_nth_subset [of j "g_interfaces (gs ! g)"] unfolding wf_group_def
    by (auto simp: map_remove_nth distinct_remove_nth)
  then show ?thesis using assms False by (simp add: del_grpint_def Let_def wf_groups_update)
qed

lemma wf_conf_groups: "wf_conf c \<Longrightarrow> wf_groups gs \<Longrightarrow> wf_conf (c\<lparr>c_groups := gs\<rparr>)"
  by (simp add: wf_conf_def)

lemma remove_grpintn_wf:
  assumes "remove_grpintn g j c = (r, c')" and "wf_conf c" and "g < length (c_groups c)"
  shows "wf_conf c'"
  using assms remove_grpintn_alt [OF assms(3), of j] del_grpint_wf [of "c_groups c" g j]
  by (auto simp: wf_conf_def)

lemma wf_conf_upd_grpint:
  assumes "wf_conf c" and "valid_grpint c g j" and "gi_ifindex (f (grpint_at c g j)) = gi_ifindex (grpint_at c g j)"
    and "wf_grpint (f (grpint_at c g j))"
  shows "wf_conf (upd_grpint g j f c)"
  using assms wf_groups_upd_grpint [of c g j f] by (simp add: wf_conf_def)

lemma wf_node: "wf_conf c \<Longrightarrow> valid_grpint c g j \<Longrightarrow> wf_grpint (grpint_at c g j)"
  using wf_groups_nth wf_group_nth by (auto simp: wf_conf_def)

text \<open>
  Expiring a source and leaving EXCLUDE mode send no packet, and change nothing of the nodes behind
  the one they work on.
\<close>

fun is_Sendto :: "io \<Rightarrow> bool" where
  "is_Sendto (Sendto _ _ _) = True"
| "is_Sendto _ = False"

definition sends :: "conf \<Rightarrow> io list" where
  "sends c = filter is_Sendto (c_trace c)"

definition silent :: "conf \<Rightarrow> conf \<Rightarrow> bool" where
  "silent c c' \<longleftrightarrow> sends c' = sends c \<and> ints_kept c c' \<and> c_clock c' = c_clock c"

definition nodes_from :: "conf \<Rightarrow> nat \<Rightarrow> nat \<Rightarrow> grpintnode list" where
  "nodes_from c g j = drop j (g_interfaces (c_groups c ! g))"

text \<open>
  What may happen to the nodes of a group while one of them is worked on: it stays (0), it is unlinked
  and the others move up (1), or the group goes with it (2).
\<close>

definition node_outcome :: "nat \<Rightarrow> nat \<Rightarrow> nat \<Rightarrow> conf \<Rightarrow> conf \<Rightarrow> bool" where
  "node_outcome g j r c c' \<longleftrightarrow>
     (if r = 0 then length (c_groups c') = length (c_groups c) \<and> nodes_from c' g (Suc j) = nodes_from c g (Suc j)
        \<and> length (g_interfaces (c_groups c' ! g)) = length (g_interfaces (c_groups c ! g))
      else if r = 1 then length (c_groups c') = length (c_groups c) \<and> nodes_from c' g j = nodes_from c g (Suc j)
      else Suc (length (c_groups c')) = length (c_groups c))"

lemma node_outcome_same: "c_groups c' = c_groups c \<Longrightarrow> node_outcome g j 0 c c'"
  by (simp add: node_outcome_def nodes_from_def)

lemma node_outcome_upd: "g < length (c_groups c) \<Longrightarrow> node_outcome g j 0 c (upd_grpint g j f c)"
  by (auto simp: node_outcome_def nodes_from_def upd_grpint_groups)

lemma node_outcome_trans: "node_outcome g j 0 c d \<Longrightarrow> node_outcome g j r d c' \<Longrightarrow> node_outcome g j r c c'"
  by (auto simp: node_outcome_def split: if_splits)

lemma remove_grpintn_outcome:
  assumes "remove_grpintn g j c = (l, d)" and "valid_grpint c g j"
  shows "node_outcome g j (l + 1) c d" "l = 0 \<or> l = 1"
proof -
  have g: "g < length (c_groups c)" using assms(2) by simp
  show "l = 0 \<or> l = 1" using assms(1) by (auto simp: remove_grpintn_alt [OF g])
  have drop: "drop j (remove_nth j (g_interfaces (c_groups c ! g))) = drop (Suc j) (g_interfaces (c_groups c ! g))"
    using assms(2) by (simp add: remove_nth_def)
  show "node_outcome g j (l + 1) c d"
  proof (cases "remove_nth j (g_interfaces (c_groups c ! g)) = []")
    case True
    then show ?thesis using assms(1) g by (auto simp: remove_grpintn_alt [OF g] del_grpint_def Let_def node_outcome_def)
  next
    case False
    then show ?thesis using assms(1) g drop
      by (auto simp: remove_grpintn_alt [OF g] del_grpint_def Let_def node_outcome_def nodes_from_def)
  qed
qed

lemma node_outcome_groups: "node_outcome g j r c d \<Longrightarrow> c_groups c' = c_groups d \<Longrightarrow> node_outcome g j r c c'"
  by (auto simp: node_outcome_def nodes_from_def split: if_splits)

lemma silent_refl [simp]: "silent c c"
  by (simp add: silent_def)

lemma silent_trans: "silent a b \<Longrightarrow> silent b c \<Longrightarrow> silent a c"
  unfolding silent_def using ints_kept_trans by metis

lemma silent_groups [simp]: "silent c (c\<lparr>c_groups := gs\<rparr>)" "silent c (upd_group g h c)" "silent c (upd_grpint g j f c)"
  by (simp_all add: silent_def sends_def ints_kept_def)

lemma upstream_join_sends: "sends (snd (upstream_join os i sub (s, c))) = sends c"
proof -
  have j: "sends (snd (mcast_set_filter os s' u mca m l (snd (mcast_join_group os s' u mca d)))) = sends d" for d s' u mca m l
    unfolding join_filter_trace by (simp add: sends_def)
  have u: "c_upstream_id (snd (mcast_join_group os s' u mca d)) = c_upstream_id d" for s' u mca d
    by (simp add: mcast_join_group_def Let_def emit_def)
  show ?thesis by (simp add: upstream_join_def Let_def split_def j u) (simp add: sends_def)
qed

lemma upstream_loop_sends: "sends (snd (foldl (\<lambda>st sub. upstream_join os i sub st) (s, c) subs)) = sends c"
proof (induction subs arbitrary: s c)
  case (Cons sub subs)
  obtain s1 c1 where st: "upstream_join os i sub (s, c) = (s1, c1)" by fastforce
  then have "sends c1 = sends c" using upstream_join_sends [of os i sub s c] by simp
  then show ?case using Cons [of s1 c1] st by simp
qed simp

lemma expire_routes_sends:
  assumes "expire_routes fd c = Inr c'"
  shows "sends c' = sends c"
proof -
  obtain rs where rs: "c_routes c = Some rs" using assms by (auto simp: expire_routes_def split: option.splits)
  obtain keep calls where e: "expire_list (\<lambda>r. check_route (c_downstream_id c) (kr_src r) (kr_grp r) c) fd rs = (keep, calls)" by fastforce
  from expire_list_spec [OF this] obtain del where "calls = map (\<lambda>r :: kernel_route6. Mfc_del fd (kr_src r) (kr_grp r)) del" by blast
  then have "filter is_Sendto calls = []" by (simp add: filter_empty_conv)
  then show ?thesis using assms e by (auto simp: expire_routes_some [OF rs] sends_def)
qed

lemma handle_upstream_silent:
  assumes "handle_upstream_subscription os x c = Inr c'"
  shows "silent c c'"
proof -
  obtain i where x: "x = Some i" using assms by (cases x) (simp_all add: handle_upstream_subscription_def)
  let ?c = "upd_int i (\<lambda>n. n\<lparr>in_upstream_socket := 0\<rparr>) c"
  define c1 where "c1 = snd (foldl (\<lambda>st sub. upstream_join os i sub st) (0, ?c) (subscriptions ?c))"
  define c2 where "c2 = (if in_upstream_socket (int_at c i) \<noteq> 0 then emit (Close (in_upstream_socket (int_at c i))) c1 else c1)"
  have "handle_upstream_subscription os x c = expire_routes (c_mr6_fd c2) c2"
    by (simp add: handle_upstream_subscription_def Let_def split_def x c2_def c1_def)
  then have "sends c' = sends c2" using assms expire_routes_sends by metis
  moreover have "sends c2 = sends c1" by (simp add: c2_def sends_def)
  moreover have "sends c1 = sends c" using upstream_loop_sends [of os i 0 ?c] by (simp add: c1_def sends_def)
  ultimately show ?thesis
    using handle_upstream_settled [OF assms] by (simp add: silent_def settled_def calm_def)
qed

lemma expire_source_wf:
  assumes "expire_source os g j k src now c = Inr (r, c')" and "wf_conf c" and "valid_grpint c g j"
  shows "wf_conf c' \<and> silent c c' \<and> node_outcome g j r c c'"
proof -
  let ?c = "upd_grpint g j (\<lambda>gi. gi\<lparr>gi_includes := remove_nth k (gi_includes gi)\<rparr>) c"
  have w: "wf_conf ?c"
    by (rule wf_conf_upd_grpint [OF assms(2,3)]) (use wf_node [OF assms(2,3)] in \<open>simp_all add: wf_grpint_def wf_srcs_remove_nth\<close>)
  have g: "g < length (c_groups c)" and gc: "valid_grpint ?c g j" using assms(3) by (simp_all add: upd_grpint_groups)
  note up = node_outcome_upd [OF g, of j "\<lambda>gi. gi\<lparr>gi_includes := remove_nth k (gi_includes gi)\<rparr>"]
  consider "\<not> ms_timer src \<le> now" | "ms_timer src \<le> now" "gi_includes (grpint_at ?c g j) \<noteq> []"
    | "ms_timer src \<le> now" "gi_includes (grpint_at ?c g j) = []" by blast
  then show ?thesis
  proof cases
    case 1
    then show ?thesis using assms node_outcome_same by (simp add: expire_source_def)
  next
    case 2
    then have "expire_source os g j k src now c = Inr (0, ?c)"
      by (simp only: expire_source_def Let_def if_True if_False)
    then show ?thesis using assms(1) w up by simp
  next
    case 3
    obtain l d where rd: "remove_grpintn g j ?c = (l, d)" by fastforce
    have wd: "wf_conf d" using remove_grpintn_wf [OF rd w] g by simp
    have sd: "silent c d"
      using rd silent_trans [OF silent_groups(3) silent_groups(1)] g by (auto simp: remove_grpintn_alt)
    have o: "node_outcome g j (l + 1) c d" using remove_grpintn_outcome(1) [OF rd gc] node_outcome_trans [OF up] by blast
    have r: "r = l + 1" and h: "handle_upstream_subscription os (int_find (gi_ifindex (grpint_at ?c g j)) d) d = Inr c'"
      using assms(1) 3 rd by (auto simp: expire_source_def Let_def bindR_Inr_iff)
    have "node_outcome g j r c c'"
      using node_outcome_groups [OF o] handle_upstream_settled [OF h] by (simp add: r settled_def)
    then show ?thesis using handle_upstream_wf [OF h wd] silent_trans [OF sd handle_upstream_silent [OF h]] by blast
  qed
qed

lemma switch_to_include_wf:
  assumes "mld2_switch_to_include os g j c = Inr (r, c')" and "wf_conf c" and "valid_grpint c g j"
  shows "wf_conf c' \<and> silent c c' \<and> node_outcome g j (if gi_includes (grpint_at c g j) = [] then r + 1 else 0) c c'
    \<and> (gi_includes (grpint_at c g j) \<noteq> [] \<longrightarrow> r = 0) \<and> (r = 0 \<or> r = 1)"
proof -
  let ?c = "upd_grpint g j (\<lambda>gi. gi\<lparr>gi_filter_mode := MLD2_MODE_IS_INCLUDE\<rparr>) c"
  have w: "wf_conf ?c"
    by (rule wf_conf_upd_grpint [OF assms(2,3)]) (use wf_node [OF assms(2,3)] in \<open>simp_all add: wf_grpint_def\<close>)
  obtain c2 where c2: "handle_upstream_subscription os (int_find (gi_ifindex (grpint_at ?c g j)) ?c) ?c = Inr c2"
    "(if gi_includes (grpint_at c2 g j) = [] then remove_grpintn g j c2 else (0, c2)) = (r, c')"
    using assms(1) unfolding mld2_switch_to_include_def Let_def bindR_Inr_iff by (auto split: if_splits)
  have w2: "wf_conf c2" using handle_upstream_wf [OF c2(1) w] .
  have s2: "silent c c2" using silent_trans [OF silent_groups(3) handle_upstream_silent [OF c2(1)]] .
  have gs: "c_groups c2 = c_groups ?c" using handle_upstream_settled [OF c2(1)] by (simp add: settled_def)
  then have i: "gi_includes (grpint_at c2 g j) = gi_includes (grpint_at c g j)" and val: "valid_grpint c2 g j"
    using assms(3) by (simp_all add: upd_grpint_gi upd_grpint_groups)
  have g: "g < length (c_groups c2)" using val by simp
  have o: "node_outcome g j 0 c c2"
    using node_outcome_upd [of g c j "\<lambda>gi. gi\<lparr>gi_filter_mode := MLD2_MODE_IS_INCLUDE\<rparr>"] assms(3) gs by (simp add: node_outcome_def nodes_from_def)
  show ?thesis
  proof (cases "gi_includes (grpint_at c g j) = []")
    case True
    then have rm: "remove_grpintn g j c2 = (r, c')" using c2(2) i by simp
    have "silent c c'" using rm silent_trans [OF s2 silent_groups(1)] by (auto simp: remove_grpintn_alt [OF g])
    then show ?thesis
      using True remove_grpintn_wf [OF rm w2 g] remove_grpintn_outcome [OF rm val] node_outcome_trans [OF o] by simp
  next
    case False
    then show ?thesis using c2(2) i w2 s2 o by simp
  qed
qed

section \<open>Expiry in general\<close>

lemma node_outcome_0:
  assumes "node_outcome g j 0 c c'" and "valid_grpint c g j"
  shows "valid_grpint c' g j" "length (c_groups c') = length (c_groups c)"
  using assms by (simp_all add: node_outcome_def)

lemma expire_includes_wf:
  assumes "expire_includes n os g j k now c = Inr (r, c')" and "wf_conf c" and "valid_grpint c g j"
  shows "wf_conf c' \<and> node_outcome g j r c c'"
  using assms
proof (induction n arbitrary: k c)
  case 0
  then show ?case using node_outcome_same by simp
next
  case (Suc n)
  show ?case
  proof (cases "gi_includes (grpint_at c g j) ! k")
    case None
    then show ?thesis using Suc by simp
  next
    case (Some src)
    then obtain r1 c1 where e: "expire_source os g j k src now c = Inr (r1, c1)"
      "(if r1 \<noteq> 0 then Inr (r1, c1) else expire_includes n os g j (if ms_timer src \<le> now then k else Suc k) now c1) = Inr (r, c')"
      using Suc.prems(1) by (auto simp: bindR_Inr_iff)
    note x = expire_source_wf [OF e(1) Suc.prems(2,3)]
    show ?thesis
    proof (cases "r1 = 0")
      case True
      then have o: "node_outcome g j 0 c c1" and "wf_conf c1" using x by simp_all
      moreover have "expire_includes n os g j (if ms_timer src \<le> now then k else Suc k) now c1 = Inr (r, c')" using e(2) True by simp
      ultimately show ?thesis using Suc.IH node_outcome_0(1) [OF o Suc.prems(3)] node_outcome_trans [OF o] by blast
    qed (use e(2) x in auto)
  qed
qed

lemma expire_source_code: "expire_source os g j k src now c = Inr (r, c') \<Longrightarrow> r = 0 \<or> r = 1 \<or> r = 2"
  by (auto simp: expire_source_def Let_def remove_grpintn_def bindR_Inr_iff split: if_splits prod.splits)

lemma expire_includes_code: "expire_includes n os g j k now c = Inr (r, c') \<Longrightarrow> r = 0 \<or> r = 1 \<or> r = 2"
proof (induction n arbitrary: k c)
  case (Suc n)
  then show ?case using expire_source_code
    by (auto simp: bindR_Inr_iff simp del: One_nat_def split: option.splits if_splits) blast+
qed simp

text \<open>A group is still there after its interfaces were visited, or was removed and counted.\<close>

lemma expire_interfaces_wf:
  assumes "expire_interfaces n os g j now c = Inr (gone, c')" and "wf_conf c" and "g < length (c_groups c)"
    and "length (nodes_from c g j) = n"
  shows "wf_conf c' \<and> length (c_groups c') = (if gone then length (c_groups c) - 1 else length (c_groups c))"
  using assms
proof (induction n arbitrary: j c)
  case (Suc n)
  let ?gi = "grpint_at c g j"
  have j: "j < length (g_interfaces (c_groups c ! g))" and n: "length (nodes_from c g (Suc j)) = n"
    using Suc.prems(4) by (auto simp: nodes_from_def)
  have val: "valid_grpint c g j" using Suc.prems(3) j by simp
  have rest: ?case if "expire_interfaces n os g k now d = Inr (gone, c')" "wf_conf d" "length (c_groups d) = length (c_groups c)"
      "nodes_from d g k = nodes_from c g (Suc j)" for k d
    using Suc.IH [OF that(1,2)] that(3,4) n Suc.prems(3) by simp
  consider "gi_filter_mode ?gi = 1" | "gi_filter_mode ?gi \<noteq> 1" "uint (gi_filter_timer ?gi) \<le> now"
    | "gi_filter_mode ?gi \<noteq> 1" "\<not> uint (gi_filter_timer ?gi) \<le> now" by blast
  then show ?case
  proof cases
    case 1
    then obtain r d where e: "expire_includes (length (gi_includes ?gi)) os g j 0 now c = Inr (r, d)"
      "(if r = 2 then Inr (True, d) else expire_interfaces n os g (if r = 1 then j else Suc j) now d) = Inr (gone, c')"
      using Suc.prems(1) by (auto simp: Let_def bindR_Inr_iff)
    note x = expire_includes_wf [OF e(1) Suc.prems(2) val]
    have "r = 0 \<or> r = 1 \<or> r = 2" by (rule expire_includes_code [OF e(1)])
    then show ?thesis using e(2) x rest [of "if r = 1 then j else Suc j" d] by (auto simp: node_outcome_def split: if_splits)
  next
    case 2
    then obtain r d where e: "mld2_switch_to_include os g j c = Inr (r, d)"
      "(if r \<noteq> 0 then Inr (True, d) else expire_interfaces n os g (if gi_includes ?gi = [] then j else Suc j) now d) = Inr (gone, c')"
      using Suc.prems(1) by (auto simp: Let_def bindR_Inr_iff)
    note x = switch_to_include_wf [OF e(1) Suc.prems(2) val]
    show ?thesis using e(2) x rest [of "if gi_includes ?gi = [] then j else Suc j" d]
      by (auto simp: node_outcome_def split: if_splits)
  next
    case 3
    then show ?thesis using Suc.prems(1,2) rest [of "Suc j" c] by simp
  qed
qed simp

lemma expire_groups_wf:
  assumes "expire_groups n os g now c = Inr c'" and "wf_conf c" and "g + n = length (c_groups c)"
  shows "wf_conf c'"
  using assms
proof (induction n arbitrary: g c)
  case (Suc n)
  then obtain gone d where e: "expire_interfaces (length (g_interfaces (c_groups c ! g))) os g 0 now c = Inr (gone, d)"
    "expire_groups n os (if gone then g else Suc g) now d = Inr c'" by (auto simp: bindR_Inr_iff)
  have "wf_conf d \<and> length (c_groups d) = (if gone then length (c_groups c) - 1 else length (c_groups c))"
    by (rule expire_interfaces_wf [OF e(1)]) (use Suc.prems in \<open>simp_all add: nodes_from_def\<close>)
  then show ?case using Suc.IH [OF e(2)] Suc.prems(3) by (auto split: if_splits)
qed simp

lemma expire_sources_wf: "expire_sources os c = Inr c' \<Longrightarrow> wf_conf c \<Longrightarrow> wf_conf c'"
  using expire_groups_wf [of "length (c_groups c)" os 0 "c_clock c" c c'] by (simp add: expire_sources_def)

section \<open>Reports and queries\<close>

lemma mld1_report_wf:
  assumes "l4_ipv6_icmpv6_mld1_report os i mem off c = Inr c'" and "wf_conf c"
  shows "wf_conf c'"
proof -
  let ?c = "int_set_mld_version i 1 c" and ?mca = "be_word (take 16 (drop (off + 8) mem)) :: in6_addr"
  have w: "wf_conf ?c" using assms(2) by (rule int_set_mld_version_wf)
  obtain g j isnew c1 where gi: "groupint_get os ?mca i ?c = ((g, j), isnew, c1)" by (metis prod_cases3 prod.exhaust)
  have "wf_conf c1" using groupint_get_wf [OF w gi] .
  then show ?thesis
    using assms(1) w gi mld_send_report_all_wf
    by (auto simp: l4_ipv6_icmpv6_mld1_report_def Let_def bindR_Inr_iff split: if_splits option.splits)
qed

lemma mld1_reduction_wf: "l4_ipv6_icmpv6_mld1_reduction i mem off c = Inr c' \<Longrightarrow> wf_conf c \<Longrightarrow> wf_conf c'"
  using int_set_mld_version_wf [of c i 1]
  by (auto simp: l4_ipv6_icmpv6_mld1_reduction_def Let_def bindR_Inr_iff split: if_splits option.splits)

lemma read_sources_adds:
  "read_sources n mem src r = Inr r' \<Longrightarrow> \<exists>as. length as = n \<and> r' = mrec_add_sources r as"
proof (induction n arbitrary: src r)
  case (Suc n)
  then obtain as where "length as = n" "r' = mrec_add_sources (the (snd (mrec_add_source_addr (Some r) (be_word (take 16 (drop src mem)))))) as"
    by (fastforce simp: bindR_Inr_iff)
  then show ?case by (intro exI [of _ "be_word (take 16 (drop src mem)) # as"]) simp
qed simp

lemma sources_ok_create [simp]: "sources_ok (mr_source_list (mrec_create mca m))"
  by (simp add: sources_ok_def mrec_create_def)

lemma read_sources_wf:
  assumes "read_sources n mem src (mrec_create mca m) = Inr r"
  shows "wf_srcs (mr_source_list r)"
  using read_sources_adds [OF assms] mrec_add_sources_facts [OF sources_ok_create] by (auto simp: sources_ok_def)

lemma downstream_wf:
  assumes "handle_downstream_subscription os i r c = Inr c'" and "wf_conf c" and "wf_srcs (mr_source_list r)"
  shows "wf_conf c'"
  using handle_downstream_result [OF assms(2,3), of os i] assms(1) by auto

lemma mld2_record_wf: "mld2_record mem off plen grec = Inr (Some (r, next)) \<Longrightarrow> wf_srcs (mr_source_list r)"
  by (auto simp: mld2_record_def Let_def bindR_Inr_iff split: if_splits dest: read_sources_wf)

lemma mld2_records_wf:
  "mld2_records n os i mem off plen grec hu c = Inr (hu', c') \<Longrightarrow> wf_conf c \<Longrightarrow> wf_conf c'"
proof (induction n arbitrary: grec hu c)
  case (Suc n)
  then show ?case using downstream_wf mld2_record_wf
    by (auto simp: bindR_Inr_iff split: option.splits)
qed simp

lemma mld2_report_wf:
  assumes "l4_ipv6_icmpv6_mld2_report os i mem off plen c = Inr c'" and "wf_conf c"
  shows "wf_conf c'"
proof -
  have w: "wf_conf (int_set_mld_version i 2 c)" using assms(2) by (rule int_set_mld_version_wf)
  show ?thesis using assms(1) w mld2_records_wf [OF _ w]
    by (auto simp: l4_ipv6_icmpv6_mld2_report_def Let_def bindR_Inr_iff split: if_splits
        dest!: handle_upstream_wf expire_routes_wf)
qed

lemma mld_query_wf:
  assumes "l4_ipv6_icmpv6_mld_query os i plen c = Inr c'" and "wf_conf c"
  shows "wf_conf c'"
proof -
  define c1 where "c1 = int_set_mld_version i (if plen = 24 then 1 else 2) c"
  have w: "wf_conf c1" unfolding c1_def using assms(2) by (rule int_set_mld_version_wf)
  let ?f = "\<lambda>(mca, gi) c. if gi_ifindex gi \<noteq> in_ifindex (int_at c i) then Inr c else mld_send_report os i mca c"
  have "\<exists>c2. ?f x d = Inr c2 \<and> quiet d c2" for x d using mld_send_report_ok by (cases x) auto
  then have "\<exists>c2. foldR ?f (subscriptions c1) c1 = Inr c2 \<and> quiet c1 c2" by (rule foldR_quiet)
  then show ?thesis
    using assms(1) w quiet_wf unfolding l4_ipv6_icmpv6_mld_query_def Let_def c1_def [symmetric]
    by (auto simp: mld2_send_report_idle split: if_splits)
qed

end
