(* ===== verification/Forwarding.thy ===== *)
theory Forwarding
  imports Input_inv
begin

text \<open>
  What \<^verbatim>\<open>l4_ipv6_multicast\<close> of \<^verbatim>\<open>src/ecmh.c\<close> does with a packet: it goes out at most once, to an interface that wants
  it, and the state stays well formed.
\<close>

section \<open>Which nodes want a packet\<close>

definition grpint_accepts :: "time_t \<Rightarrow> in6_addr \<Rightarrow> grpintnode \<Rightarrow> bool" where
  "grpint_accepts now src gi \<longleftrightarrow> (if gi_filter_mode gi = MLD2_MODE_IS_INCLUDE then src \<in> addrs (gi_includes gi)
     else now < uint (gi_filter_timer gi) \<and> src \<notin> addrs (gi_excludes gi))"

lemma elem_matches_msrc: "elem_matches (Some msrc_cmp) (msrc_create a t) x \<longleftrightarrow> (\<exists>s. x = Some s \<and> ms_addr s = a)"
  by (auto simp: elem_matches_def msrc_cmp_def msrc_create_def split: option.splits)

lemma src_position_None: "src_position l a = None \<longleftrightarrow> a \<notin> addrs l"
  unfolding src_position_def index_of_None elem_matches_msrc by (force simp: addrs_iff set_elems)

lemma src_position_Some:
  assumes "src_position l a = Some k"
  shows "k < length l \<and> (\<exists>s. l ! k = Some s \<and> ms_addr s = a) \<and> a \<in> addrs l"
proof -
  have "a \<in> addrs l" using assms src_position_None [of l a] by auto
  then show ?thesis
    using index_of_SomeD [OF assms [unfolded src_position_def]] unfolding elem_matches_msrc by auto
qed

lemma nodes_from_Cons:
  assumes "length (nodes_from c g j) = Suc n"
  shows "nodes_from c g j = grpint_at c g j # nodes_from c g (Suc j)" "length (nodes_from c g (Suc j)) = n"
    "j < length (g_interfaces (c_groups c ! g))"
  using assms by (auto simp: nodes_from_def Cons_nth_drop_Suc)

section \<open>The loop\<close>

text \<open>How a packet leaves: nothing is sent, or one packet to one of the nodes.\<close>

definition forwarded :: "nat \<Rightarrow> in6_addr \<Rightarrow> bytes \<Rightarrow> u16 \<Rightarrow> grpintnode set \<Rightarrow> conf \<Rightarrow> conf \<Rightarrow> bool" where
  "forwarded i src iph len nodes c c' \<longleftrightarrow> sends c' = sends c
     \<or> (\<exists>gi \<in> nodes. gi_ifindex gi \<noteq> in_ifindex (int_at c i) \<and> grpint_accepts (c_clock c) src gi
          \<and> sends c' = sends c @ [Sendto (gi_ifindex gi) (eth_multicast (take 16 (drop 24 iph))) (take (unat len) iph)])"

lemma forwarded_mono: "forwarded i src iph len A c c' \<Longrightarrow> A \<subseteq> B \<Longrightarrow> forwarded i src iph len B c c'"
  unfolding forwarded_def by blast

lemma forwarded_silent: "silent c d \<Longrightarrow> forwarded i src iph len A d c' \<Longrightarrow> forwarded i src iph len A c c'"
  unfolding forwarded_def silent_def ints_kept_def by metis

lemma sendpacket6_forwards:
  assumes "sendpacket6 os k iph len c = Inr c'" and "int_find (gi_ifindex gi) c = Some k" and "wf_conf c"
  shows "quiet c c'" "sends c' = sends c @ [Sendto (gi_ifindex gi) (eth_multicast (take 16 (drop 24 iph))) (take (unat len) iph)]"
proof -
  show "quiet c c'" using assms(1) by (rule sendpacket6_quiet)
  have "40 \<le> length iph" "unat len \<le> length iph"
    using assms(1) by (auto simp: sendpacket6_def bindR_Inr_iff)
  then obtain c1 where "sendpacket6 os k iph len c = Inr c1"
    "c_trace c1 = c_trace c @ [Sendto (in_ifindex (int_at c k)) (eth_multicast (take 16 (drop 24 iph))) (take (unat len) iph)]"
    by (rule sendpacket6_ok)
  moreover have "in_ifindex (int_at c k) = gi_ifindex gi"
    using int_find_Some [OF assms(2)] assms(3) by (simp add: wf_conf_def wf_ints_def)
  ultimately show "sends c' = sends c @ [Sendto (gi_ifindex gi) (eth_multicast (take 16 (drop 24 iph))) (take (unat len) iph)]"
    using assms(1) by (simp add: sends_def)
qed

text \<open>From a node that is passed over, the rest of the loop decides.\<close>

lemma forward_rest:
  assumes "silent c d" and "wf_conf c' \<and> forwarded i src iph len (set (nodes_from d g k)) d c'"
    and "nodes_from d g k = nodes_from c g (Suc j)" and "length (nodes_from c g j) = Suc n"
  shows "wf_conf c' \<and> forwarded i src iph len (set (nodes_from c g j)) c c'"
  using assms forwarded_mono [OF forwarded_silent [OF assms(1)], of i src iph len "set (nodes_from d g k)" c']
    nodes_from_Cons(1) [OF assms(4)] by (metis set_subset_Cons)

text \<open>Sending to the interface of a node that accepts the packet, or going on when the interface is gone.\<close>

lemma forward_send:
  assumes "(case int_find (gi_ifindex gi) d of None \<Rightarrow> rest | Some k \<Rightarrow> sendpacket6 os k iph len d) = Inr c'"
    and "silent c d" and "wf_conf d" and "gi \<in> nodes" and "in_ifindex (int_at c i) \<noteq> gi_ifindex gi" and "grpint_accepts (c_clock c) src gi"
    and "rest = Inr c' \<Longrightarrow> wf_conf c' \<and> forwarded i src iph len nodes c c'"
  shows "wf_conf c' \<and> forwarded i src iph len nodes c c'"
proof (cases "int_find (gi_ifindex gi) d")
  case None
  then show ?thesis using assms(1,7) by simp
next
  case (Some k)
  then have "sendpacket6 os k iph len d = Inr c'" using assms(1) by simp
  note f = sendpacket6_forwards [OF this Some assms(3)]
  have "sends d = sends c" using assms(2) by (simp add: silent_def)
  then have "forwarded i src iph len nodes c c'"
    unfolding forwarded_def f(2) by (intro disjI2 bexI [of _ gi] conjI assms(4,6) not_sym [OF assms(5)]) simp
  then show ?thesis using quiet_wf [OF f(1) assms(3)] by blast
qed

text \<open>
  One round of the loop: it ends because the group is gone, the node is passed over, or the node accepts the packet. Up to then nothing was sent,
  and the nodes still to visit are the ones behind this one.
\<close>

lemma forward_loop_step:
  assumes "forward_loop (Suc n) os i g j src iph len c = Inr c'" and "wf_conf c" and "valid_grpint c g j"
  obtains (ended) "silent c c'" "wf_conf c'"
    | (passed) d k where "forward_loop n os i g k src iph len d = Inr c'" "silent c d" "wf_conf d"
        "length (c_groups d) = length (c_groups c)" "nodes_from d g k = nodes_from c g (Suc j)"
    | (accepted) d where "(case int_find (gi_ifindex (grpint_at c g j)) d of None \<Rightarrow> forward_loop n os i g (Suc j) src iph len d
          | Some k \<Rightarrow> sendpacket6 os k iph len d) = Inr c'" "silent c d" "wf_conf d"
        "length (c_groups d) = length (c_groups c)" "nodes_from d g (Suc j) = nodes_from c g (Suc j)"
        "in_ifindex (int_at c i) \<noteq> gi_ifindex (grpint_at c g j)" "grpint_accepts (c_clock c) src (grpint_at c g j)"
proof -
  let ?gi = "grpint_at c g j" and ?now = "c_clock c"
  note loop = assms(1)
  consider (own) "in_ifindex (int_at c i) = gi_ifindex ?gi"
    | (incl) "in_ifindex (int_at c i) \<noteq> gi_ifindex ?gi" "gi_filter_mode ?gi = 1"
    | (over) "in_ifindex (int_at c i) \<noteq> gi_ifindex ?gi" "gi_filter_mode ?gi \<noteq> 1" "uint (gi_filter_timer ?gi) \<le> ?now"
    | (excl) "in_ifindex (int_at c i) \<noteq> gi_ifindex ?gi" "gi_filter_mode ?gi \<noteq> 1" "\<not> uint (gi_filter_timer ?gi) \<le> ?now"
    by blast
  then show thesis
  proof cases
    case own
    then show ?thesis using loop assms(2) by (intro passed [of "Suc j" c]) simp_all
  next
    case incl
    show ?thesis
    proof (cases "src_position (gi_includes ?gi) src")
      case None
      then show ?thesis using loop incl assms(2) by (intro passed [of "Suc j" c]) simp_all
    next
      case (Some k)
      then obtain r d where e: "expire_source os g j k (the (gi_includes ?gi ! k)) ?now c = Inr (r, d)"
        "(if r \<noteq> 0 then Inr d else (case int_find (gi_ifindex ?gi) d of None \<Rightarrow> forward_loop n os i g (Suc j) src iph len d
            | Some k \<Rightarrow> sendpacket6 os k iph len d)) = Inr c'"
        using loop incl by (auto simp: Let_def bindR_Inr_iff)
      note x = expire_source_wf [OF e(1) assms(2,3)]
      have "grpint_accepts ?now src ?gi" using incl src_position_Some [OF Some] by (simp add: grpint_accepts_def)
      then show ?thesis using e(2) x incl(1) ended accepted [of d] by (cases "r = 0") (auto simp: node_outcome_def)
    qed
  next
    case over
    then obtain r d where e: "mld2_switch_to_include os g j c = Inr (r, d)"
      "(if r \<noteq> 0 then Inr d else forward_loop n os i g (if gi_includes ?gi = [] then j else Suc j) src iph len d) = Inr c'"
      using loop by (auto simp: Let_def bindR_Inr_iff)
    then show ?thesis using switch_to_include_wf [OF e(1) assms(2,3)] ended passed [of _ d]
      by (cases "r = 0") (auto simp: node_outcome_def split: if_splits)
  next
    case excl
    then show ?thesis
      using loop assms(2) passed [of "Suc j" c] accepted [of c] by (auto simp: Let_def grpint_accepts_def split: if_splits)
  qed
qed

lemma forward_loop_inv:
  assumes "forward_loop n os i g j src iph len c = Inr c'" and "wf_conf c" and "g < length (c_groups c)"
    and "length (nodes_from c g j) = n"
  shows "wf_conf c' \<and> forwarded i src iph len (set (nodes_from c g j)) c c'"
  using assms
proof (induction n arbitrary: j c)
  case 0
  then show ?case by (simp add: forwarded_def)
next
  case (Suc n)
  note cons = nodes_from_Cons [OF Suc.prems(4)]
  have "valid_grpint c g j" using Suc.prems(3) cons(3) by simp
  have on: ?case if "forward_loop n os i g k src iph len d = Inr c'" "silent c d" "wf_conf d"
      "length (c_groups d) = length (c_groups c)" "nodes_from d g k = nodes_from c g (Suc j)" for k d
    using forward_rest [OF that(2) Suc.IH [OF that(1,3)] that(5) Suc.prems(4)] that(4,5) cons(2) Suc.prems(3) by simp
  from Suc.prems(1,2) \<open>valid_grpint c g j\<close> show ?case
  proof (cases rule: forward_loop_step)
    case ended
    then show ?thesis by (simp add: forwarded_def silent_def)
  next
    case (passed d k)
    then show ?thesis by (rule on)
  next
    case (accepted d)
    have "grpint_at c g j \<in> set (nodes_from c g j)" by (simp add: cons(1))
    with accepted(1-3) show ?thesis using accepted(6,7) by (rule forward_send) (rule on [OF _ accepted(2-5)])
  qed
qed

section \<open>Forwarding a packet\<close>

abbreviation pkt_src :: "bytes \<Rightarrow> in6_addr" where "pkt_src iph \<equiv> be_word (take 16 (drop 8 iph))"
abbreviation pkt_dst :: "bytes \<Rightarrow> in6_addr" where "pkt_dst iph \<equiv> be_word (take 16 (drop 24 iph))"

definition count_packet :: "u16 \<Rightarrow> groupnode \<Rightarrow> groupnode" where
  "count_packet len gr = gr\<lparr>g_bytes := g_bytes gr + ucast len, g_packets := g_packets gr + 1\<rparr>"

lemma count_packet_simps [simp]: "g_mca (count_packet len gr) = g_mca gr" "g_interfaces (count_packet len gr) = g_interfaces gr"
  "wf_group (count_packet len gr) = wf_group gr"
  by (simp_all add: count_packet_def wf_group_def)

lemma count_packet_wf: "wf_conf c \<Longrightarrow> g < length (c_groups c) \<Longrightarrow> wf_conf (upd_group g (count_packet len) c)"
  by (simp add: wf_conf_def upd_group_def wf_groups_update wf_groups_nth)

lemma multicast_unfold:
  assumes "40 \<le> length iph"
  shows "l4_ipv6_multicast os i iph len c =
    (if unroutable (pkt_src iph) (pkt_dst iph) then Inr c
     else (case group_find (pkt_dst iph) c of None \<Rightarrow> Inr c
       | Some g \<Rightarrow> forward_loop (length (g_interfaces (c_groups c ! g))) os i g 0 (pkt_src iph) iph len (upd_group g (count_packet len) c)))"
proof -
  have h: "read_bytes iph 0 40 = Inr (take 40 iph)" using assms by simp
  have t: "take 16 (drop 8 (take 40 iph)) = take 16 (drop 8 iph)" "drop 24 (take 40 iph) = take 16 (drop 24 iph)"
    by (simp_all add: drop_take)
  have "g_interfaces (c_groups (upd_group g (count_packet len) c) ! g) = g_interfaces (c_groups c ! g)" if "group_find (pkt_dst iph) c = Some g" for g
    using group_find_SomeD [OF that] by (simp add: upd_group_def)
  then show ?thesis
    unfolding l4_ipv6_multicast_def h bindR_simps t Let_def
    by (auto simp: count_packet_def [abs_def] split: option.splits)
qed

lemma group_nodes_subscribed:
  assumes "group_find mca c = Some g" and "gi \<in> set (g_interfaces (c_groups c ! g))"
  shows "(mca, gi) \<in> set (subscriptions c)"
  using group_find_SomeD [OF assms(1)] assms(2) nth_mem [of g "c_groups c"] by (fastforce simp: subscriptions_def)

lemma multicast_keeps:
  assumes "l4_ipv6_multicast os i iph len c = Inr c'" and "wf_conf c"
  shows "wf_conf c' \<and> (sends c' = sends c
    \<or> \<not> unroutable (pkt_src iph) (pkt_dst iph)
      \<and> forwarded i (pkt_src iph) iph len {gi. (pkt_dst iph, gi) \<in> set (subscriptions c)} c c')"
proof -
  have len: "40 \<le> length iph" using assms(1) by (auto simp: l4_ipv6_multicast_def bindR_Inr_iff)
  show ?thesis
  proof (cases "unroutable (pkt_src iph) (pkt_dst iph) \<or> group_find (pkt_dst iph) c = None")
    case True
    then show ?thesis using assms unfolding multicast_unfold [OF len] by (auto split: if_splits)
  next
    case False
    then obtain g where g: "group_find (pkt_dst iph) c = Some g" by auto
    let ?d = "upd_group g (count_packet len) c"
    have gl: "g < length (c_groups c)" using group_find_SomeD [OF g] by simp
    then have same: "nodes_from ?d g 0 = g_interfaces (c_groups c ! g)" by (simp add: nodes_from_def upd_group_def)
    have l: "forward_loop (length (g_interfaces (c_groups c ! g))) os i g 0 (pkt_src iph) iph len ?d = Inr c'"
      using assms(1) False g unfolding multicast_unfold [OF len] by simp
    have f: "wf_conf c' \<and> forwarded i (pkt_src iph) iph len (set (nodes_from ?d g 0)) ?d c'"
      by (rule forward_loop_inv [OF l count_packet_wf [OF assms(2) gl]]) (use gl same in simp_all)
    have "set (nodes_from ?d g 0) \<subseteq> {gi. (pkt_dst iph, gi) \<in> set (subscriptions c)}"
      using group_nodes_subscribed [OF g] same by auto
    then show ?thesis
      using False f forwarded_mono [OF forwarded_silent [OF silent_groups(2)], OF conjunct2 [OF f]] by simp
  qed
qed

section \<open>The first interface gets it\<close>

text \<open>A node that the loop passes over without changing anything.\<close>

definition passed_over :: "ifindex \<Rightarrow> time_t \<Rightarrow> in6_addr \<Rightarrow> grpintnode \<Rightarrow> bool" where
  "passed_over own now src gi \<longleftrightarrow> gi_ifindex gi = own
     \<or> (if gi_filter_mode gi = MLD2_MODE_IS_INCLUDE then src \<notin> addrs (gi_includes gi)
        else now < uint (gi_filter_timer gi) \<and> src \<in> addrs (gi_excludes gi))"

text \<open>A node that the packet goes to: in INCLUDE mode the timer of the source still runs.\<close>

definition served :: "ifindex \<Rightarrow> time_t \<Rightarrow> in6_addr \<Rightarrow> grpintnode \<Rightarrow> bool" where
  "served own now src gi \<longleftrightarrow> gi_ifindex gi \<noteq> own \<and> grpint_accepts now src gi
     \<and> (gi_filter_mode gi = MLD2_MODE_IS_INCLUDE \<longrightarrow> (\<forall>s \<in> set (elems (gi_includes gi)). ms_addr s = src \<longrightarrow> now < ms_timer s))"

lemma forward_loop_pass:
  assumes "passed_over (in_ifindex (int_at c i)) (c_clock c) src (grpint_at c g j)"
  shows "forward_loop (Suc n) os i g j src iph len c = forward_loop n os i g (Suc j) src iph len c"
  using assms src_position_None [of "gi_includes (grpint_at c g j)" src]
  by (auto simp: passed_over_def Let_def split: if_splits option.splits)

lemma forward_loop_serve:
  assumes "served (in_ifindex (int_at c i)) (c_clock c) src (grpint_at c g j)"
    and "int_find (gi_ifindex (grpint_at c g j)) c = Some k"
  shows "forward_loop (Suc n) os i g j src iph len c = sendpacket6 os k iph len c"
proof (cases "gi_filter_mode (grpint_at c g j) = 1")
  case True
  let ?l = "gi_includes (grpint_at c g j)"
  obtain p where p: "src_position ?l src = Some p"
    using assms(1) True src_position_None [of ?l src] by (auto simp: served_def grpint_accepts_def)
  obtain s where s: "?l ! p = Some s" "ms_addr s = src" "p < length ?l" using src_position_Some [OF p] by blast
  then have "s \<in> set (elems ?l)" using nth_mem [of p ?l] by (simp add: set_elems)
  then have "\<not> ms_timer s \<le> c_clock c" using assms(1) True s(2) unfolding served_def by fastforce
  then have "expire_source os g j p s (c_clock c) c = Inr (0, c)" by (simp add: expire_source_def)
  then show ?thesis using assms True p s(1) by (simp add: served_def)
next
  case False
  then show ?thesis using assms by (auto simp: served_def grpint_accepts_def Let_def)
qed

lemma forward_loop_first:
  assumes "g_interfaces (c_groups c ! g) = pre0 @ pre @ gi # post"
    and "\<forall>x \<in> set pre. passed_over (in_ifindex (int_at c i)) (c_clock c) src x"
    and "served (in_ifindex (int_at c i)) (c_clock c) src gi" and "int_find (gi_ifindex gi) c = Some k"
  shows "forward_loop (length pre + Suc n) os i g (length pre0) src iph len c = sendpacket6 os k iph len c"
  using assms
proof (induction pre arbitrary: pre0)
  case Nil
  then show ?case using forward_loop_serve [of c i src g "length pre0" k n] by (simp del: forward_loop.simps)
next
  case (Cons x pre)
  have "forward_loop (length pre + Suc n) os i g (length (pre0 @ [x])) src iph len c = sendpacket6 os k iph len c"
    by (rule Cons.IH) (use Cons.prems in simp_all)
  moreover have "passed_over (in_ifindex (int_at c i)) (c_clock c) src (grpint_at c g (length pre0))"
    using Cons.prems(1,2) by simp
  ultimately show ?case using forward_loop_pass [of c i src g "length pre0" "length pre + Suc n"]
    by (simp del: forward_loop.simps)
qed

lemma multicast_first:
  assumes "wf_conf c" and "40 \<le> length iph" and "unat len \<le> length iph"
    and "\<not> unroutable (pkt_src iph) (pkt_dst iph)" and "group_find (pkt_dst iph) c = Some g"
    and "g_interfaces (c_groups c ! g) = pre @ gi # post"
    and "\<forall>x \<in> set pre. passed_over (in_ifindex (int_at c i)) (c_clock c) (pkt_src iph) x"
    and "served (in_ifindex (int_at c i)) (c_clock c) (pkt_src iph) gi" and "int_find (gi_ifindex gi) c \<noteq> None"
  shows "\<exists>c'. l4_ipv6_multicast os i iph len c = Inr c'
    \<and> c_trace c' = c_trace c @ [Sendto (gi_ifindex gi) (eth_multicast (take 16 (drop 24 iph))) (take (unat len) iph)]"
proof -
  let ?d = "upd_group g (count_packet len) c"
  obtain k where k: "int_find (gi_ifindex gi) c = Some k" using assms(9) by auto
  then have kd: "int_find (gi_ifindex gi) ?d = Some k" by (simp add: int_find_def)
  have ifs: "g_interfaces (c_groups ?d ! g) = pre @ gi # post"
    using assms(6) group_find_SomeD [OF assms(5)] by (simp add: upd_group_def)
  have "l4_ipv6_multicast os i iph len c = forward_loop (length pre + Suc (length post)) os i g 0 (pkt_src iph) iph len ?d"
    unfolding multicast_unfold [OF assms(2)] using assms(4-6) by (simp del: forward_loop.simps)
  also have "\<dots> = sendpacket6 os k iph len ?d"
    using forward_loop_first [of ?d g "[]" pre gi post] ifs assms(7,8) kd by simp
  finally have m: "l4_ipv6_multicast os i iph len c = sendpacket6 os k iph len ?d" .
  obtain c1 where c1: "sendpacket6 os k iph len ?d = Inr c1"
    "c_trace c1 = c_trace ?d @ [Sendto (in_ifindex (int_at ?d k)) (eth_multicast (take 16 (drop 24 iph))) (take (unat len) iph)]"
    using assms(2,3) by (rule sendpacket6_ok)
  have "in_ifindex (int_at c k) = gi_ifindex gi"
    using int_find_Some [OF k] assms(1) by (simp add: wf_conf_def wf_ints_def)
  then show ?thesis using m c1 by simp
qed

lemma ip6_header_src: "take 16 (drop 8 (ip6_header plen nxt hlim src dst @ r)) = be_bytes 16 src"
proof -
  let ?h = "[0x60, 0, 0, 0] @ be_bytes 2 plen @ [nxt, hlim]"
  have "length ?h = 8" by simp
  then have "drop 8 (?h @ be_bytes 16 src @ be_bytes 16 dst @ r) = be_bytes 16 src @ be_bytes 16 dst @ r" by (metis append_eq_conv_conj)
  then show ?thesis by (simp add: ip6_header_def)
qed

definition example_member :: "ifindex \<Rightarrow> grpintnode" where
  "example_member k = \<lparr>gi_ifindex = k, gi_includes = [], gi_excludes = [], gi_filter_mode = 2, gi_filter_timer = 5000\<rparr>"

definition example_forward_conf :: conf where
  "example_forward_conf = example_conf\<lparr>c_ints := map (\<lambda>k. int_zero\<lparr>in_ifindex := k, in_mtu := 1500\<rparr>) [0, 1, 2],
     c_groups := [\<lparr>g_mca = 0xff0e0000000000000000000000000001, g_interfaces = [example_member 0, example_member 1, example_member 2],
       g_lastforward = 0, g_bytes = 0, g_packets = 0\<rparr>]\<rparr>"

definition example_packet :: bytes where
  "example_packet = ip6_header 0 17 9 0x20010db8000000000000000000000007 0xff0e0000000000000000000000000001"

lemma example_packet_facts:
  "length example_packet = 40" "pkt_src example_packet = 0x20010db8000000000000000000000007"
  "pkt_dst example_packet = 0xff0e0000000000000000000000000001"
  "\<not> unroutable (pkt_src example_packet) (pkt_dst example_packet)"
proof -
  show l: "length example_packet = 40" by (simp add: example_packet_def)
  show s: "pkt_src example_packet = 0x20010db8000000000000000000000007"
    using ip6_header_src [of 0 17 9 "0x20010db8000000000000000000000007" "0xff0e0000000000000000000000000001" "[]"]
    by (simp add: example_packet_def)
  show d: "pkt_dst example_packet = 0xff0e0000000000000000000000000001"
    using ip6_header_dst [of 0 17 9 "0x20010db8000000000000000000000007" "0xff0e0000000000000000000000000001" "[]"]
    by (simp add: example_packet_def)
  show "\<not> unroutable (pkt_src example_packet) (pkt_dst example_packet)"
    unfolding s d by (simp add: unroutable_def in6_class_defs)
qed

lemma example_forward_facts:
  "wf_conf example_forward_conf" "group_find 0xff0e0000000000000000000000000001 example_forward_conf = Some 0"
  "g_interfaces (c_groups example_forward_conf ! 0) = [example_member 0] @ example_member 1 # [example_member 2]"
  "\<forall>x \<in> set [example_member 0]. passed_over (in_ifindex (int_at example_forward_conf 0)) (c_clock example_forward_conf) s x"
  "served (in_ifindex (int_at example_forward_conf 0)) (c_clock example_forward_conf) s (example_member 1)"
  "int_find (gi_ifindex (example_member 1)) example_forward_conf \<noteq> None"
proof -
  show "wf_conf example_forward_conf"
    by (auto simp: wf_conf_def example_forward_conf_def example_conf_def wf_groups_def wf_group_def wf_grpint_def wf_ints_def
        example_member_def int_zero_def nth_Cons split: nat.splits)
qed (simp_all add: example_forward_conf_def example_conf_def group_find_def groups_find_def passed_over_def served_def
    grpint_accepts_def example_member_def int_zero_def int_find_def)

lemma example_group_found: "group_find (pkt_dst example_packet) example_forward_conf = Some 0"
  unfolding example_packet_facts(3) by (rule example_forward_facts(2))


section \<open>Properties\<close>

text \<open>
  C7. A multicast packet is never multiplied, looped back or sent where nobody wants it: the state stays
  well formed, and either nothing is sent, or the packet is routable and one unchanged copy goes to one interface,
  not the one it came from, that has a subscription to its destination which accepts its source.
\<close>

theorem multicast_forwarded_once:
  assumes "l4_ipv6_multicast os i iph len c = Inr c'" and "wf_conf c"
  shows "wf_conf c' \<and> (sends c' = sends c
    \<or> \<not> unroutable (pkt_src iph) (pkt_dst iph)
      \<and> (\<exists>gi. (pkt_dst iph, gi) \<in> set (subscriptions c) \<and> gi_ifindex gi \<noteq> in_ifindex (int_at c i)
           \<and> grpint_accepts (c_clock c) (pkt_src iph) gi
           \<and> sends c' = sends c @ [Sendto (gi_ifindex gi) (eth_multicast (take 16 (drop 24 iph))) (take (unat len) iph)]))"
  using multicast_keeps [OF assms] by (auto simp: forwarded_def)

theorem multicast_forwarded_once_witness:
  "\<exists>c'. l4_ipv6_multicast example_os 0 example_packet 40 example_forward_conf = Inr c' \<and> wf_conf c' \<and> sends c' \<noteq> []"
proof -
  have "\<exists>c'. l4_ipv6_multicast example_os 0 example_packet 40 example_forward_conf = Inr c'
      \<and> c_trace c' = c_trace example_forward_conf @ [Sendto (gi_ifindex (example_member 1))
          (eth_multicast (take 16 (drop 24 example_packet))) (take (unat (40 :: u16)) example_packet)]"
    by (rule multicast_first [OF example_forward_facts(1) _ _ example_packet_facts(4) example_group_found example_forward_facts(3-6)]) (simp_all add: example_packet_facts(1))
  then obtain c' where "l4_ipv6_multicast example_os 0 example_packet 40 example_forward_conf = Inr c'" "sends c' \<noteq> []"
    by (auto simp: sends_def)
  then show ?thesis using multicast_forwarded_once [OF _ example_forward_facts(1)] by blast
qed

text \<open>
  C21. A routable packet for a group reaches the first interface of the group that is served, when the ones
  before it are passed over, and the send is the only call made: the interfaces behind it get no copy, whether
  they want the packet or not. The comment in the loop says it proceeds to the next interface.
\<close>

theorem multicast_reaches_first_only:
  assumes "wf_conf c" and "40 \<le> length iph" and "unat len \<le> length iph"
    and "\<not> unroutable (pkt_src iph) (pkt_dst iph)" and "group_find (pkt_dst iph) c = Some g"
    and "g_interfaces (c_groups c ! g) = pre @ gi # post"
    and "\<forall>x \<in> set pre. passed_over (in_ifindex (int_at c i)) (c_clock c) (pkt_src iph) x"
    and "served (in_ifindex (int_at c i)) (c_clock c) (pkt_src iph) gi" and "int_find (gi_ifindex gi) c \<noteq> None"
  shows "\<exists>c'. l4_ipv6_multicast os i iph len c = Inr c'
    \<and> c_trace c' = c_trace c @ [Sendto (gi_ifindex gi) (eth_multicast (take 16 (drop 24 iph))) (take (unat len) iph)]"
  using assms by (rule multicast_first)

theorem multicast_reaches_first_only_witness:
  "\<exists>c'. l4_ipv6_multicast example_os 0 example_packet 40 example_forward_conf = Inr c' \<and> length (c_trace c') = 1"
proof -
  have "\<exists>c'. l4_ipv6_multicast example_os 0 example_packet 40 example_forward_conf = Inr c'
      \<and> c_trace c' = c_trace example_forward_conf @ [Sendto (gi_ifindex (example_member 1))
          (eth_multicast (take 16 (drop 24 example_packet))) (take (unat (40 :: u16)) example_packet)]"
    by (rule multicast_reaches_first_only [OF example_forward_facts(1) _ _ example_packet_facts(4) example_group_found example_forward_facts(3-6)])
      (simp_all add: example_packet_facts(1))
  then show ?thesis by (auto simp: example_forward_conf_def example_conf_def)
qed

end
