(* ===== verification/Reception.thy ===== *)
theory Reception
  imports Forwarding
begin

text \<open>
  The whole receive path of \<^verbatim>\<open>src/ecmh.c\<close>: every handler keeps the state well formed, an encoded MLDv2 report
  is taken apart into exactly its records, and what the code reads beyond the message, ignores or
  trips over.
\<close>

section \<open>The invariant\<close>

lemma wf_conf_count_received: "wf_conf c \<Longrightarrow> wf_conf (upd_int i (\<lambda>n. n\<lparr>in_stat_icmp_received := f n\<rparr>) (c\<lparr>c_stat_icmp_received := x\<rparr>))"
  by (rule wf_conf_upd_int) (simp_all add: wf_conf_def)

lemma icmpv6_dispatch_wf:
  assumes "icmpv6_dispatch os i iph len off plen c = Inr c'" and "wf_conf c"
  shows "wf_conf c'"
proof -
  have w: "wf_conf (c\<lparr>c_stat_hlim_exceeded := x\<rparr>)" for x using assms(2) by (simp add: wf_conf_def)
  show ?thesis
    using assms quiet_wf [OF icmp6_send_quiet w] multicast_keeps mld1_report_wf mld1_reduction_wf mld2_report_wf mld_query_wf
    unfolding icmpv6_dispatch_def Let_def by (auto split: if_splits)
qed

lemma l4_ipv6_icmpv6_wf: "l4_ipv6_icmpv6 os i iph len off plen c = Inr c' \<Longrightarrow> wf_conf c \<Longrightarrow> wf_conf c'"
  using icmpv6_dispatch_wf wf_conf_count_received
  unfolding l4_ipv6_icmpv6_def Let_def by (auto simp: bindR_Inr_iff simp del: read_bytes_Inr_iff split: if_splits)

lemma l3_ipv6_wf:
  assumes "l3_ipv6 os i iph len c = Inr c'" and "wf_conf c"
  shows "wf_conf c'"
proof -
  have w: "wf_conf (c\<lparr>c_stat_hlim_exceeded := x\<rparr>)" for x using assms(2) by (simp add: wf_conf_def)
  show ?thesis
    using assms w l4_ipv6_icmpv6_wf multicast_keeps
    unfolding l3_ipv6_def Let_def
    by (auto simp: bindR_Inr_iff simp del: read_bytes_Inr_iff split: if_splits option.splits prod.splits)
qed

lemma l3_ipv4_same: "l3_ipv4 iph c = Inr c' \<Longrightarrow> c' = c"
  by (auto simp: l3_ipv4_def bindR_Inr_iff split: if_splits)

lemma l2_ethtype_wf: "l2_ethtype os i packet len ether_type c = Inr c' \<Longrightarrow> wf_conf c \<Longrightarrow> wf_conf c'"
  using l3_ipv6_wf by (auto simp: l2_ethtype_def dest: l3_ipv4_same split: if_splits)

section \<open>An MLDv2 report, encoded\<close>

text \<open>A group record and a report as RFC 3810 lays them out (5.2), without auxiliary data.\<close>

type_synonym grec = "u8 \<times> in6_addr \<times> in6_addr list"

definition enc_addrs :: "in6_addr list \<Rightarrow> bytes" where
  "enc_addrs as = concat (map (be_bytes 16) as)"

definition enc_grec :: "grec \<Rightarrow> bytes" where
  "enc_grec = (\<lambda>(type, mca, srcs). [type, 0] @ be_bytes 2 (of_nat (length srcs) :: u16) @ be_bytes 16 mca @ enc_addrs srcs)"

definition enc_report :: "grec list \<Rightarrow> bytes" where
  "enc_report rs = [143, 0, 0, 0, 0, 0] @ be_bytes 2 (of_nat (length rs) :: u16) @ concat (map enc_grec rs)"

definition valid_grec :: "grec \<Rightarrow> bool" where
  "valid_grec = (\<lambda>(type, mca, srcs). 1 \<le> unat type \<and> unat type \<le> 6 \<and> \<not> IN6_IS_ADDR_MC_NODELOCAL mca
     \<and> \<not> IN6_IS_ADDR_MC_LINKLOCAL mca)"

definition mrec_of :: "grec \<Rightarrow> mrec" where
  "mrec_of = (\<lambda>(type, mca, srcs). mrec_add_sources (mrec_create mca (int (unat type))) srcs)"

lemma length_enc_addrs [simp]: "length (enc_addrs as) = 16 * length as"
  by (induction as) (simp_all add: enc_addrs_def)

lemma length_enc_grec: "length (enc_grec (type, mca, srcs)) = 20 + 16 * length srcs"
  by (simp add: enc_grec_def)

lemma be_nat_count: "n < 65536 \<Longrightarrow> be_nat (be_bytes 2 (of_nat n :: u16)) = n"
  by (simp add: be_nat_be_bytes unat_of_nat take_bit_nat_eq_self)

text \<open>Peeling a prefix of known length off the memory.\<close>

lemma read_at: "length pre = off \<Longrightarrow> length x = n \<Longrightarrow> read_bytes (pre @ x @ post) off n = Inr x"
  by (simp add: read_bytes_def)

lemma read_sources_enc:
  "length pre = src \<Longrightarrow> read_sources (length as) (pre @ enc_addrs as @ post) src r = Inr (mrec_add_sources r as)"
proof (induction as arbitrary: pre src r)
  case (Cons a as)
  have e: "pre @ enc_addrs (a # as) @ post = pre @ be_bytes 16 a @ enc_addrs as @ post" by (simp add: enc_addrs_def)
  have "read_bytes (pre @ enc_addrs (a # as) @ post) src 16 = Inr (be_bytes 16 a)"
    unfolding e using Cons.prems by (intro read_at) simp_all
  moreover have "read_sources (length as) (pre @ enc_addrs (a # as) @ post) (src + 16) r'
      = Inr (mrec_add_sources r' as)" for r'
    using Cons.IH [of "pre @ be_bytes 16 a" "src + 16" r'] Cons.prems unfolding e by simp
  ultimately show ?case by (simp del: read_bytes_Inr_iff)
qed simp

lemma known_type:
  assumes "1 \<le> n" and "n \<le> 6"
  shows "is_known_grec_type n" "\<exists>s. lookup (Some mld2_grec_types) n = Inr s"
proof -
  have "n = 1 \<or> n = 2 \<or> n = 3 \<or> n = 4 \<or> n = 5 \<or> n = 6" using assms by linarith
  then show "is_known_grec_type n" "\<exists>s. lookup (Some mld2_grec_types) n = Inr s"
    by (auto simp: is_known_grec_type_def lookup_def mld2_grec_types_def)
qed

lemma mld2_record_enc:
  assumes "valid_grec (type, mca, srcs)" and "length pre = grec" and "off \<le> grec" and "grec + 20 + 16 * length srcs \<le> off + plen"
    and "length srcs < 65536"
  shows "mld2_record (pre @ enc_grec (type, mca, srcs) @ post) off plen grec
    = Inr (Some (mrec_of (type, mca, srcs), grec + length (enc_grec (type, mca, srcs))))"
proof -
  let ?h = "[type, 0] @ be_bytes 2 (of_nat (length srcs) :: u16) @ be_bytes 16 mca"
  let ?mem = "pre @ enc_grec (type, mca, srcs) @ post"
  have m1: "?mem = pre @ ?h @ (enc_addrs srcs @ post)" and m2: "?mem = (pre @ ?h) @ enc_addrs srcs @ post"
    by (simp_all add: enc_grec_def)
  have h: "read_bytes ?mem grec 20 = Inr ?h" unfolding m1 by (rule read_at [OF assms(2)]) simp
  have s: "read_sources (length srcs) ?mem (grec + 20) r = Inr (mrec_add_sources r srcs)" for r
    unfolding m2 by (rule read_sources_enc) (simp add: assms(2))
  have n: "be_nat (take 2 (drop 2 ?h)) = length srcs" using be_nat_count [OF assms(5)] by simp
  have "4 = length ([type, 0] @ be_bytes 2 (of_nat (length srcs) :: u16))" by simp
  then have a: "be_word (drop 4 ?h) = mca" by (metis append_assoc append_eq_conv_conj be_word_in6)
  obtain nm where nm: "lookup (Some mld2_grec_types) (unat type) = Inr nm" and k: "is_known_grec_type (unat type)"
    using assms(1) known_type [of "unat type"] by (auto simp: valid_grec_def)
  have t: "?h ! 0 = type" "?h ! 1 = 0" by simp_all
  have b: "\<not> plen < grec + 20 - off + length srcs * 16" using assms(3,4) by linarith
  show ?thesis
    unfolding mld2_record_def h bindR_simps Let_def n a t nm s
    using assms k b by (simp add: valid_grec_def mrec_of_def length_enc_grec)
qed

lemma mld2_records_enc:
  assumes "\<forall>r \<in> set rs. valid_grec r" and "length pre = grec" and "off \<le> grec"
    and "grec + length (concat (map enc_grec rs)) \<le> off + plen" and "plen < 65536"
  shows "mld2_records (length rs) os i (pre @ concat (map enc_grec rs) @ post) off plen grec hu c
    = bindR (foldR (handle_downstream_subscription os i) (map mrec_of rs) c) (\<lambda>c. Inr (hu \<or> rs \<noteq> [], c))"
  using assms
proof (induction rs arbitrary: pre grec hu c)
  case (Cons r rs)
  obtain type mca srcs where r: "r = (type, mca, srcs)" by (cases r)
  let ?mem = "pre @ concat (map enc_grec (r # rs)) @ post"
  have e: "?mem = pre @ enc_grec r @ (concat (map enc_grec rs) @ post)" "?mem = (pre @ enc_grec r) @ concat (map enc_grec rs) @ post" by simp_all
  have "mld2_record ?mem off plen grec = Inr (Some (mrec_of r, grec + length (enc_grec r)))"
    unfolding e(1) unfolding r by (rule mld2_record_enc) (use Cons.prems r length_enc_grec [of type mca srcs] in auto)
  moreover have "mld2_records (length rs) os i ?mem off plen (grec + length (enc_grec r)) True d
      = bindR (foldR (handle_downstream_subscription os i) (map mrec_of rs) d) (\<lambda>c. Inr (True, c))" for d
    unfolding e(2) by (subst Cons.IH) (use Cons.prems in auto)
  ultimately show ?case
    by (cases "handle_downstream_subscription os i (mrec_of r) c") simp_all
qed simp

lemma length_enc_report: "length (enc_report rs) = 8 + length (concat (map enc_grec rs))"
  by (simp add: enc_report_def)

lemma length_enc_grecs: "20 * length rs \<le> length (concat (map enc_grec rs))"
proof (induction rs)
  case (Cons r rs)
  then show ?case using length_enc_grec [of "fst r" "fst (snd r)" "snd (snd r)"] by simp
qed simp

lemma mld2_report_enc:
  assumes "\<forall>r \<in> set rs. valid_grec r" and "length (enc_report rs) < 65536" and "length pre = off"
  shows "l4_ipv6_icmpv6_mld2_report os i (pre @ enc_report rs @ post) off (of_nat (length (enc_report rs))) c
    = bindR (foldR (handle_downstream_subscription os i) (map mrec_of rs) (int_set_mld_version i 2 c)) (\<lambda>c.
        if rs = [] then Inr c
        else bindR (handle_upstream_subscription os (Some i) c) (\<lambda>c. expire_routes (c_mr6_fd c) c))"
proof -
  let ?n = "of_nat (length rs) :: u16" and ?plen = "length (enc_report rs)"
  let ?mem = "pre @ enc_report rs @ post" and ?hd = "[143, 0, 0, 0, 0, 0] :: bytes"
  have m1: "?mem = (pre @ ?hd) @ be_bytes 2 ?n @ (concat (map enc_grec rs) @ post)"
    and m2: "?mem = (pre @ ?hd @ be_bytes 2 ?n) @ concat (map enc_grec rs) @ post" by (simp_all add: enc_report_def)
  have lr: "length rs < 65536" using length_enc_grecs [of rs] assms(2) by (simp add: length_enc_report)
  have r: "read_bytes ?mem (off + 6) 2 = Inr (be_bytes 2 ?n)" unfolding m1 by (rule read_at) (simp_all add: assms(3))
  have p: "unat (of_nat ?plen :: u16) = ?plen" using assms(2) by (simp add: unat_of_nat take_bit_nat_eq_self)
  have recs: "mld2_records (length rs) os i ?mem off ?plen (off + 8) False d
      = bindR (foldR (handle_downstream_subscription os i) (map mrec_of rs) d) (\<lambda>c. Inr (False \<or> rs \<noteq> [], c))" for d
    unfolding m2 by (rule mld2_records_enc) (use assms in \<open>simp_all add: length_enc_report\<close>)
  have "\<not> ?plen < 8 + length rs * 20" using length_enc_grecs [of rs] by (simp add: length_enc_report)
  then show ?thesis
    unfolding l4_ipv6_icmpv6_mld2_report_def r bindR_simps Let_def be_nat_count [OF lr] p recs
    by (cases "foldR (handle_downstream_subscription os i) (map mrec_of rs) (int_set_mld_version i 2 c)") simp_all
qed

section \<open>What a report does\<close>

definition record_step :: "in6_addr \<Rightarrow> grec \<Rightarrow> filter_state \<Rightarrow> filter_state" where
  "record_step mca = (\<lambda>(type, m, srcs) s. if m = mca then ecmh_step (int (unat type)) (set srcs) s else s)"

lemma mrec_of_facts:
  "mr_mca (mrec_of (type, m, srcs)) = m" "mr_filter_mode (mrec_of (type, m, srcs)) = int (unat type)"
  "addrs (mr_source_list (mrec_of (type, m, srcs))) = set srcs" "wf_srcs (mr_source_list (mrec_of (type, m, srcs)))"
  using mrec_add_sources_facts [OF sources_ok_create, of m "int (unat type)" srcs]
  by (simp_all add: mrec_of_def sources_ok_def mrec_create_def)

lemma foldR_downstream:
  assumes "wf_conf c"
  shows "\<exists>c'. foldR (handle_downstream_subscription os i) (map mrec_of rs) c = Inr c' \<and> wf_conf c' \<and> c_routes c' = c_routes c
    \<and> in_ifindex (int_at c' i) = in_ifindex (int_at c i)
    \<and> (\<forall>mca k. subscription_of c' mca k = (if k = in_ifindex (int_at c i) then fold (record_step mca) rs (subscription_of c mca k)
         else subscription_of c mca k))"
  using assms
proof (induction rs arbitrary: c)
  case (Cons r rs)
  obtain type m srcs where r: "r = (type, m, srcs)" by (cases r)
  obtain c1 where c1: "handle_downstream_subscription os i (mrec_of r) c = Inr c1" "wf_conf c1" "ints_kept c c1" "c_routes c1 = c_routes c"
    "\<And>mca k. subscription_of c1 mca k = (if mca = m \<and> k = in_ifindex (int_at c i)
        then ecmh_step (int (unat type)) (set srcs) (subscription_of c mca k) else subscription_of c mca k)"
    using handle_downstream_result [OF Cons.prems mrec_of_facts(4), of os i type m srcs] unfolding r mrec_of_facts by blast
  have i: "in_ifindex (int_at c1 i) = in_ifindex (int_at c i)" using c1(3) by (simp add: ints_kept_def)
  from Cons.IH [OF c1(2)] show ?case using c1 i by (auto simp: record_step_def r)
qed simp

lemma subscription_of_groups: "c_groups c' = c_groups c \<Longrightarrow> subscription_of c' = subscription_of c"
  by (intro ext) (simp add: subscription_of_def group_find_def split: option.splits)

lemma int_set_mld_version_ifindex [simp]: "in_ifindex (int_at (int_set_mld_version i v c) k) = in_ifindex (int_at c k)"
  by (simp add: int_set_mld_version_def Let_def nth_upd_int)

lemma mld2_report_effect:
  assumes "\<forall>r \<in> set rs. valid_grec r" and "length (enc_report rs) < 65536" and "length pre = off"
    and "wf_conf c" and "c_routes c \<noteq> None"
  shows "\<exists>c'. l4_ipv6_icmpv6_mld2_report os i (pre @ enc_report rs @ post) off (of_nat (length (enc_report rs))) c = Inr c'
    \<and> wf_conf c'
    \<and> (\<forall>mca k. subscription_of c' mca k = (if k = in_ifindex (int_at c i) then fold (record_step mca) rs (subscription_of c mca k)
         else subscription_of c mca k))"
proof -
  let ?c = "int_set_mld_version i 2 c"
  have w: "wf_conf ?c" using assms(4) by (rule int_set_mld_version_wf)
  have sub: "subscription_of ?c = subscription_of c" by (rule subscription_of_groups) simp
  obtain c1 where c1: "foldR (handle_downstream_subscription os i) (map mrec_of rs) ?c = Inr c1" "wf_conf c1" "c_routes c1 = c_routes c"
    "\<And>mca k. subscription_of c1 mca k = (if k = in_ifindex (int_at c i) then fold (record_step mca) rs (subscription_of c mca k)
         else subscription_of c mca k)"
    using foldR_downstream [OF w, of os i rs] unfolding sub by auto
  show ?thesis
  proof (cases "rs = []")
    case True
    then show ?thesis using mld2_report_enc [OF assms(1-3), of os i post c] c1 by simp
  next
    case False
    have "c_routes c1 \<noteq> None" using c1(3) assms(5) by simp
    then obtain c2 where c2: "handle_upstream_subscription os (Some i) c1 = Inr c2" "settled c1 c2" using handle_upstream_ok by blast
    then obtain rts where "c_routes c2 = Some rts" by (auto simp: settled_def calm_def)
    then obtain c3 where c3: "expire_routes (c_mr6_fd c2) c2 = Inr c3" using expire_routes_some by blast
    have "c_groups c3 = c_groups c1" using expire_routes_frame(1) [OF c3] c2(2) by (simp add: settled_def)
    then have "subscription_of c3 = subscription_of c1" by (rule subscription_of_groups)
    moreover have "wf_conf c3" using expire_routes_wf [OF c3] settled_wf [OF c2(2) c1(2)] by blast
    ultimately show ?thesis using mld2_report_enc [OF assms(1-3), of os i post c] c1 c2(1) c3 False by simp
  qed
qed

text \<open>
  C9. Round trip: a report encoded as the RFC lays it out, anywhere in the receive buffer, is taken apart
  into exactly the records it was made of, in order; when there was one the upstream subscription
  is rebuilt and the routes are checked, once, after the last of them.
\<close>

theorem mld2_report_roundtrip:
  assumes "\<forall>r \<in> set rs. valid_grec r" and "length (enc_report rs) < 65536" and "length pre = off"
  shows "l4_ipv6_icmpv6_mld2_report os i (pre @ enc_report rs @ post) off (of_nat (length (enc_report rs))) c
    = bindR (foldR (handle_downstream_subscription os i) (map mrec_of rs) (int_set_mld_version i 2 c)) (\<lambda>c.
        if rs = [] then Inr c
        else bindR (handle_upstream_subscription os (Some i) c) (\<lambda>c. expire_routes (c_mr6_fd c) c))"
  using assms by (rule mld2_report_enc)

definition example_grecs :: "grec list" where
  "example_grecs = [(2, 0xff0e0000000000000000000000000001, []), (1, 0xff0e0000000000000000000000000002, [7, 8])]"

lemma example_grecs_ok:
  "\<forall>r \<in> set example_grecs. valid_grec r" "length (enc_report example_grecs) < 65536"
  by (simp_all add: example_grecs_def valid_grec_def in6_class_defs length_enc_report length_enc_grec)

theorem mld2_report_roundtrip_witness:
  "l4_ipv6_icmpv6_mld2_report example_os 0 ([0] @ enc_report example_grecs @ [1]) 1 (of_nat (length (enc_report example_grecs)))
      example_forward_conf
    = bindR (foldR (handle_downstream_subscription example_os 0) (map mrec_of example_grecs) (int_set_mld_version 0 2 example_forward_conf)) (\<lambda>c.
        bindR (handle_upstream_subscription example_os (Some 0) c) (\<lambda>c. expire_routes (c_mr6_fd c) c))"
  using mld2_report_roundtrip [OF example_grecs_ok, of "[0]" 1 example_os 0 "[1]" example_forward_conf]
  by (simp add: example_grecs_def)

text \<open>
  The effect of a report from a well-formed state with the route list there: the handler returns, the
  state is well formed, each subscription of the receiving interface has taken the steps of the records for its group in
  the order of the report, and those of other interfaces are as before.
\<close>

lemma mld2_report_updates_subscriptions:
  assumes "\<forall>r \<in> set rs. valid_grec r" and "length (enc_report rs) < 65536" and "length pre = off"
    and "wf_conf c" and "c_routes c \<noteq> None"
  shows "\<exists>c'. l4_ipv6_icmpv6_mld2_report os i (pre @ enc_report rs @ post) off (of_nat (length (enc_report rs))) c = Inr c'
    \<and> wf_conf c'
    \<and> (\<forall>mca k. subscription_of c' mca k = (if k = in_ifindex (int_at c i) then fold (record_step mca) rs (subscription_of c mca k)
         else subscription_of c mca k))"
  using assms by (rule mld2_report_effect)

lemma mld2_report_updates_subscriptions_witness:
  "\<exists>c'. l4_ipv6_icmpv6_mld2_report example_os 0 ([0] @ enc_report example_grecs @ [1]) 1 (of_nat (length (enc_report example_grecs)))
      (example_forward_conf\<lparr>c_routes := Some []\<rparr>) = Inr c' \<and> subscription_of c' 0xff0e0000000000000000000000000002 0 = Include {7, 8}"
proof -
  let ?c = "example_forward_conf\<lparr>c_routes := Some []\<rparr>"
  have w: "wf_conf ?c" using example_forward_facts(1) by (simp add: wf_conf_def)
  have "subscription_of ?c 0xff0e0000000000000000000000000002 0 = Include {}" "in_ifindex (int_at ?c 0) = 0"
    by (simp_all add: subscription_of_def group_find_def groups_find_def example_forward_conf_def)
  then have "fold (record_step 0xff0e0000000000000000000000000002) example_grecs (subscription_of ?c 0xff0e0000000000000000000000000002 0) = Include {7, 8}"
    "in_ifindex (int_at ?c 0) = 0"
    by (auto simp: example_grecs_def record_step_def)
  then show ?thesis
    using mld2_report_updates_subscriptions [OF example_grecs_ok, of "[0]" 1 ?c example_os 0 "[1]"] w by auto
qed

text \<open>
  C27. Without the route list (\<^verbatim>\<open>mrouter_init\<close> runs only for \<^verbatim>\<open>--kernel\<close>) every valid report that has a record
  ends in a read through a \<^verbatim>\<open>NULL\<close> pointer.
\<close>

theorem mld2_report_needs_routes:
  assumes "\<forall>r \<in> set rs. valid_grec r" and "length (enc_report rs) < 65536" and "length pre = off"
    and "wf_conf c" and "c_routes c = None" and "rs \<noteq> []"
  shows "l4_ipv6_icmpv6_mld2_report os i (pre @ enc_report rs @ post) off (of_nat (length (enc_report rs))) c = Inl Null_deref"
proof -
  have w: "wf_conf (int_set_mld_version i 2 c)" using assms(4) by (rule int_set_mld_version_wf)
  obtain c1 where "foldR (handle_downstream_subscription os i) (map mrec_of rs) (int_set_mld_version i 2 c) = Inr c1" "c_routes c1 = None"
    using foldR_downstream [OF w, of os i rs] assms(5) by auto
  then show ?thesis
    using mld2_report_enc [OF assms(1-3), of os i post c] handle_upstream_no_routes [of c1 os "Some i"] assms(6) by simp
qed

theorem mld2_report_needs_routes_witness:
  "l4_ipv6_icmpv6_mld2_report example_os 0 ([] @ enc_report example_grecs @ []) 0 (of_nat (length (enc_report example_grecs)))
     example_forward_conf = Inl Null_deref"
proof (rule mld2_report_needs_routes [OF example_grecs_ok _ example_forward_facts(1)])
  show "c_routes example_forward_conf = None" by (simp add: example_forward_conf_def example_conf_def)
qed (simp_all add: example_grecs_def)

section \<open>How far a report is read\<close>

text \<open>
  The checks of \<^verbatim>\<open>l4_ipv6_icmpv6_mld2_report\<close> run after the header of a record was read and do not cover the
  auxiliary data that is skipped, so it may read past the message, but not far.
\<close>

lemma read_take: "off + n \<le> m \<Longrightarrow> m \<le> length mem \<Longrightarrow> read_bytes (take m mem) off n = read_bytes mem off n"
  by (simp add: read_bytes_def drop_take min_absorb1)

lemma read_sources_take:
  "src + 16 * n \<le> m \<Longrightarrow> m \<le> length mem \<Longrightarrow> read_sources n (take m mem) src r = read_sources n mem src r"
proof (induction n arbitrary: src r)
  case (Suc n)
  then show ?case by (simp add: read_take del: read_bytes_Inr_iff)
qed simp

lemma unat_byte_bound: "unat (b :: u8) \<le> 255"
  using unsigned_less [of b, where 'a = nat] by simp

lemma mld2_record_reads:
  assumes "grec \<le> off + plen + 275" and "off + plen + 295 \<le> length mem" and "off \<le> grec"
  shows "mld2_record (take (off + plen + 295) mem) off plen grec = mld2_record mem off plen grec"
    "mld2_record mem off plen grec = Inr (Some (r, next)) \<Longrightarrow> next \<le> off + plen + 275 \<and> off \<le> next"
proof -
  let ?m = "off + plen + 295"
  let ?h = "take 20 (drop grec mem)"
  have h1: "read_bytes mem grec 20 = Inr ?h" using assms by (simp add: read_bytes_def)
  have h2: "read_bytes (take ?m mem) grec 20 = Inr ?h"
    using h1 read_take [of grec 20 ?m mem] assms by simp
  note h = h1 h2
  have "read_sources n (take ?m mem) (grec + 20) r' = read_sources n mem (grec + 20) r'"
    if "\<not> (0 < n \<and> plen < grec + 20 - off + n * 16)" "grec \<le> off + plen" for n r'
    using that assms by (cases "n = 0") (auto intro: read_sources_take)
  then show "mld2_record (take ?m mem) off plen grec = mld2_record mem off plen grec"
    unfolding mld2_record_def h bindR_simps Let_def by (auto simp: not_less intro!: arg_cong2 [of _ _ _ _ bindR])
  show "next \<le> off + plen + 275 \<and> off \<le> next" if r: "mld2_record mem off plen grec = Inr (Some (r, next))"
  proof -
    let ?n = "be_nat (take 2 (drop 2 ?h))" and ?aux = "unat (?h ! 1)"
    have "next = grec + 20 + 16 * ?n + ?aux" "grec \<le> off + plen" "\<not> (0 < ?n \<and> plen < grec + 20 - off + ?n * 16)"
      using r unfolding mld2_record_def h bindR_simps Let_def by (auto simp: bindR_Inr_iff split: if_splits)
    then show ?thesis using unat_byte_bound [of "?h ! 1"] assms(3) by (cases "?n = 0") auto
  qed
qed

lemma mld2_records_reads:
  assumes "grec \<le> off + plen + 275" and "off + plen + 295 \<le> length mem" and "off \<le> grec"
  shows "mld2_records n os i (take (off + plen + 295) mem) off plen grec hu c = mld2_records n os i mem off plen grec hu c"
  using assms(1,3)
proof (induction n arbitrary: grec hu c)
  case (Suc n)
  note r = mld2_record_reads [OF Suc.prems(1) assms(2) Suc.prems(2)]
  show ?case
  proof (cases "mld2_record mem off plen grec")
    case (Inr x)
    then show ?thesis
      using r Suc.IH by (cases x; cases "handle_downstream_subscription os i (fst (the x)) c") auto
  qed (simp add: r(1))
qed simp

text \<open>
  C26. Bounds: what \<^verbatim>\<open>l4_ipv6_icmpv6_mld2_report\<close> does depends on at most 295 bytes behind the message, whatever
  it holds: 275 to the header of a record that lies outside, 20 for the header itself.
\<close>

theorem mld2_report_overread_bound:
  assumes "off + unat plen + 295 \<le> length mem"
  shows "l4_ipv6_icmpv6_mld2_report os i (take (off + unat plen + 295) mem) off plen c
    = l4_ipv6_icmpv6_mld2_report os i mem off plen c"
proof -
  let ?m = "off + unat plen + 295"
  have n: "read_bytes (take ?m mem) (off + 6) 2 = read_bytes mem (off + 6) 2" using assms by (intro read_take) simp_all
  have recs: "mld2_records k os i (take ?m mem) off (unat plen) (off + 8) hu d = mld2_records k os i mem off (unat plen) (off + 8) hu d" for k hu d
    by (rule mld2_records_reads) (use assms in simp_all)
  show ?thesis unfolding l4_ipv6_icmpv6_mld2_report_def n recs ..
qed

theorem mld2_report_overread_bound_witness:
  "l4_ipv6_icmpv6_mld2_report example_os 0 (take 303 (replicate 1000 0)) 0 8 example_conf
     = l4_ipv6_icmpv6_mld2_report example_os 0 (replicate 1000 0) 0 8 example_conf"
  using mld2_report_overread_bound [of 0 8 "replicate 1000 0" example_os 0 example_conf] by simp

section \<open>The checksum and the length of a message\<close>

text \<open>
  C32. The ICMPv6 checksum of a received message makes no difference: whatever the two bytes hold, the
  message is handled the same way, although a wrong one is logged as \<^verbatim>\<open>CORRUPT->DROP\<close>.
\<close>

theorem checksum_never_drops:
  assumes "40 \<le> off"
  shows "l4_ipv6_icmpv6 os i (iph[off + 2 := a, off + 3 := b]) len off plen c = l4_ipv6_icmpv6 os i iph len off plen c"
proof -
  let ?iph = "iph[off + 2 := a, off + 3 := b]"
  have h: "read_bytes ?iph 0 40 = read_bytes iph 0 40" using assms by (simp add: read_bytes_def)
  have z: "?iph[off + 2 := 0, off + 3 := 0] = iph[off + 2 := 0, off + 3 := 0]"
    by (simp add: list_update_swap)
  have t: "read_bytes iph off 4 = Inr x \<Longrightarrow> read_bytes ?iph off 4 = Inr (x[2 := a, 3 := b])" for x
    by (auto simp: drop_update_swap take_update_swap)
  show ?thesis
  proof (cases "read_bytes iph off 4")
    case (Inl e)
    then show ?thesis unfolding l4_ipv6_icmpv6_def h by (auto simp: read_bytes_def split: if_splits)
  next
    case (Inr x)
    then have "4 \<le> length x" by auto
    then have e: "x[2 := a, 3 := b] ! 0 = x ! 0" "x[2 := a, 3 := b] ! 1 = x ! 1" by simp_all
    show ?thesis unfolding l4_ipv6_icmpv6_def h z t [OF Inr] Inr Let_def bindR_simps e ..
  qed
qed

theorem checksum_never_drops_witness:
  "l4_ipv6_icmpv6 example_os 0 ((replicate 100 0)[40 + 2 := 1, 40 + 3 := 2]) 100 40 8 example_conf
     = l4_ipv6_icmpv6 example_os 0 (replicate 100 0) 100 40 8 example_conf"
  by (rule checksum_never_drops) simp

text \<open>
  C28. The payload length of the IPv6 header is not checked against the memory: a message of a kind the
  daemon handles whose length field points behind the receive buffer makes the checksum read out of bounds.
\<close>

theorem icmpv6_length_unchecked:
  assumes "40 \<le> off" and "off + 4 \<le> length iph" and "length iph < off + unat plen"
    and "iph ! off \<in> {128, 130, 131, 132, 143, 206}"
  shows "l4_ipv6_icmpv6 os i iph len off plen c = Inl Out_of_bounds"
proof -
  have h: "read_bytes iph 0 40 = Inr (take 40 iph)" "read_bytes iph off 4 = Inr (take 4 (drop off iph))" using assms by simp_all
  have t: "take 4 (drop off iph) ! 0 = iph ! off" using assms(2) by simp
  have "read_bytes (iph[off + 2 := 0, off + 3 := 0]) off (unat plen) = Inl Out_of_bounds" using assms(3) by (simp add: read_bytes_def)
  then show ?thesis using assms(4) unfolding l4_ipv6_icmpv6_def h Let_def bindR_simps t by auto
qed

theorem icmpv6_length_unchecked_witness:
  "l4_ipv6_icmpv6 example_os 0 (replicate 48 143) 48 40 65528 example_conf = Inl Out_of_bounds"
  by (rule icmpv6_length_unchecked) (simp_all add: nth_replicate)

section \<open>Extension headers\<close>

text \<open>Encoding a chain of extension headers: type of the header itself, and its bytes behind the first two.\<close>

fun enc_chain :: "(u8 \<times> bytes) list \<Rightarrow> u8 \<Rightarrow> bytes" where
  "enc_chain [] final = []"
| "enc_chain ((t, body) # es) final =
     [case es of [] \<Rightarrow> final | (t', _) # _ \<Rightarrow> t', of_nat ((length body + 2) div 8 - 1)] @ body @ enc_chain es final"

definition chain_type :: "(u8 \<times> bytes) list \<Rightarrow> u8 \<Rightarrow> u8" where
  "chain_type es final = (case es of [] \<Rightarrow> final | (t, _) # _ \<Rightarrow> t)"

definition valid_ext :: "u8 \<times> bytes \<Rightarrow> bool" where
  "valid_ext = (\<lambda>(t, body). t \<in> {0, 43, 60, 51} \<and> (length body + 2) mod 8 = 0 \<and> length body + 2 \<le> 2048)"

lemma ext_length:
  assumes "valid_ext (t, body)"
  shows "unat (of_nat ((length body + 2) div 8 - 1) :: u8) * 8 + 8 = length body + 2"
proof -
  have m: "(length body + 2) mod 8 = 0" "length body + 2 \<le> 2048" using assms unfolding valid_ext_def by auto
  then have "(length body + 2) div 8 - 1 < 256" by linarith
  moreover have "8 \<le> length body + 2" using m(1) by (cases "length body + 2 < 8") auto
  ultimately have "unat (of_nat ((length body + 2) div 8 - 1) :: u8) = (length body + 2) div 8 - 1"
    unfolding unat_of_nat by (simp add: take_bit_nat_eq_self)
  moreover have "(length body + 2) div 8 * 8 = length body + 2" using m(1) by (metis add.right_neutral div_mult_mod_eq)
  ultimately show ?thesis using \<open>8 \<le> length body + 2\<close> by simp
qed

lemma skip_headers_step:
  assumes "t \<in> {0, 43, 60, 51}" and "read_bytes iph ipe 2 = Inr [t', l]" and "unat l * 8 + 8 = n" and "\<not> ipe + n > unat len"
  shows "skip_headers iph len t ipe plen = skip_headers iph len t' (ipe + n) (plen - of_nat n)"
  by (subst skip_headers.simps) (use assms in \<open>simp add: Let_def del: read_bytes_Inr_iff\<close>)

lemma skip_headers_enc:
  assumes "\<forall>e \<in> set es. valid_ext e" and "final \<notin> {0, 43, 60, 51}" and "length pre = ipe"
    and "ipe + length (enc_chain es final) \<le> unat len"
  shows "skip_headers (pre @ enc_chain es final @ post) len (chain_type es final) ipe plen
    = Inr (Some (final, ipe + length (enc_chain es final), plen - of_nat (length (enc_chain es final))))"
  using assms
proof (induction es final arbitrary: pre ipe plen rule: enc_chain.induct)
  case (1 final)
  then show ?case by (simp add: skip_headers.simps chain_type_def)
next
  case (2 t body es final)
  let ?l = "of_nat ((length body + 2) div 8 - 1) :: u8"
  let ?mem = "pre @ enc_chain ((t, body) # es) final @ post"
  have ty: "(case es of [] \<Rightarrow> final | (t', _) # _ \<Rightarrow> t') = chain_type es final" by (simp add: chain_type_def)
  have m: "?mem = pre @ [chain_type es final, ?l] @ (body @ enc_chain es final @ post)"
    "?mem = (pre @ [chain_type es final, ?l] @ body) @ enc_chain es final @ post" by (simp_all add: chain_type_def)
  have r: "read_bytes ?mem ipe 2 = Inr [chain_type es final, ?l]" unfolding m(1) by (rule read_at) (use "2.prems" in simp_all)
  have l: "unat ?l * 8 + 8 = length body + 2" using "2.prems"(1) by (intro ext_length [of t]) simp
  have t: "t \<in> {0, 43, 60, 51}" using "2.prems"(1) by (simp add: valid_ext_def)
  have le: "\<not> ipe + (length body + 2) > unat len" using "2.prems"(4) by simp
  have "skip_headers ?mem len t ipe plen = skip_headers ?mem len (chain_type es final) (ipe + (length body + 2)) (plen - of_nat (length body + 2))"
    using t r l le by (rule skip_headers_step)
  also have "\<dots> = Inr (Some (final, ipe + (length body + 2) + length (enc_chain es final),
      plen - of_nat (length body + 2) - of_nat (length (enc_chain es final))))"
    unfolding m(2) by (rule "2.IH") (use "2.prems" in auto)
  finally show ?case by (simp add: chain_type_def algebra_simps)
qed

text \<open>
  Round trip for the header chain: a chain of well-formed extension headers that ends inside the packet
  is skipped as a whole, the type behind it and its place are found, and the payload length is reduced by
  exactly the length of the chain, modulo \<open>2 ^ 16\<close>.
\<close>

lemma skip_headers_roundtrip:
  assumes "\<forall>e \<in> set es. valid_ext e" and "final \<notin> {0, 43, 60, 51}" and "length pre = ipe"
    and "ipe + length (enc_chain es final) \<le> unat len"
  shows "skip_headers (pre @ enc_chain es final @ post) len (chain_type es final) ipe plen
    = Inr (Some (final, ipe + length (enc_chain es final), plen - of_nat (length (enc_chain es final))))"
  using assms by (rule skip_headers_enc)

lemma skip_headers_roundtrip_witness:
  "skip_headers (replicate 40 0 @ enc_chain [(0, [5, 2, 0, 0, 1, 0])] 58 @ [143]) 49 (chain_type [(0, [5, 2, 0, 0, 1, 0])] 58) 40 9
     = Inr (Some (58, 48, 1))"
  using skip_headers_roundtrip [of "[(0, [5, 2, 0, 0, 1, 0])]" 58 "replicate 40 0" 40 49 "[143]" 9]
  by (simp add: valid_ext_def)

end
