(* ===== verification/Process.thy ===== *)
theory Process
  imports Conf
begin

text \<open>
  \<^verbatim>\<open>src/common.c\<close> and the parts of \<^verbatim>\<open>main\<close> that deal with the process itself: logging, the pid file, dropping privileges, and
  what happens after the configuration is freed. \<^verbatim>\<open>g_conf\<close> is a pointer here, since logging is used before it is set and after it is
  freed. What \<^verbatim>\<open>vprintf\<close> makes of format and arguments is an argument, as are \<^verbatim>\<open>inet_ntop\<close> and \<^verbatim>\<open>kill\<close>.
\<close>

section \<open>Logging\<close>

datatype g_conf = Conf_NULL | Conf_freed | Conf_at conf

definition deref :: "g_conf \<Rightarrow> conf res" where
  "deref p = (case p of Conf_NULL \<Rightarrow> Inl Null_deref | Conf_freed \<Rightarrow> Inl Use_after_free | Conf_at c \<Rightarrow> Inr c)"

datatype log = Syslog nat string | Stdout string

abbreviation (input) LOG_ERR :: nat where "LOG_ERR \<equiv> 3"
abbreviation (input) LOG_WARNING :: nat where "LOG_WARNING \<equiv> 4"
abbreviation (input) LOG_INFO :: nat where "LOG_INFO \<equiv> 6"
abbreviation (input) LOG_DEBUG :: nat where "LOG_DEBUG \<equiv> 7"
abbreviation (input) LOG_LOCAL7 :: nat where "LOG_LOCAL7 \<equiv> 184"

definition level_name :: "nat \<Rightarrow> string" where
  "level_name level =
     (if level = LOG_DEBUG then ''debug'' else if level = LOG_ERR then ''error''
      else if level = LOG_WARNING then ''warn'' else if level = LOG_INFO then ''info'' else [])"

text \<open>The conversion \<^verbatim>\<open>%6s\<close> pads on the left.\<close>

definition pad6 :: "string \<Rightarrow> string" where
  "pad6 s = replicate (6 - length s) CHR '' '' @ s"

text \<open>
  \<^verbatim>\<open>dolog\<close>: the first two tests guard against \<^verbatim>\<open>NULL\<close>, the third does not. The result is what was written and where.
\<close>

definition dolog :: "g_conf \<Rightarrow> nat \<Rightarrow> string \<Rightarrow> log list res" where
  "dolog g_conf level text =
     bindR (if g_conf = Conf_NULL then Inr False else bindR (deref g_conf) (\<lambda>c. Inr (\<not> c_verbose c \<and> level = LOG_DEBUG))) (\<lambda>skip.
     if skip then Inr []
     else
       bindR (if g_conf = Conf_NULL then Inr False else bindR (deref g_conf) (\<lambda>c. Inr (c_daemonize c))) (\<lambda>daemonize.
       if daemonize then Inr [Syslog (LOG_LOCAL7 OR level) text]
       else
         bindR (deref g_conf) (\<lambda>c.
           Inr ((if c_verbose c then [Stdout (''['' @ pad6 (level_name level) @ ''] '')] else []) @ [Stdout text]))))"

text \<open>The two helpers for addresses; \<^verbatim>\<open>__FILE__\<close> and \<^verbatim>\<open>__LINE__\<close> are those of the call in the first.\<close>

definition log_grp :: "(in6_addr \<Rightarrow> string) \<Rightarrow> g_conf \<Rightarrow> nat \<Rightarrow> string \<Rightarrow> in6_addr \<Rightarrow> in6_addr \<Rightarrow> log list res" where
  "log_grp ntop g_conf log_level text src grp =
     dolog g_conf log_level (''common.c '' @ decimal 37 @ '': '' @ text @ '': src='' @ ntop src @ '' grp='' @ ntop grp @ [CHR 0x0A])"

definition log_ip6addr :: "(in6_addr \<Rightarrow> string) \<Rightarrow> g_conf \<Rightarrow> nat \<Rightarrow> in6_addr \<Rightarrow> log list res" where
  "log_ip6addr ntop g_conf log_level addr = dolog g_conf log_level (ntop addr @ [CHR 0x0A])"

text \<open>
  The printers for debugging. The second conversion of \<^verbatim>\<open>mrec_print\<close> is given the address of its text buffer, \<open>addr1\<close>, instead of
  the timer; nodes without data are skipped.
\<close>

fun dolog_all :: "g_conf \<Rightarrow> nat \<Rightarrow> string list \<Rightarrow> log list res" where
  "dolog_all g_conf level [] = Inr []"
| "dolog_all g_conf level (s # ss) = bindR (dolog g_conf level s) (\<lambda>out. bindR (dolog_all g_conf level ss) (\<lambda>rest. Inr (out @ rest)))"

definition print_sources :: "(in6_addr \<Rightarrow> string) \<Rightarrow> g_conf \<Rightarrow> srclist \<Rightarrow> log list res" where
  "print_sources ntop g_conf sources =
     bindR (dolog g_conf LOG_DEBUG (''{'' @ [CHR 0x0A])) (\<lambda>out.
     bindR (foldR (\<lambda>src out. bindR (log_ip6addr ntop g_conf LOG_DEBUG (ms_addr src)) (\<lambda>o1. Inr (out @ o1))) (elems sources) out) (\<lambda>out.
     bindR (dolog g_conf LOG_DEBUG (''}'' @ [CHR 0x0A])) (\<lambda>o2. Inr (out @ o2))))"

definition mrec_lines :: "(in6_addr \<Rightarrow> string) \<Rightarrow> nat \<Rightarrow> mrec \<Rightarrow> string list" where
  "mrec_lines ntop addr1 mrec =
     [''('' @ ntop (mr_mca mrec) @ '', '' @ mld_grec_mode (mr_filter_mode mrec) @ '', {'' @ [CHR 0x0A]]
     @ map (\<lambda>src. ntop (ms_addr src) @ '' '' @ decimal addr1 @ [CHR 0x0A]) (elems (mr_source_list mrec))
     @ [''})'' @ [CHR 0x0A]]"

definition mrec_print :: "(in6_addr \<Rightarrow> string) \<Rightarrow> nat \<Rightarrow> g_conf \<Rightarrow> mrec \<Rightarrow> log list res" where
  "mrec_print ntop addr1 g_conf mrec = dolog_all g_conf LOG_DEBUG (mrec_lines ntop addr1 mrec)"

definition mdb_print :: "(in6_addr \<Rightarrow> string) \<Rightarrow> nat \<Rightarrow> g_conf \<Rightarrow> mrec list \<Rightarrow> log list res" where
  "mdb_print ntop addr1 g_conf memb_db =
     bindR (dolog g_conf LOG_DEBUG (''Membership database: {'' @ [CHR 0x0A])) (\<lambda>out.
     bindR (foldR (\<lambda>mrec out. bindR (mrec_print ntop addr1 g_conf mrec) (\<lambda>o1. Inr (out @ o1))) memb_db out) (\<lambda>out.
     bindR (dolog g_conf LOG_DEBUG (''}'' @ [CHR 0x0A])) (\<lambda>o2. Inr (out @ o2))))"

section \<open>The pid file\<close>

text \<open>
  \<open>None\<close> is a file that is not there. \<^verbatim>\<open>fscanf\<close> with \<^verbatim>\<open>%d\<close> skips white space, takes an optional sign and the digits that follow;
  without a digit it stores nothing, and \<^verbatim>\<open>pid\<close> keeps what the stack held.
\<close>

definition is_space :: "char \<Rightarrow> bool" where
  "is_space ch \<longleftrightarrow> ch = CHR '' '' \<or> ch \<in> {CHR 0x09, CHR 0x0A, CHR 0x0B, CHR 0x0C, CHR 0x0D}"

definition is_digit :: "char \<Rightarrow> bool" where
  "is_digit ch \<longleftrightarrow> ch \<in> set ''0123456789''"

definition scan_int :: "string \<Rightarrow> int option" where
  "scan_int s =
     (let s = dropWhile is_space s;
          neg = (s \<noteq> [] \<and> hd s = CHR ''-'');
          s = (if s \<noteq> [] \<and> (hd s = CHR ''-'' \<or> hd s = CHR ''+'') then tl s else s);
          ds = takeWhile is_digit s in
      if ds = [] then None else Some (if neg then - int (read_decimal ds) else int (read_decimal ds)))"

definition huprunning :: "(int \<Rightarrow> int) \<Rightarrow> int \<Rightarrow> string option \<Rightarrow> int" where
  "huprunning kill_hup stack pidfile =
     (case pidfile of None \<Rightarrow> 0
      | Some s \<Rightarrow> let pid = (case scan_int s of None \<Rightarrow> stack | Some n \<Rightarrow> n) in if kill_hup pid = 0 then 1 else 0)"

text \<open>\<open>writable\<close>: whether \<^verbatim>\<open>fopen\<close> for writing succeeds.\<close>

definition savepid :: "g_conf \<Rightarrow> nat \<Rightarrow> bool \<Rightarrow> string option \<Rightarrow> (string option \<times> log list) res" where
  "savepid g_conf pid writable pidfile =
     (if \<not> writable then Inr (pidfile, [])
      else bindR (dolog g_conf LOG_INFO (''Running as PID '' @ decimal pid @ [CHR 0x0A])) (\<lambda>out. Inr (Some (decimal pid), out)))"

definition cleanpid :: "g_conf \<Rightarrow> nat \<Rightarrow> string option \<Rightarrow> (string option \<times> conf \<times> log list) res" where
  "cleanpid g_conf i pidfile =
     bindR (dolog g_conf LOG_INFO (''Trying to exit, got signal '' @ decimal i @ ''...'' @ [CHR 0x0A])) (\<lambda>out.
     bindR (deref g_conf) (\<lambda>c. Inr (None, c\<lparr>c_quit := True\<rparr>, out)))"

text \<open>The last statements of \<^verbatim>\<open>main\<close>: \<^verbatim>\<open>free(g_conf)\<close>, then \<^verbatim>\<open>cleanpid(SIGINT)\<close>; the pointer is not cleared.\<close>

definition main_end :: "g_conf \<Rightarrow> string option \<Rightarrow> (string option \<times> conf \<times> log list) res" where
  "main_end g_conf pidfile = (let g_conf = (case g_conf of Conf_at c \<Rightarrow> Conf_freed | p \<Rightarrow> p) in cleanpid g_conf 2 pidfile)"

section \<open>Privileges\<close>

text \<open>
  The user and group ids of the process as POSIX has them, real, effective and saved. A privileged \<^verbatim>\<open>setuid\<close> sets all three, another one
  the effective id to the real or the saved one; \<^verbatim>\<open>setgid\<close> likewise. A call that is not allowed fails and changes nothing; \<^verbatim>\<open>main\<close> does not look at the result.
\<close>

record creds =
  ruid :: nat
  euid :: nat
  suid :: nat
  rgid :: nat
  egid :: nat
  sgid :: nat

definition setuid :: "nat \<Rightarrow> creds \<Rightarrow> int \<times> creds" where
  "setuid uid p = (if euid p = 0 then (0, p\<lparr>ruid := uid, euid := uid, suid := uid\<rparr>)
     else if uid = ruid p \<or> uid = suid p then (0, p\<lparr>euid := uid\<rparr>) else (-1, p))"

definition setgid :: "nat \<Rightarrow> creds \<Rightarrow> int \<times> creds" where
  "setgid gid p = (if euid p = 0 then (0, p\<lparr>rgid := gid, egid := gid, sgid := gid\<rparr>)
     else if gid = rgid p \<or> gid = sgid p then (0, p\<lparr>egid := gid\<rparr>) else (-1, p))"

definition drop_privileges :: "nat \<Rightarrow> nat \<Rightarrow> creds \<Rightarrow> creds" where
  "drop_privileges drop_uid drop_gid p =
     (let p = (if drop_uid \<noteq> 0 then snd (setuid drop_uid p) else p) in
      if drop_gid \<noteq> 0 then snd (setgid drop_gid p) else p)"

section \<open>Properties\<close>

lemma decimal_digits: "list_all is_digit (decimal n)" "decimal n \<noteq> []"
proof (induction n rule: decimal.induct)
  case (1 n)
  have d: "is_digit (''0123456789'' ! (n mod 10))"
    unfolding is_digit_def by (rule nth_mem) simp
  { case 1 show ?case using "1.IH" d by (subst decimal.simps) auto }
  { case 2 show ?case by (subst decimal.simps) simp }
qed

lemma scan_decimal: "scan_int (decimal n) = Some (int n)"
proof -
  obtain d ds where n: "decimal n = d # ds" using decimal_digits(2) [of n] by (cases "decimal n") auto
  have "is_digit d" using decimal_digits(1) [of n] n by simp
  then have d: "\<not> is_space d" "d \<noteq> CHR ''-''" "d \<noteq> CHR ''+''" by (auto simp: is_digit_def is_space_def)
  have "takeWhile is_digit (decimal n) = decimal n"
    using decimal_digits(1) [of n] by (simp add: takeWhile_eq_all_conv list_all_iff)
  then show ?thesis using n d read_decimal_decimal [of n] by (simp add: scan_int_def Let_def)
qed


text \<open>
  Where a message goes: nowhere when it is for debugging and the daemon is not verbose, to the system log with facility and level when
  it runs in the background, and else to the standard output, with a level in front of it exactly when it is verbose. Before the configuration
  is set every message is a read through \<^verbatim>\<open>NULL\<close>, after it is freed a read of freed memory.
\<close>

lemma dolog_destinations:
  "dolog g_conf level text =
     (case g_conf of
        Conf_NULL \<Rightarrow> Inl Null_deref
      | Conf_freed \<Rightarrow> Inl Use_after_free
      | Conf_at c \<Rightarrow>
          Inr (if \<not> c_verbose c \<and> level = 7 then []
               else if c_daemonize c then [Syslog (184 OR level) text]
               else if c_verbose c then [Stdout (''['' @ pad6 (level_name level) @ ''] ''), Stdout text]
               else [Stdout text]))"
  by (cases g_conf) (simp_all add: dolog_def deref_def)

text \<open>
  Debug printing is silent unless the daemon is verbose, and then it prints line by line: what it shows of a database in the foreground is the
  records in order, each with its sources.
\<close>

lemma dolog_debug: "dolog (Conf_at c) LOG_DEBUG s =
    Inr (if \<not> c_verbose c then [] else if c_daemonize c then [Syslog 191 s] else [Stdout ''[ debug] '', Stdout s])"
  by (simp add: dolog_destinations pad6_def level_name_def)

lemma dolog_all_lines:
  "dolog_all (Conf_at c) LOG_DEBUG ss = Inr (if \<not> c_verbose c then []
     else if c_daemonize c then map (Syslog 191) ss else concat (map (\<lambda>s. [Stdout ''[ debug] '', Stdout s]) ss))"
  by (induction ss) (simp_all add: dolog_debug)

lemma foldR_append_lines:
  "(\<And>x. f x = Inr (h x)) \<Longrightarrow> foldR (\<lambda>x out. bindR (f x) (\<lambda>o1. Inr (out @ o1))) xs out = Inr (out @ concat (map h xs))"
  by (induction xs arbitrary: out) simp_all

lemma mdb_print_lines:
  "mdb_print ntop addr1 (Conf_at c) db =
     dolog_all (Conf_at c) LOG_DEBUG ([''Membership database: {'' @ [CHR 0x0A]] @ concat (map (mrec_lines ntop addr1) db) @ [''}'' @ [CHR 0x0A]])"
proof -
  let ?out = "\<lambda>ss. if \<not> c_verbose c then [] else if c_daemonize c then map (Syslog 191) ss else concat (map (\<lambda>s. [Stdout ''[ debug] '', Stdout s]) ss)"
  have m: "mrec_print ntop addr1 (Conf_at c) r = Inr (?out (mrec_lines ntop addr1 r))" for r
    unfolding mrec_print_def by (rule dolog_all_lines)
  have "concat (map (\<lambda>r. ?out (mrec_lines ntop addr1 r)) db) = ?out (concat (map (mrec_lines ntop addr1) db))"
    by (induction db) simp_all
  then show ?thesis
    unfolding mdb_print_def foldR_append_lines [OF m] dolog_all_lines dolog_debug bindR_simps by simp
qed

lemma print_sources_lines:
  "print_sources ntop (Conf_at c) l =
     dolog_all (Conf_at c) LOG_DEBUG ([''{'' @ [CHR 0x0A]] @ map (\<lambda>s. ntop (ms_addr s) @ [CHR 0x0A]) (elems l) @ [''}'' @ [CHR 0x0A]])"
proof -
  let ?h = "\<lambda>s. if \<not> c_verbose c then [] else if c_daemonize c then [Syslog 191 s] else [Stdout ''[ debug] '', Stdout s]"
  have f: "log_ip6addr ntop (Conf_at c) LOG_DEBUG (ms_addr s) = Inr (?h (ntop (ms_addr s) @ [CHR 0x0A]))" for s :: msrc
    unfolding log_ip6addr_def by (rule dolog_debug)
  show ?thesis
    unfolding print_sources_def foldR_append_lines [OF f] dolog_all_lines dolog_debug bindR_simps
    by (cases "c_verbose c"; cases "c_daemonize c") (simp_all add: comp_def)
qed

text \<open>
  A regular end of the daemon is not one: its last call reads the configuration that was freed just before, and does so before it would
  remove the pid file.
\<close>

lemma main_end_uses_freed: "main_end (Conf_at c) pidfile = Inl Use_after_free"
  by (simp add: main_end_def cleanpid_def dolog_def deref_def)

text \<open>
  Dropping privileges: started by root for a user with a group of its own, the daemon gives up the user id for good, and then
  may not change its group any more, so all three group ids stay those of root.
\<close>

lemma drop_privileges_keeps_group:
  assumes "euid p = 0" and "drop_uid \<noteq> 0" and "drop_gid \<noteq> rgid p" and "drop_gid \<noteq> sgid p"
  shows "ruid (drop_privileges drop_uid drop_gid p) = drop_uid \<and> euid (drop_privileges drop_uid drop_gid p) = drop_uid
    \<and> suid (drop_privileges drop_uid drop_gid p) = drop_uid
    \<and> rgid (drop_privileges drop_uid drop_gid p) = rgid p \<and> egid (drop_privileges drop_uid drop_gid p) = egid p
    \<and> sgid (drop_privileges drop_uid drop_gid p) = sgid p"
  using assms by (simp add: drop_privileges_def setuid_def setgid_def Let_def)

lemma drop_privileges_keeps_group_witness:
  "egid (drop_privileges 65534 65534 \<lparr>ruid = 0, euid = 0, suid = 0, rgid = 0, egid = 0, sgid = 0\<rparr>) = 0"
  using drop_privileges_keeps_group [of "\<lparr>ruid = 0, euid = 0, suid = 0, rgid = 0, egid = 0, sgid = 0\<rparr>" 65534 65534] by simp

end
