(* ===== verification/Daemon.thy ===== *)
theory Daemon
  imports Reception Process
begin

text \<open>
  The daemon around the handlers, \<^verbatim>\<open>src/ecmh.c\<close> from \<^verbatim>\<open>update_interfaces\<close> to \<^verbatim>\<open>main\<close>: the interface list,
  the periodic work, reading a frame, options, startup, the loop and shutdown.
\<close>

section \<open>Interfaces\<close>

abbreviation (input) AF_INET :: nat where "AF_INET \<equiv> 2"
abbreviation (input) AF_INET6 :: nat where "AF_INET6 \<equiv> 10"
abbreviation (input) AF_PACKET :: nat where "AF_PACKET \<equiv> 17"

text \<open>The entries the loop skips: flags first, then addresses that no interface is known by.\<close>

definition ignored_ifa :: "ifaddr \<Rightarrow> bool" where
  "ignored_ifa ifa \<longleftrightarrow> ifa_loopback ifa \<or> \<not> ifa_up ifa \<or> \<not> ifa_running ifa \<or> ifa_family ifa = Some AF_PACKET"

definition unwanted_addr :: "ifaddr \<Rightarrow> bool" where
  "unwanted_addr ifa \<longleftrightarrow> ifa_family ifa = Some AF_INET6 \<and> \<not> IN6_IS_ADDR_LINKLOCAL (ifa_addr ifa)
     \<and> (IN6_IS_ADDR_UNSPECIFIED (ifa_addr ifa) \<or> IN6_IS_ADDR_LOOPBACK (ifa_addr ifa) \<or> IN6_IS_ADDR_MULTICAST (ifa_addr ifa))"

text \<open>
  Storing an address; the flags are \<^verbatim>\<open>gotlinkl\<close> and \<^verbatim>\<open>gotglobal\<close>. An address that is not link-local is the
  global one if it is IPv6; IPv4 addresses are ignored in this build.
\<close>

definition set_other_address :: "nat \<Rightarrow> ifaddr \<Rightarrow> (bool \<times> bool) \<times> conf \<Rightarrow> (bool \<times> bool) \<times> conf" where
  "set_other_address i ifa st =
     (let ((gotlinkl, gotglobal), c) = st in
      if ifa_family ifa = Some AF_INET then st
      else if ifa_family ifa = Some AF_INET6
      then ((gotlinkl, True), upd_int i (\<lambda>n. n\<lparr>in_global := ifa_addr ifa\<rparr>) c)
      else st)"

definition set_address :: "nat \<Rightarrow> ifaddr \<Rightarrow> (bool \<times> bool) \<times> conf \<Rightarrow> (bool \<times> bool) \<times> conf" where
  "set_address i ifa st =
     (let ((gotlinkl, gotglobal), c) = st in
      if ifa_family ifa = Some AF_INET6 \<and> IN6_IS_ADDR_LINKLOCAL (ifa_addr ifa)
      then ((True, gotglobal), upd_int i (\<lambda>n. n\<lparr>in_linklocal := ifa_addr ifa\<rparr>) c)
      else set_other_address i ifa st)"

text \<open>A new interface that got no address is destroyed.\<close>

definition drop_unaddressed :: "bool \<Rightarrow> bool \<times> bool \<Rightarrow> nat option \<Rightarrow> conf \<Rightarrow> conf" where
  "drop_unaddressed newintn got intn c =
     (let (gotlinkl, gotglobal) = got in
      if newintn then (if gotlinkl \<or> gotglobal then c else int_destroy (the intn) c) else c)"

text \<open>Finding or creating the interface of an entry; the flag is \<^verbatim>\<open>newintn\<close>.\<close>

definition find_or_create :: "os \<Rightarrow> ifaddr \<Rightarrow> conf \<Rightarrow> (nat option \<times> bool \<times> conf) res" where
  "find_or_create os ifa c =
     (case int_find (ifa_index ifa) c of
        Some i \<Rightarrow> Inr (Some i, False, c)
      | None \<Rightarrow>
          (case c_upstream c of
             None \<Rightarrow> Inl Null_deref
           | Some up \<Rightarrow>
               bindR (if ifa_name ifa = up then Inr True
                      else (case c_downstream c of None \<Rightarrow> Inl Null_deref | Some down \<Rightarrow> Inr (ifa_name ifa = down))) (\<lambda>ours.
                 if ours then bindR (int_create os (ifa_index ifa) c) (\<lambda>(intn, c). Inr (intn, intn \<noteq> None, c))
                 else Inr (None, False, c))))"

text \<open>
  The loop over the addresses. With a \<^verbatim>\<open>specific\<close> interface only its addresses are to be updated; the test
  reads \<^verbatim>\<open>==\<close>, so it skips those and takes the others.
\<close>

fun update_loop :: "os \<Rightarrow> nat option \<Rightarrow> ifaddr list \<Rightarrow> bool \<times> bool \<Rightarrow> conf \<Rightarrow> conf res" where
  "update_loop os specific [] got c = Inr c"
| "update_loop os specific (ifa # ifas) got c =
     (if ifa_family ifa = None \<or> ignored_ifa ifa \<or> unwanted_addr ifa then update_loop os specific ifas got c
      else
        (case specific of
           Some i \<Rightarrow>
             if in_ifindex (int_at c i) = ifa_index ifa then update_loop os specific ifas got c
             else
               let ((gotlinkl, gotglobal), c) = set_address i ifa (got, c) in
               if gotlinkl \<and> gotglobal then Inr c else update_loop os specific ifas (gotlinkl, gotglobal) c
         | None \<Rightarrow>
             bindR (find_or_create os ifa c) (\<lambda>(intn, newintn, c).
               let (got, c) = (case intn of None \<Rightarrow> ((False, False), c) | Some i \<Rightarrow> set_address i ifa ((False, False), c));
                   c = drop_unaddressed newintn got intn c in
               update_loop os specific ifas got c)))"

definition update_interfaces :: "os \<Rightarrow> nat option \<Rightarrow> conf \<Rightarrow> conf res" where
  "update_interfaces os specific c =
     (if c_last_update c + 300 > c_clock c then Inr c
      else
        let c = c\<lparr>c_last_update := c_clock c\<rparr> in
        (case os_getifaddrs os (c_trace c) of None \<Rightarrow> Inr c
         | Some ifas \<Rightarrow> update_loop os specific ifas (False, False) c))"

section \<open>Periodic work and signals\<close>

definition send_mld_querys :: "os \<Rightarrow> conf \<Rightarrow> conf res" where
  "send_mld_querys os c =
     foldR (\<lambda>i c. if in_mtu (int_at c i) = 0 then Inr c else mld_send_query os i in6addr_any None False c)
       [0..<length (c_ints c)] c"

text \<open>The handler of \<^verbatim>\<open>SIGHUP\<close> installs itself again and does nothing else: no configuration is read.\<close>

definition sighup :: "conf \<Rightarrow> conf" where
  "sighup c = c"

definition timeout_signal :: "conf \<Rightarrow> conf" where
  "timeout_signal c = c\<lparr>c_needs_timeout := True\<rparr>"

definition timeout :: "os \<Rightarrow> conf \<Rightarrow> conf res" where
  "timeout os c =
     bindR (update_interfaces os None c) (\<lambda>c.
     bindR (if (c_clock c + c_timeout_offset c) mod ECMH_SUBSCRIPTION_TIMEOUT = 0 then send_mld_querys os c else Inr c) (\<lambda>c.
       expire_sources os c))"

definition sigusr2 :: "conf \<Rightarrow> conf res" where
  "sigusr2 c = (case c_upstream c of None \<Rightarrow> Inr c
     | Some _ \<Rightarrow> (case int_find (c_upstream_id c) c of None \<Rightarrow> Inr c | Some i \<Rightarrow> mld2_send_report i None c))"

text \<open>The uptime of the statistics dump, in \<^verbatim>\<open>unsigned int\<close>s: days, hours, minutes, seconds.\<close>

definition uptime :: "time_t \<Rightarrow> time_t \<Rightarrow> u32 \<times> u32 \<times> u32 \<times> u32" where
  "uptime time_tee starttime =
     (let uptime_s = of_int (time_tee - starttime); uptime_d = uptime_s div 86400; uptime_s = uptime_s - uptime_d * 24 * 60 * 60;
          uptime_h = uptime_s div 3600; uptime_s = uptime_s - uptime_h * 60 * 60;
          uptime_m = uptime_s div 60; uptime_s = uptime_s - uptime_m * 60 in
      (uptime_d, uptime_h, uptime_m, uptime_s))"

section \<open>Reading a frame\<close>

text \<open>What \<^verbatim>\<open>recvfrom\<close> gives: its result, the link-layer address, and the receive buffer as it is then.\<close>

record frame =
  fr_len :: int
  fr_hatype :: nat
  fr_outgoing :: bool
  fr_ifindex :: ifindex
  fr_protocol :: nat
  fr_buffer :: bytes

definition receiving_interface :: "os \<Rightarrow> ifindex \<Rightarrow> conf \<Rightarrow> (nat option \<times> conf) res" where
  "receiving_interface os i c =
     (case int_find i c of
        Some k \<Rightarrow> Inr (Some k, c)
      | None \<Rightarrow> bindR (int_create os i c) (\<lambda>(intn, c).
          (case intn of None \<Rightarrow> Inr (None, c)
           | Some k \<Rightarrow> bindR (update_interfaces os (Some k) c) (\<lambda>c. Inr (Some k, c)))))"

definition handleinterfaces :: "os \<Rightarrow> frame \<Rightarrow> conf \<Rightarrow> (bool \<times> conf) res" where
  "handleinterfaces os fr c =
     (if fr_len fr = -1 then Inr (False, c)
      else if fr_hatype fr = ARPHRD_LOOPBACK \<or> fr_outgoing fr then Inr (True, c)
      else
        let len = fr_len fr; i = fr_ifindex fr;
            c = c\<lparr>c_stat_packets_received := c_stat_packets_received c + 1,
                  c_stat_bytes_received := c_stat_bytes_received c + of_int len\<rparr> in
        if \<not> (i = c_upstream_id c \<or> i = c_downstream_id c) then Inr (True, c)
        else
          bindR (receiving_interface os i c) (\<lambda>(intn, c).
            (case intn of
               None \<Rightarrow> Inr (True, c)
             | Some k \<Rightarrow>
                 let c = upd_int k (\<lambda>n. n\<lparr>in_stat_packets_received := in_stat_packets_received n + 1,
                                         in_stat_bytes_received := in_stat_bytes_received n + of_int len\<rparr>) c in
                 bindR (l2_ethtype os k (drop 14 (fr_buffer fr)) (nat len) (fr_protocol fr) c) (\<lambda>c. Inr (True, c)))))"

section \<open>Startup\<close>

definition init :: "time_t \<Rightarrow> conf" where
  "init now = \<lparr>c_ints = [], c_groups = [], c_upstream = None, c_upstream_id = 0,
     c_downstream = None, c_downstream_id = 0, c_daemonize = True, c_verbose = False,
     c_quit = False, c_mld1only = False, c_mld2only = False, c_kernel = False, c_mr6_fd = 0,
     c_promisc = False, c_bufferlen = 32 * 1024, c_stat_starttime = now, c_stat_packets_received = 0,
     c_stat_packets_sent = 0, c_stat_bytes_received = 0, c_stat_bytes_sent = 0,
     c_stat_icmp_received = 0, c_stat_icmp_sent = 0, c_stat_hlim_exceeded = 0, c_routes = None,
     c_last_update = 0, c_timeout_offset = 0, c_needs_timeout = False, c_clock = now, c_trace = []\<rparr>"

text \<open>
  The option loop: \<^verbatim>\<open>getopt_long\<close> gives the letters and arguments, \<open>getpwnam\<close> looks a user up. \<open>Inl\<close> is the exit
  code of \<^verbatim>\<open>main\<close>.
\<close>

definition handle_option :: "(string \<Rightarrow> (nat \<times> nat) option) \<Rightarrow> char \<times> string \<Rightarrow> conf \<times> nat \<times> nat \<Rightarrow> int + (conf \<times> nat \<times> nat)" where
  "handle_option getpwnam opt st =
     (let (letter, optarg) = opt; (c, drop_uid, drop_gid) = st; set = (\<lambda>c. Inr (c, drop_uid, drop_gid)) in
      if letter = CHR 0x00 then Inr st
      else if letter = CHR ''f'' then set (c\<lparr>c_daemonize := False\<rparr>)
      else if letter = CHR ''i'' then
        (case c_upstream c of Some _ \<Rightarrow> Inl (-1) | None \<Rightarrow> set (c\<lparr>c_upstream := Some optarg\<rparr>))
      else if letter = CHR ''d'' then
        (case c_downstream c of Some _ \<Rightarrow> Inl (-1) | None \<Rightarrow> set (c\<lparr>c_downstream := Some optarg\<rparr>))
      else if letter = CHR ''k'' then set (c\<lparr>c_kernel := True\<rparr>)
      else if letter = CHR ''p'' then set (c\<lparr>c_promisc := True\<rparr>)
      else if letter = CHR ''P'' then set (c\<lparr>c_promisc := False\<rparr>)
      else if letter = CHR ''u'' then (case getpwnam optarg of None \<Rightarrow> Inl (-1) | Some (uid, gid) \<Rightarrow> Inr (c, uid, gid))
      else if letter = CHR ''v'' then set (c\<lparr>c_verbose := True\<rparr>)
      else if letter = CHR ''V'' then Inl 0
      else if letter = CHR ''1'' then set (c\<lparr>c_mld1only := True, c_mld2only := False\<rparr>)
      else if letter = CHR ''2'' then set (c\<lparr>c_mld1only := False, c_mld2only := True\<rparr>)
      else Inl (-1))"

fun handle_options :: "(string \<Rightarrow> (nat \<times> nat) option) \<Rightarrow> (char \<times> string) list \<Rightarrow> conf \<times> nat \<times> nat \<Rightarrow> int + (conf \<times> nat \<times> nat)" where
  "handle_options getpwnam [] st = Inr st"
| "handle_options getpwnam (opt # opts) st =
     (case handle_option getpwnam opt st of Inl e \<Rightarrow> Inl e | Inr st \<Rightarrow> handle_options getpwnam opts st)"

text \<open>What the system calls of the startup answer.\<close>

record boot =
  bt_fork :: int
  bt_stat_file :: bool
  bt_rawsocket :: int
  bt_sendsocket :: int
  bt_rcvbuf :: int
  bt_filter :: int
  bt_buffer :: bool
  bt_mrouter_socket :: int
  bt_mrouter_ret :: int

definition setup_kernel :: "os \<Rightarrow> boot \<Rightarrow> conf \<Rightarrow> conf" where
  "setup_kernel os bt c =
     (if c_kernel c then
        let (fd, c) = mrouter_init (bt_mrouter_socket bt) (bt_mrouter_ret bt) c; c = c\<lparr>c_mr6_fd := fd\<rparr> in
        if fd \<le> 0 then c
        else
          let (ret, c) = mrouter6_addmif os fd 0 (c_upstream_id c) c;
              (ret, c) = mrouter6_addmif os fd 1 (c_downstream_id c) c in c
      else c)"

text \<open>\<^verbatim>\<open>main\<close> up to its loop: an exit code, or the state in which the loop starts.\<close>

definition startup :: "os \<Rightarrow> boot \<Rightarrow> conf \<Rightarrow> (int + conf) res" where
  "startup os bt c =
     (let c = c\<lparr>c_timeout_offset := c_clock c mod ECMH_SUBSCRIPTION_TIMEOUT\<rparr> in
      if c_daemonize c \<and> bt_fork bt < 0 then Inr (Inl (-1))
      else if c_daemonize c \<and> bt_fork bt \<noteq> 0 then Inr (Inl 0)
      else if c_upstream c = None then Inr (Inl (-1))
      else if c_downstream c = None then Inr (Inl (-1))
      else if \<not> bt_stat_file bt then Inr (Inl (-1))
      else if bt_rawsocket bt < 0 then Inr (Inl (-1))
      else if bt_sendsocket bt < 0 then Inr (Inl (-1))
      else if bt_rcvbuf bt < 0 then Inr (Inl (-1))
      else if bt_filter bt < 0 then Inr (Inl (-1))
      else if \<not> bt_buffer bt then Inr (Inl (-1))
      else
        bindR (update_interfaces os None c) (\<lambda>c.
        bindR (send_mld_querys os c) (\<lambda>c.
          Inr (Inr (setup_kernel os bt c)))))"

section \<open>The loop\<close>

text \<open>What \<^verbatim>\<open>select\<close> reports: an error, \<^verbatim>\<open>EINTR\<close> or not, or which of the two descriptors have data, and what then is read.\<close>

datatype select = Select_error bool | Ready "bytes option" "frame option"

definition run_timeout :: "os \<Rightarrow> conf \<Rightarrow> conf res" where
  "run_timeout os c =
     (if c_needs_timeout c then bindR (timeout os c) (\<lambda>c. Inr (c\<lparr>c_needs_timeout := False\<rparr>)) else Inr c)"

definition handle_select :: "os \<Rightarrow> select \<Rightarrow> bool \<Rightarrow> conf \<Rightarrow> (bool \<times> conf) res" where
  "handle_select os sel quit c =
     (case sel of
        Select_error eintr \<Rightarrow> Inr (if eintr then quit else True, c)
      | Ready upcall frame \<Rightarrow>
          bindR (case upcall of None \<Rightarrow> Inr (quit, c)
                 | Some buf \<Rightarrow> bindR (mrouter6_handlesocket os (c_mr6_fd c) buf c) (\<lambda>c. Inr (False, c))) (\<lambda>(quit, c).
            (case frame of None \<Rightarrow> Inr (quit, c)
             | Some fr \<Rightarrow> bindR (handleinterfaces os fr c) (\<lambda>(ok, c). Inr (\<not> ok, c)))))"

definition main_iteration :: "os \<Rightarrow> select \<Rightarrow> bool \<Rightarrow> conf \<Rightarrow> (bool \<times> conf) res" where
  "main_iteration os sel quit c = bindR (run_timeout os c) (handle_select os sel quit)"

text \<open>The end of \<^verbatim>\<open>main\<close>: groups and interfaces go, the multicast interfaces are given back.\<close>

definition shutdown :: "os \<Rightarrow> conf \<Rightarrow> conf" where
  "shutdown os c =
     (let c = c\<lparr>c_groups := []\<rparr>;
          c = fold (\<lambda>j c. if in_mtu (int_at c j) = 0 then c else int_destroy j c) [0..<length (c_ints c)] c in
      if c_kernel c then
        let (res, c) = mrouter6_delmif os (c_mr6_fd c) 0 c; (res, c) = mrouter6_delmif os (c_mr6_fd c) 1 c in c
      else c)"

section \<open>Everything keeps the invariant\<close>

lemma only_int_upd_more [simp]: "only_int k c d \<Longrightarrow> only_int k c (upd_int k f d)"
  using only_int_trans only_int_upd by blast

lemma only_int_destroy_more [simp]: "only_int k c d \<Longrightarrow> only_int k c (int_destroy k d)"
  using only_int_trans only_int_destroy by blast

lemma int_at_destroy_ifindex [simp]: "in_ifindex (int_at (int_destroy k c) j) = in_ifindex (int_at c j)"
  by (simp add: int_destroy_def nth_upd_int)

lemma int_mark_ifindex [simp]: "in_ifindex (int_at (int_mark k c) j) = in_ifindex (int_at c j)"
  by (simp add: int_mark_def Let_def nth_upd_int)

lemma int_create_wf:
  assumes "int_create os k c = Inr (r, c')" and "wf_conf c"
  shows "wf_conf c'"
proof -
  let ?c = "int_resize k c"
  have w: "wf_conf ?c" using assms(2) by (rule int_resize_wf)
  have len: "k < length (c_ints ?c)" by (rule int_resize_facts)
  have "c' = ?c \<or> only_int k ?c c' \<and> in_ifindex (int_at c' k) = k"
    using assms(1) len only_int_trans [OF _ only_int_mark]
    by (auto simp: int_create_def Let_def nth_upd_int split: if_splits option.splits)
  then show ?thesis using w wf_conf_only_int [OF w] by auto
qed

lemma set_address_wf: "set_address i ifa (got, c) = (got', c') \<Longrightarrow> wf_conf c \<Longrightarrow> wf_conf c'"
  by (auto simp: set_address_def set_other_address_def Let_def intro!: wf_conf_upd_int split: if_splits prod.splits)

lemma find_or_create_wf: "find_or_create os ifa c = Inr (r, new, c') \<Longrightarrow> wf_conf c \<Longrightarrow> wf_conf c'"
  by (auto simp: find_or_create_def bindR_Inr_iff split: option.splits if_splits intro: int_create_wf)

lemma update_loop_wf: "update_loop os specific ifas got c = Inr c' \<Longrightarrow> wf_conf c \<Longrightarrow> wf_conf c'"
proof (induction ifas arbitrary: got c)
  case (Cons ifa ifas)
  show ?case
  proof (cases "ifa_family ifa = None \<or> ignored_ifa ifa \<or> unwanted_addr ifa")
    case True
    then show ?thesis using Cons by simp
  next
    case go: False
    show ?thesis
    proof (cases specific)
      case (Some i)
      then show ?thesis using Cons go set_address_wf [of i ifa got c] by (auto split: if_splits prod.splits)
    next
      case None
      from Cons.prems(1) go None obtain intn new c1 where f: "find_or_create os ifa c = Inr (intn, new, c1)"
        and l: "(let (got, c) = (case intn of None \<Rightarrow> ((False, False), c1) | Some i \<Rightarrow> set_address i ifa ((False, False), c1));
                   c = drop_unaddressed new got intn c in
               update_loop os specific ifas got c) = Inr c'" by (auto simp: bindR_Inr_iff)
      obtain got2 c2 where s: "(case intn of None \<Rightarrow> ((False, False), c1) | Some i \<Rightarrow> set_address i ifa ((False, False), c1)) = (got2, c2)" by fastforce
      have "wf_conf c2" using find_or_create_wf [OF f Cons.prems(2)] s set_address_wf by (auto split: option.splits)
      then show ?thesis using l Cons.IH int_destroy_wf unfolding s
        by (auto simp: Let_def drop_unaddressed_def split: if_splits prod.splits)
    qed
  qed
qed simp

lemma update_interfaces_wf: "update_interfaces os specific c = Inr c' \<Longrightarrow> wf_conf c \<Longrightarrow> wf_conf c'"
proof -
  have "wf_conf c \<Longrightarrow> wf_conf (c\<lparr>c_last_update := t\<rparr>)" for t by (simp add: wf_conf_def)
  then show "update_interfaces os specific c = Inr c' \<Longrightarrow> wf_conf c \<Longrightarrow> wf_conf c'"
    using update_loop_wf by (auto simp: update_interfaces_def Let_def split: if_splits option.splits)
qed

lemma send_mld_querys_ok: "\<exists>c'. send_mld_querys os c = Inr c' \<and> quiet c c'"
proof -
  have "\<exists>c'. (if in_mtu (int_at c i) = 0 then Inr c else mld_send_query os i in6addr_any None False c) = Inr c' \<and> quiet c c'" for i c
    by (cases "in_mtu (int_at c i) = 0") (simp, metis mld_send_query_ok)
  then show ?thesis unfolding send_mld_querys_def by (intro foldR_quiet) auto
qed

lemma send_mld_querys_wf: "send_mld_querys os c = Inr c' \<Longrightarrow> wf_conf c \<Longrightarrow> wf_conf c'"
  using send_mld_querys_ok [of os c] quiet_wf by auto

lemma timeout_wf: "timeout os c = Inr c' \<Longrightarrow> wf_conf c \<Longrightarrow> wf_conf c'"
  by (auto simp: timeout_def bindR_Inr_iff split: if_splits dest!: update_interfaces_wf send_mld_querys_wf expire_sources_wf)

lemma sigusr2_same: "sigusr2 c = Inr c"
  by (simp add: sigusr2_def mld2_send_report_idle split: option.splits)

lemma receiving_interface_wf:
  "receiving_interface os i c = Inr (intn, c') \<Longrightarrow> wf_conf c \<Longrightarrow> wf_conf c'"
  by (auto simp: receiving_interface_def bindR_Inr_iff split: option.splits dest: int_create_wf update_interfaces_wf)

lemma handleinterfaces_wf:
  assumes "handleinterfaces os fr c = Inr (ok, c')" and "wf_conf c"
  shows "wf_conf c'"
proof -
  define d where "d = c\<lparr>c_stat_packets_received := c_stat_packets_received c + 1, c_stat_bytes_received := c_stat_bytes_received c + of_int (fr_len fr)\<rparr>"
  have d: "wf_conf d" using assms(2) by (simp add: d_def wf_conf_def)
  have u: "wf_conf (upd_int k (\<lambda>n. n\<lparr>in_stat_packets_received := p n, in_stat_bytes_received := b n\<rparr>) e)" if "wf_conf e" for e k p b
    using that by (intro wf_conf_upd_int) simp_all
  show ?thesis
  proof (cases "fr_len fr = -1 \<or> fr_hatype fr = ARPHRD_LOOPBACK \<or> fr_outgoing fr")
    case True
    then show ?thesis using assms by (auto simp: handleinterfaces_def split: if_splits)
  next
    case False
    show ?thesis
    proof (cases "fr_ifindex fr = c_upstream_id d \<or> fr_ifindex fr = c_downstream_id d")
      case True
      then obtain intn e where r: "receiving_interface os (fr_ifindex fr) d = Inr (intn, e)"
        using assms(1) False unfolding handleinterfaces_def Let_def d_def [symmetric]
        by (cases "receiving_interface os (fr_ifindex fr) d") auto
      have e: "wf_conf e" using receiving_interface_wf [OF r d] .
      show ?thesis
      proof (cases intn)
        case None
        then show ?thesis using assms(1) False True r e unfolding handleinterfaces_def Let_def d_def [symmetric] by auto
      next
        case (Some k)
        let ?e = "upd_int k (\<lambda>n. n\<lparr>in_stat_packets_received := in_stat_packets_received n + 1,
            in_stat_bytes_received := in_stat_bytes_received n + of_int (fr_len fr)\<rparr>) e"
        have "bindR (l2_ethtype os k (drop 14 (fr_buffer fr)) (nat (fr_len fr)) (fr_protocol fr) ?e) (\<lambda>c. Inr (True, c)) = Inr (ok, c')"
          using assms(1) False True r Some unfolding handleinterfaces_def Let_def d_def [symmetric] by auto
        then have "l2_ethtype os k (drop 14 (fr_buffer fr)) (nat (fr_len fr)) (fr_protocol fr) ?e = Inr c'"
          by (simp add: bindR_Inr_iff)
        then show ?thesis by (rule l2_ethtype_wf [OF _ u [OF e]])
      qed
    next
      case other: False
      then show ?thesis using assms(1) False d unfolding handleinterfaces_def Let_def d_def [symmetric] by simp
    qed
  qed
qed

lemma mrouter6_handlesocket_wf: "mrouter6_handlesocket os fd buf c = Inr c' \<Longrightarrow> wf_conf c \<Longrightarrow> wf_conf c'"
  by (auto simp: mrouter6_handlesocket_def Let_def bindR_Inr_iff save_route_def wf_conf_def split: if_splits option.splits)

lemma run_timeout_wf: "run_timeout os c = Inr c' \<Longrightarrow> wf_conf c \<Longrightarrow> wf_conf c'"
  using timeout_wf by (fastforce simp: run_timeout_def bindR_Inr_iff wf_conf_def split: if_splits)

lemma handle_select_wf:
  assumes "handle_select os sel quit c = Inr (quit', c')" and "wf_conf c"
  shows "wf_conf c'"
  using assms handleinterfaces_wf mrouter6_handlesocket_wf
  by (auto simp: handle_select_def bindR_Inr_iff split: select.splits option.splits if_splits)

lemma main_iteration_wf: "main_iteration os sel quit c = Inr (quit', c') \<Longrightarrow> wf_conf c \<Longrightarrow> wf_conf c'"
  using run_timeout_wf handle_select_wf by (auto simp: main_iteration_def bindR_Inr_iff)

section \<open>The daemon as a state machine\<close>

text \<open>
  A state is the local \<^verbatim>\<open>quit\<close> of \<^verbatim>\<open>main\<close> and the configuration. Between two iterations of the loop time passes
  and signals arrive; the handlers run as a step of their own. Those of \<^verbatim>\<open>SIGALRM\<close>, \<^verbatim>\<open>SIGTERM\<close> and \<^verbatim>\<open>SIGINT\<close> set a flag that
  the loop tests only between iterations, those of \<^verbatim>\<open>SIGHUP\<close> and \<^verbatim>\<open>SIGUSR2\<close> change nothing, so it does not matter where they interrupt. The operating system may answer
  differently in each step. The answers to the calls that the trace records are one function \<open>answer\<close> of the trace, which
  is no restriction: no two of them are made with the same trace.
\<close>

type_synonym kernel_answers = "io list \<Rightarrow> io \<Rightarrow> int"

inductive daemon_start :: "kernel_answers \<Rightarrow> bool \<times> conf \<Rightarrow> bool" for answer where
  started: "handle_options getpwnam opts (init now, 0, 0) = Inr (c0, uid, gid) \<Longrightarrow> startup os bt c0 = Inr (Inr c)
     \<Longrightarrow> os_setsockopt os = answer \<Longrightarrow> daemon_start answer (False, c)"

inductive daemon_step :: "kernel_answers \<Rightarrow> bool \<times> conf \<Rightarrow> bool \<times> conf \<Rightarrow> bool" for answer where
  time_passes: "c_clock c \<le> t \<Longrightarrow> daemon_step answer (quit, c) (quit, c\<lparr>c_clock := t\<rparr>)"
| alarm: "daemon_step answer (quit, c) (quit, timeout_signal c)"
| usr2: "sigusr2 c = Inr c' \<Longrightarrow> daemon_step answer (quit, c) (quit, c')"
| hup: "daemon_step answer (quit, c) (quit, sighup c)"
| terminated: "cleanpid (Conf_at c) sig pidfile = Inr (pidfile', c', out) \<Longrightarrow> daemon_step answer (quit, c) (quit, c')"
| iteration: "\<not> quit \<Longrightarrow> \<not> c_quit c \<Longrightarrow> os_setsockopt os = answer \<Longrightarrow> main_iteration os sel quit c = Inr (quit', c')
     \<Longrightarrow> daemon_step answer (quit, c) (quit', c')"

inductive_cases daemon_startE: "daemon_start answer (quit, c)"
inductive_cases daemon_stepE: "daemon_step answer (quit, c) (quit', c')"

lemma cleanpid_quits: "cleanpid (Conf_at c) sig pidfile = Inr (pidfile', c', out) \<Longrightarrow> pidfile' = None \<and> c' = c\<lparr>c_quit := True\<rparr>"
  by (auto simp: cleanpid_def deref_def bindR_Inr_iff)

lemma handle_option_frame:
  "handle_option getpwnam opt (c, u, g) = Inr (c', u', g') \<Longrightarrow> c_ints c' = c_ints c \<and> c_groups c' = c_groups c"
  by (auto simp: handle_option_def Let_def split: if_splits option.splits prod.splits)

lemma handle_options_frame:
  "handle_options getpwnam opts (c, u, g) = Inr (c', u', g') \<Longrightarrow> c_ints c' = c_ints c \<and> c_groups c' = c_groups c"
proof (induction opts arbitrary: c u g)
  case (Cons opt opts)
  then show ?case by (fastforce split: sum.splits dest: handle_option_frame)
qed simp

lemma init_wf: "wf_conf (init now)"
  by (simp add: init_def wf_conf_def wf_groups_def wf_ints_def)

lemma setup_kernel_wf: "wf_conf c \<Longrightarrow> wf_conf (setup_kernel os bt c)"
  by (simp add: setup_kernel_def mrouter_init_def mrouter6_addmif_def Let_def wf_conf_def)

lemma startup_wf:
  assumes "startup os bt c = Inr (Inr c')" and "wf_conf c"
  shows "wf_conf c'"
proof -
  have "wf_conf (c\<lparr>c_timeout_offset := t\<rparr>)" for t using assms(2) by (simp add: wf_conf_def)
  then show ?thesis
    using assms(1) by (auto simp: startup_def Let_def bindR_Inr_iff split: if_splits
        intro!: setup_kernel_wf dest!: send_mld_querys_wf update_interfaces_wf)
qed

interpretation ds: guarded_system "daemon_start answer" "daemon_step answer" "\<lambda>(quit, c). wf_conf c" for answer
proof
  fix s assume "daemon_start answer s"
  then show "case s of (quit, c) \<Rightarrow> wf_conf c"
  proof cases
    case (started getpwnam opts now c0 uid gid os bt c)
    have "wf_conf c0" using handle_options_frame [OF started(2)] init_wf [of now] by (simp add: wf_conf_def)
    then show ?thesis using started(1,3) startup_wf by simp
  qed
next
  fix s t assume "case s of (quit, c) \<Rightarrow> wf_conf c" and "daemon_step answer s t"
  from this(2,1) show "case t of (quit, c) \<Rightarrow> wf_conf c"
  proof cases
    case (iteration quit c os sel quit' c')
    then show ?thesis using \<open>case s of (quit, c) \<Rightarrow> wf_conf c\<close> main_iteration_wf by simp
  qed (auto simp: wf_conf_def timeout_signal_def sighup_def sigusr2_same dest!: cleanpid_quits)
qed

text \<open>
  C8. In every state the daemon reaches, from any command line and whatever arrives, the subscription state is well
  formed: groups are distinct, each has an interface, the interfaces of a group are distinct, each filter mode is
  INCLUDE or EXCLUDE, no source is listed twice, and every interface in use knows its own index.
\<close>

theorem daemon_reachable_wf:
  assumes "daemon_start answer s" and "(daemon_step answer)\<^sup>*\<^sup>* s (quit, c)"
  shows "wf_conf c"
  using ds.reachable_inv [OF assms] by simp

theorem daemon_reachable_wf_witness:
  "\<exists>c c'. daemon_start (\<lambda>_ _. 0) (False, c) \<and> (daemon_step (\<lambda>_ _. 0))\<^sup>*\<^sup>* (False, c) (False, c') \<and> c_needs_timeout c' \<and> wf_conf c'"
proof -
  let ?opts = "[(CHR ''i'', ''eth0''), (CHR ''d'', ''eth1''), (CHR ''f'', [])]"
  let ?opted = "(init 1000)\<lparr>c_upstream := Some ''eth0'', c_downstream := Some ''eth1'', c_daemonize := False\<rparr>"
  let ?bt = "\<lparr>bt_fork = 0, bt_stat_file = True, bt_rawsocket = 3, bt_sendsocket = 4, bt_rcvbuf = 0, bt_filter = 0, bt_buffer = True,
      bt_mrouter_socket = 5, bt_mrouter_ret = 0\<rparr>"
  let ?c = "?opted\<lparr>c_timeout_offset := 0, c_last_update := 1000\<rparr>"
  have "handle_options (\<lambda>_. None) ?opts (init 1000, 0, 0) = Inr (?opted, 0, 0)"
    by (simp add: handle_option_def init_def)
  moreover have "startup example_os ?bt ?opted = Inr (Inr ?c)"
    by (simp add: startup_def init_def update_interfaces_def example_os_def send_mld_querys_def setup_kernel_def)
  moreover have "os_setsockopt example_os = (\<lambda>_ _. 0)" by (simp add: example_os_def)
  ultimately have start: "daemon_start (\<lambda>_ _. 0) (False, ?c)" by (rule started)
  moreover have "(daemon_step (\<lambda>_ _. 0))\<^sup>*\<^sup>* (False, ?c) (False, timeout_signal ?c)" using alarm by blast
  ultimately have "wf_conf (timeout_signal ?c)" by (rule daemon_reachable_wf)
  then show ?thesis
    using start alarm by (intro exI [of _ ?c] exI [of _ "timeout_signal ?c"]) (auto simp: timeout_signal_def)
qed

text \<open>
  Leaving the loop is final: once a signal or an error of \<^verbatim>\<open>select\<close> or \<^verbatim>\<open>recvfrom\<close> has set one of the two flags, whatever
  arrives changes no subscription and no route, and no packet and no call goes out any more.
\<close>

lemma quit_is_final:
  assumes "(daemon_step answer)\<^sup>*\<^sup>* (quit, c) (quit', c')" and "quit \<or> c_quit c"
  shows "(quit' \<or> c_quit c') \<and> c_trace c' = c_trace c \<and> c_groups c' = c_groups c \<and> c_ints c' = c_ints c \<and> c_routes c' = c_routes c"
  using assms(1)
proof (induction rule: rtranclp_induct2)
  case (step q d q' d')
  from step.hyps(2) step.IH show ?case
    by (cases rule: daemon_step.cases) (auto simp: timeout_signal_def sighup_def sigusr2_same dest!: cleanpid_quits)
qed (use assms(2) in simp)

section \<open>Options\<close>

definition given :: "char \<Rightarrow> (char \<times> string) list \<Rightarrow> string list" where
  "given letter opts = map snd (filter (\<lambda>opt. fst opt = letter) opts)"

lemma given_Cons: "given l (opt # opts) = (if fst opt = l then snd opt # given l opts else given l opts)"
  by (simp add: given_def)

text \<open>An interface name may be given once, and is then the one that is set.\<close>

definition named_by :: "string option \<Rightarrow> string list \<Rightarrow> string option \<Rightarrow> bool" where
  "named_by old args new \<longleftrightarrow> (case old of None \<Rightarrow> args = [] \<and> new = None \<or> (\<exists>a. args = [a] \<and> new = Some a)
     | Some a \<Rightarrow> args = [] \<and> new = Some a)"

lemma handle_option_names:
  assumes "handle_option getpwnam opt (c, u, g) = Inr (c', u', g')"
  shows "named_by (c_upstream c) (given CHR ''i'' [opt]) (c_upstream c')" "named_by (c_downstream c) (given CHR ''d'' [opt]) (c_downstream c')"
    "\<not> (c_mld1only c \<and> c_mld2only c) \<Longrightarrow> \<not> (c_mld1only c' \<and> c_mld2only c')" "fst opt \<noteq> CHR ''V''"
  using assms
  by (auto simp: handle_option_def Let_def named_by_def given_def split: if_splits option.splits prod.splits)

lemma named_by_append: "named_by a xs b \<Longrightarrow> named_by b ys c \<Longrightarrow> named_by a (xs @ ys) c"
  by (auto simp: named_by_def split: option.splits)

lemma handle_options_names:
  assumes "handle_options getpwnam opts (c, u, g) = Inr (c', u', g')" and "\<not> (c_mld1only c \<and> c_mld2only c)"
  shows "named_by (c_upstream c) (given CHR ''i'' opts) (c_upstream c') \<and> named_by (c_downstream c) (given CHR ''d'' opts) (c_downstream c')
    \<and> \<not> (c_mld1only c' \<and> c_mld2only c') \<and> CHR ''V'' \<notin> fst ` set opts"
  using assms
proof (induction opts arbitrary: c u g)
  case Nil
  then show ?case by (auto simp: named_by_def given_def split: option.splits)
next
  case (Cons opt opts)
  then obtain c1 u1 g1 where o: "handle_option getpwnam opt (c, u, g) = Inr (c1, u1, g1)"
    "handle_options getpwnam opts (c1, u1, g1) = Inr (c', u', g')" by (auto split: sum.splits)
  note h = handle_option_names [OF o(1)]
  have g: "given l (opt # opts) = given l [opt] @ given l opts" for l by (simp add: given_def)
  show ?case
    using Cons.IH [OF o(2) h(3) [OF Cons.prems(2)]] named_by_append [OF h(1)] named_by_append [OF h(2)] h(4) unfolding g by auto
qed

text \<open>
  C40. A command line that the option loop accepts has each interface at most once, leaves exactly the
  given names in the configuration, does not ask for the version, and sets at most one of the
  two only-modes, the last one given.
\<close>

theorem options_accepted:
  assumes "handle_options getpwnam opts (init now, 0, 0) = Inr (c, uid, gid)"
  shows "(given CHR ''i'' opts = [] \<and> c_upstream c = None \<or> (\<exists>a. given CHR ''i'' opts = [a] \<and> c_upstream c = Some a))
    \<and> (given CHR ''d'' opts = [] \<and> c_downstream c = None \<or> (\<exists>a. given CHR ''d'' opts = [a] \<and> c_downstream c = Some a))
    \<and> CHR ''V'' \<notin> fst ` set opts \<and> \<not> (c_mld1only c \<and> c_mld2only c)"
  using handle_options_names [OF assms] by (simp add: init_def named_by_def)

theorem options_accepted_witness:
  "\<exists>c uid gid. handle_options (\<lambda>_. None) [(CHR ''i'', ''eth0''), (CHR ''1'', []), (CHR ''2'', [])] (init 0, 0, 0) = Inr (c, uid, gid)
     \<and> \<not> (c_mld1only c \<and> c_mld2only c)"
proof -
  obtain c uid gid where h: "handle_options (\<lambda>_. None) [(CHR ''i'', ''eth0''), (CHR ''1'', []), (CHR ''2'', [])] (init 0, 0, 0) = Inr (c, uid, gid)"
    by (simp add: handle_option_def init_def)
  from options_accepted [OF this] h show ?thesis by blast
qed

section \<open>Uptime\<close>

lemma unat_uptime:
  assumes "0 \<le> t" and "t < 2 ^ 32"
  shows "unat (of_int t :: u32) = nat t"
  using assms by (simp add: unat_eq_nat_uint uint_word_of_int)

text \<open>
  The uptime of the dump is the running time split into days, hours, minutes and seconds, each below its
  bound, as long as the daemon has run for less than \<open>2 ^ 32\<close> seconds (then the counter starts again).
\<close>

lemma uptime_splits:
  assumes "0 \<le> now - start" and "now - start < 2 ^ 32" and "uptime now start = (d, h, m, s)"
  shows "unat d * 86400 + unat h * 3600 + unat m * 60 + unat s = nat (now - start) \<and> unat h < 24 \<and> unat m < 60 \<and> unat s < 60"
proof -
  define t where "t = (of_int (now - start) :: u32)"
  have t: "unat t = nat (now - start)" unfolding t_def using assms(1,2) by (rule unat_uptime)
  have mul: "t div 86400 * 24 * 60 * 60 = t div 86400 * 86400" "h' * 60 * 60 = h' * (3600 :: u32)" for h'
    by (simp_all add: mult.assoc)
  have e: "d = t div 86400" "h = t mod 86400 div 3600" "m = t mod 86400 mod 3600 div 60" "s = t mod 86400 mod 3600 mod 60"
    using assms(3) unfolding uptime_def Let_def t_def [symmetric] mul minus_div_mult_eq_mod
    by (auto simp: minus_mult_div_eq_mod)
  have "unat d = unat t div 86400" "unat h = unat t mod 86400 div 3600" "unat m = unat t mod 86400 mod 3600 div 60"
    "unat s = unat t mod 86400 mod 3600 mod 60"
    unfolding e by (simp_all add: unat_div_distrib unat_mod_distrib)
  moreover have "n div 86400 * 86400 + n mod 86400 div 3600 * 3600 + n mod 86400 mod 3600 div 60 * 60 + n mod 86400 mod 3600 mod 60 = n" for n :: nat
    by presburger
  moreover have "n mod 86400 div 3600 < 24" "n mod 86400 mod 3600 div 60 < 60" for n :: nat
    by (rule less_mult_imp_div_less, simp)+
  ultimately show ?thesis unfolding t [symmetric] by auto
qed

lemma uptime_splits_witness: "uptime 100000 0 = (1, 3, 46, 40) \<and> unat (1 :: u32) * 86400 + unat (3 :: u32) * 3600 + unat (46 :: u32) * 60 + unat (40 :: u32) = nat (100000 - 0)"
proof -
  have u: "uptime 100000 0 = (1, 3, 46, 40)" by (simp add: uptime_def)
  then show ?thesis using uptime_splits [of 100000 0 1 3 46 40] by simp
qed

section \<open>Interface updates\<close>

text \<open>
  When an interface is created because a packet came in on it, \<^verbatim>\<open>update_interfaces\<close> is to find its addresses. It
  skips them: entries of that interface change nothing, and the interface gets the link-local
  address of another one.
\<close>

lemma update_specific_skips_own:
  assumes "\<forall>ifa \<in> set own. ifa_index ifa = in_ifindex (int_at c i)" and "i < length (c_ints c)"
    and "ifa_index other \<noteq> in_ifindex (int_at c i)" and "ifa_family other = Some AF_INET6" and "\<not> ignored_ifa other"
    and "IN6_IS_ADDR_LINKLOCAL (ifa_addr other)"
  shows "update_loop os (Some i) own got c = Inr c
    \<and> (\<exists>c'. update_loop os (Some i) (own @ [other]) (False, False) c = Inr c' \<and> in_linklocal (int_at c' i) = ifa_addr other)"
proof -
  have skip: "update_loop os (Some i) (own @ rest) got c = update_loop os (Some i) rest got c" for rest got
    using assms(1) by (induction own) auto
  have "update_loop os (Some i) own got c = Inr c" using skip [of "[]"] by simp
  moreover have "\<not> unwanted_addr other" using assms(6) by (simp add: unwanted_addr_def)
  then have "\<exists>c'. update_loop os (Some i) (own @ [other]) (False, False) c = Inr c' \<and> in_linklocal (int_at c' i) = ifa_addr other"
    using assms(2-6) by (simp add: skip set_address_def)
  ultimately show ?thesis by blast
qed

lemma update_specific_skips_own_witness:
  "\<exists>c'. update_loop example_os (Some 1) [\<lparr>ifa_name = ''eth1'', ifa_index = 1, ifa_loopback = False, ifa_up = True, ifa_running = True,
       ifa_family = Some 10, ifa_addr = 0xfe800000000000000000000000000001\<rparr>,
     \<lparr>ifa_name = ''eth2'', ifa_index = 2, ifa_loopback = False, ifa_up = True, ifa_running = True,
       ifa_family = Some 10, ifa_addr = 0xfe800000000000000000000000000002\<rparr>] (False, False) example_forward_conf = Inr c'
     \<and> in_linklocal (int_at c' 1) = 0xfe800000000000000000000000000002"
proof -
  let ?own = "\<lparr>ifa_name = ''eth1'', ifa_index = 1, ifa_loopback = False, ifa_up = True, ifa_running = True,
       ifa_family = Some 10, ifa_addr = 0xfe800000000000000000000000000001\<rparr> :: ifaddr"
  let ?other = "\<lparr>ifa_name = ''eth2'', ifa_index = 2, ifa_loopback = False, ifa_up = True, ifa_running = True,
       ifa_family = Some 10, ifa_addr = 0xfe800000000000000000000000000002\<rparr> :: ifaddr"
  have "\<exists>c'. update_loop example_os (Some 1) ([?own] @ [?other]) (False, False) example_forward_conf = Inr c'
      \<and> in_linklocal (int_at c' 1) = ifa_addr ?other"
    by (rule conjunct2 [OF update_specific_skips_own])
      (simp_all add: example_forward_conf_def ignored_ifa_def in6_class_defs)
  then show ?thesis by simp
qed

section \<open>Losing an interface\<close>



section \<open>Shutdown\<close>

lemma destroy_all:
  "length (c_ints (fold (\<lambda>j c. if in_mtu (int_at c j) = 0 then c else int_destroy j c) js c)) = length (c_ints c)"
  "k \<in> set js \<or> in_mtu (int_at c k) = 0 \<Longrightarrow> k < length (c_ints c) \<Longrightarrow>
     in_mtu (int_at (fold (\<lambda>j c. if in_mtu (int_at c j) = 0 then c else int_destroy j c) js c) k) = 0"
  "c_groups (fold (\<lambda>j c. if in_mtu (int_at c j) = 0 then c else int_destroy j c) js c) = c_groups c"
proof (induction js arbitrary: c)
  case (Cons j js)
  { case 1 then show ?case using Cons by (simp add: int_destroy_def) }
  { case 2 then show ?case using Cons.IH(2) [of "int_destroy j c"] Cons.IH(2) [of c]
      by (auto simp: int_destroy_def nth_upd_int) }
  { case 3 then show ?case using Cons by simp }
qed simp_all

lemma shutdown_clean: "c_groups (shutdown os c) = [] \<and> int_find k (shutdown os c) = None"
proof -
  define d where "d = fold (\<lambda>j c. if in_mtu (int_at c j) = 0 then c else int_destroy j c) [0..<length (c_ints c)] (c\<lparr>c_groups := []\<rparr>)"
  have "in_mtu (int_at d k) = 0" if "k < length (c_ints d)"
    using that destroy_all(2) [of k "[0..<length (c_ints c)]" "c\<lparr>c_groups := []\<rparr>"] by (simp add: destroy_all(1) d_def)
  then have "int_find k d = None" "c_groups d = []"
    by (cases "k < length (c_ints d)"; simp add: int_find_def) (simp add: d_def destroy_all(3))
  moreover have "c_ints (shutdown os c) = c_ints d" "c_groups (shutdown os c) = c_groups d"
    by (simp_all add: shutdown_def Let_def mrouter6_delmif_def d_def)
  ultimately show ?thesis by (simp add: int_find_def)
qed

end
