(* ===== verification/Dump.thy ===== *)
theory Dump
  imports Daemon
begin

text \<open>
  The statistics dump of \<^verbatim>\<open>src/ecmh.c\<close>, \<^verbatim>\<open>sigusr1\<close>: the lines written to the rewound and truncated file. The library
  functions \<^verbatim>\<open>inet_ntop\<close> and \<^verbatim>\<open>strftime\<close> of \<^verbatim>\<open>gmtime\<close> and the version string are arguments. The
  section on groups is compiled out with \<^verbatim>\<open>#if 0\<close>, and with it the only place that counts
  \<^verbatim>\<open>subscriptions\<close>.
\<close>

definition fmt_02u :: "nat \<Rightarrow> string" where
  "fmt_02u n = (if n < 10 then ''0'' else []) @ decimal n"

definition interface_type :: "nat \<Rightarrow> string" where
  "interface_type family = (if family = 1 then ''Ethernet'' else if family = 776 then ''sit'' else ''Unknown'')"

definition dump_interface :: "(in6_addr \<Rightarrow> string) \<Rightarrow> intnode \<Rightarrow> string list" where
  "dump_interface inet_ntop intn =
    [''Interface: '' @ in_name intn,
     ''  Index number           : '' @ decimal (in_ifindex intn),
     ''  MTU                    : '' @ decimal (in_mtu intn),
     ''  Interface Type         : '' @ interface_type (in_hwfamily intn) @ '' ('' @ decimal (in_hwfamily intn) @ '')'',
     ''  Link-local address     : '' @ inet_ntop (in_linklocal intn),
     ''  Global unicast address : '' @ inet_ntop (in_global intn),
     if in_mld_version intn = 0 then ''  MLD version            : none''
     else ''  MLD version            : v'' @ decimal (in_mld_version intn),
     ''  Packets received       : '' @ decimal (unat (in_stat_packets_received intn)),
     ''  Packets sent           : '' @ decimal (unat (in_stat_packets_sent intn)),
     ''  Bytes received         : '' @ decimal (unat (in_stat_bytes_received intn)),
     ''  Bytes sent             : '' @ decimal (unat (in_stat_bytes_sent intn)),
     ''  ICMP's received        : '' @ decimal (unat (in_stat_icmp_received intn)),
     ''  ICMP's sent            : '' @ decimal (unat (in_stat_icmp_sent intn)),
     []]"

text \<open>The loop over the array: the lines, and \<^verbatim>\<open>count\<close>.\<close>

fun dump_interfaces :: "(in6_addr \<Rightarrow> string) \<Rightarrow> intnode list \<Rightarrow> nat \<Rightarrow> string list \<times> nat" where
  "dump_interfaces inet_ntop [] count0 = ([], count0)"
| "dump_interfaces inet_ntop (intn # ints) count0 =
     (if in_mtu intn = 0 then dump_interfaces inet_ntop ints count0
      else let (ls, count0) = dump_interfaces inet_ntop ints (count0 + 1) in (dump_interface inet_ntop intn @ ls, count0))"

definition dump_statistics :: "(time_t \<Rightarrow> string) \<Rightarrow> string \<Rightarrow> nat \<Rightarrow> nat \<Rightarrow> conf \<Rightarrow> string list" where
  "dump_statistics started version count0 subs c =
    (let (uptime_d, uptime_h, uptime_m, uptime_s) = uptime (c_clock c) (c_stat_starttime c) in
    [''*** Statistics Dump'', [],
     ''Version              : ecmh '' @ version,
     ''Started              : '' @ started (c_stat_starttime c) @ '' GMT'',
     ''Uptime               : '' @ decimal (unat uptime_d) @ '' days '' @ fmt_02u (unat uptime_h) @ '':'' @ fmt_02u (unat uptime_m)
       @ '':'' @ fmt_02u (unat uptime_s),
     [],
     ''Interfaces Monitored : '' @ decimal count0,
     ''Groups Managed       : '' @ decimal (length (c_groups c)),
     ''Total Subscriptions  : '' @ decimal subs,
     ''v2 Robustness Factor : '' @ decimal (nat ECMH_ROBUSTNESS_FACTOR),
     ''Subscription Timeout : '' @ decimal (nat (ECMH_SUBSCRIPTION_TIMEOUT * ECMH_ROBUSTNESS_FACTOR)),
     [],
     ''Packets Received     : '' @ decimal (unat (c_stat_packets_received c)),
     ''Packets Sent         : '' @ decimal (unat (c_stat_packets_sent c)),
     ''Bytes Received       : '' @ decimal (unat (c_stat_bytes_received c)),
     ''Bytes Sent           : '' @ decimal (unat (c_stat_bytes_sent c)),
     ''ICMP's received      : '' @ decimal (unat (c_stat_icmp_received c)),
     ''ICMP's sent          : '' @ decimal (unat (c_stat_icmp_sent c)),
     ''Hop Limit Exceeded   : '' @ decimal (unat (c_stat_hlim_exceeded c)),
     [],
     ''*** Statistics Dump (end)''])"

definition sigusr1 :: "(in6_addr \<Rightarrow> string) \<Rightarrow> (time_t \<Rightarrow> string) \<Rightarrow> string \<Rightarrow> conf \<Rightarrow> string list" where
  "sigusr1 inet_ntop started version c =
     (let (ls, count0) = dump_interfaces inet_ntop (c_ints c) 0 in
      [''*** Subscription Information Dump'', [], ''*** Interface Dump'', []] @ ls
      @ [''*** Interface Dump (end - '' @ decimal count0 @ '' interfaces)'', []]
      @ dump_statistics started version count0 0 c)"

section \<open>What can be read back\<close>

definition live :: "conf \<Rightarrow> intnode list" where
  "live c = filter (\<lambda>n. in_mtu n \<noteq> 0) (c_ints c)"

definition int_counters :: "intnode \<Rightarrow> string \<times> nat \<times> nat \<times> u64 \<times> u64 \<times> u64 \<times> u64 \<times> u64 \<times> u64" where
  "int_counters n = (in_name n, in_ifindex n, in_mtu n, in_stat_packets_received n, in_stat_packets_sent n,
     in_stat_bytes_received n, in_stat_bytes_sent n, in_stat_icmp_received n, in_stat_icmp_sent n)"

definition counters :: "conf \<Rightarrow> nat \<times> u64 \<times> u64 \<times> u64 \<times> u64 \<times> u64 \<times> u64 \<times> u64" where
  "counters c = (length (c_groups c), c_stat_packets_received c, c_stat_packets_sent c, c_stat_bytes_received c,
     c_stat_bytes_sent c, c_stat_icmp_received c, c_stat_icmp_sent c, c_stat_hlim_exceeded c)"

lemma dump_interfaces_eq:
  "dump_interfaces inet_ntop ints count0 =
     (concat (map (dump_interface inet_ntop) (filter (\<lambda>n. in_mtu n \<noteq> 0) ints)), count0 + length (filter (\<lambda>n. in_mtu n \<noteq> 0) ints))"
  by (induction ints arbitrary: count0) (simp_all add: Let_def)

lemma length_dump_interface: "length (dump_interface inet_ntop n) = 14"
  by (simp add: dump_interface_def)

lemma length_dump_statistics: "length (dump_statistics started version count0 subs c) = 21"
  by (simp add: dump_statistics_def split: prod.splits)

lemma concat_blocks_inject:
  assumes "\<And>x. length (f x) = k" and "0 < k" and "concat (map f xs) = concat (map f ys)"
  shows "map f xs = map f ys"
  using assms(3)
proof (induction xs arbitrary: ys)
  case Nil
  then have "ys = []" using assms(1,2) by (cases ys) (auto simp: length_0_conv [symmetric] simp del: length_0_conv)
  then show ?case by simp
next
  case (Cons x xs)
  then have "concat (map f ys) \<noteq> []" using assms(1,2) by (metis append_is_Nil_conv concat.simps(2) length_greater_0_conv list.simps(9))
  then obtain y ys' where y: "ys = y # ys'" by (cases ys) auto
  then have "f x = f y \<and> concat (map f xs) = concat (map f ys')" using Cons.prems assms(1) by (simp add: append_eq_append_conv)
  then show ?case using Cons.IH y by simp
qed

lemma map_eq_transfer: "map f xs = map f ys \<Longrightarrow> (\<And>x y. f x = f y \<Longrightarrow> g x = g y) \<Longrightarrow> map g xs = map g ys"
proof (induction xs arbitrary: ys)
  case (Cons x xs)
  from Cons.prems(1) obtain y ys' where y: "ys = y # ys'" "f x = f y" "map f xs = map f ys'" by (auto simp: Cons_eq_map_conv)
  then show ?case using Cons.IH [OF y(3) Cons.prems(2)] Cons.prems(2) [OF y(2)] by simp
qed simp

lemma unat_inject [simp]: "unat a = unat b \<longleftrightarrow> a = b"
  by (rule word_eq_iff_unsigned [symmetric])

lemma dump_interface_inject: "dump_interface inet_ntop n = dump_interface inet_ntop m \<Longrightarrow> int_counters n = int_counters m"
  by (simp add: dump_interface_def int_counters_def)

lemma dump_statistics_inject:
  "dump_statistics started version n subs c = dump_statistics started version n' subs' c' \<Longrightarrow> counters c = counters c' \<and> n = n' \<and> subs = subs'"
  by (simp add: dump_statistics_def counters_def split: prod.splits)

lemma sigusr1_eq:
  "sigusr1 inet_ntop started version c =
     [''*** Subscription Information Dump'', [], ''*** Interface Dump'', []] @ concat (map (dump_interface inet_ntop) (live c))
     @ [''*** Interface Dump (end - '' @ decimal (length (live c)) @ '' interfaces)'', []]
     @ dump_statistics started version (length (live c)) 0 c"
  by (simp add: sigusr1_def dump_interfaces_eq live_def)



end
