(* ===== verification/Mtrace6.thy ===== *)
theory Mtrace6
  imports Tables
begin

text \<open>
  The trace tool \<^verbatim>\<open>tools/mtrace6/mtrace6.c\<close> with the packet formats of \<^verbatim>\<open>src/trace.h\<close>: the command line,
  the addresses it resolves, the query it sends and the response it prints. Its file-static
  variables are the record \<open>mstate\<close>; every function that may call \<^verbatim>\<open>err\<close>, \<^verbatim>\<open>errx\<close> or \<^verbatim>\<open>usage\<close> returns either
  how the process stops, with the state at that moment, or its result. Messages of \<^verbatim>\<open>warnx\<close> and \<^verbatim>\<open>err\<close>
  are recorded without the program name and the text of \<^verbatim>\<open>errno\<close>. The build is the little-endian
  one with 64-bit pointers, in which \<^verbatim>\<open>ECMH_VERSION\<close> is defined.
\<close>

section \<open>Packet formats\<close>

text \<open>
  \<^verbatim>\<open>struct tr6_query\<close>, 52 bytes, and \<^verbatim>\<open>struct tr6_resp\<close>, 60 bytes. The bit fields \<^verbatim>\<open>qid\<close> and \<^verbatim>\<open>rhlim\<close>
  share a word of the machine's byte order; the other words are read here in network order, which is
  what \<^verbatim>\<open>ntohl\<close> makes of them.
\<close>

record tr6_query =
  tr_src :: in6_addr
  tr_dst :: in6_addr
  tr_raddr :: in6_addr
  tr_qid :: "24 word"
  tr_rhlim :: u8

record tr6_resp =
  tr_qarr :: u32
  tr_inifid :: u32
  tr_outifid :: u32
  tr_lcladdr :: in6_addr
  tr_rmtaddr :: in6_addr
  tr_vifin :: u32
  tr_vifout :: u32
  tr_pktcnt :: u32
  tr_rproto :: u8
  tr_flags :: u8
  tr_plen :: u8
  tr_rflags :: u8

definition tr6_query_at :: "bytes \<Rightarrow> nat \<Rightarrow> tr6_query res" where
  "tr6_query_at buf off = bindR (read_bytes buf off 52) (\<lambda>b.
     Inr \<lparr>tr_src = be_word (take 16 b), tr_dst = be_word (take 16 (drop 16 b)), tr_raddr = be_word (take 16 (drop 32 b)),
       tr_qid = be_word (rev (take 3 (drop 48 b))), tr_rhlim = b ! 51\<rparr>)"

definition tr6_resp_at :: "bytes \<Rightarrow> nat \<Rightarrow> tr6_resp res" where
  "tr6_resp_at buf off = bindR (read_bytes buf off 60) (\<lambda>b.
     Inr \<lparr>tr_qarr = be_word (take 4 b), tr_inifid = be_word (take 4 (drop 4 b)), tr_outifid = be_word (take 4 (drop 8 b)),
       tr_lcladdr = be_word (take 16 (drop 12 b)), tr_rmtaddr = be_word (take 16 (drop 28 b)),
       tr_vifin = be_word (take 4 (drop 44 b)), tr_vifout = be_word (take 4 (drop 48 b)), tr_pktcnt = be_word (take 4 (drop 52 b)),
       tr_rproto = b ! 56, tr_flags = b ! 57, tr_plen = b ! 58, tr_rflags = b ! 59\<rparr>)"

section \<open>Library functions\<close>

definition isdigit :: "char \<Rightarrow> bool" where
  "isdigit c \<longleftrightarrow> 48 \<le> (of_char c :: nat) \<and> (of_char c :: nat) \<le> 57"

definition isspace :: "char \<Rightarrow> bool" where
  "isspace c \<longleftrightarrow> (of_char c :: nat) = 32 \<or> 9 \<le> (of_char c :: nat) \<and> (of_char c :: nat) \<le> 13"

text \<open>\<^verbatim>\<open>atoi\<close>, whose result C defines for numbers in the range of \<^verbatim>\<open>int\<close>.\<close>

definition atoi :: "string \<Rightarrow> int" where
  "atoi str =
     (let t = dropWhile isspace str;
          val = (\<lambda>ds. foldl (\<lambda>a c. 10 * a + (of_char c - 48)) 0 (takeWhile isdigit ds)) in
      case t of [] \<Rightarrow> 0
      | c # cs \<Rightarrow> if c = CHR ''-'' then - val cs else if c = CHR ''+'' then val cs else val t)"

text \<open>The conversions \<^verbatim>\<open>%d\<close> and \<^verbatim>\<open>%3d\<close>.\<close>

definition fmt_d :: "int \<Rightarrow> string" where
  "fmt_d i = (if i < 0 then ''-'' @ decimal (nat (- i)) else decimal (nat i))"

definition fmt_3d :: "int \<Rightarrow> string" where
  "fmt_3d i = replicate (3 - length (fmt_d i)) (CHR '' '') @ fmt_d i"

text \<open>
  A socket address is its bytes: the family in the first two, in the machine's order, the IPv6
  address in bytes 8 to 23. A \<^verbatim>\<open>struct sockaddr_in6\<close> has 28, a \<^verbatim>\<open>struct sockaddr_storage\<close> 128.
\<close>

abbreviation (input) AF_INET6 :: nat where "AF_INET6 \<equiv> 10"
abbreviation (input) MLD_MTRACE_RESP :: u8 where "MLD_MTRACE_RESP \<equiv> 200"
abbreviation (input) MLD_MTRACE :: u8 where "MLD_MTRACE \<equiv> 201"

definition sa_family :: "bytes \<Rightarrow> nat" where
  "sa_family sa = be_nat (rev (take 2 sa))"

definition sin6_addr :: "bytes \<Rightarrow> in6_addr" where
  "sin6_addr sa = be_word (take 16 (drop 8 sa))"

definition sockaddr_in6 :: "in6_addr \<Rightarrow> bytes" where
  "sockaddr_in6 a = [10, 0] @ replicate 6 0 @ be_bytes 16 a @ replicate 4 0"

definition IN6_IS_ADDR_SITELOCAL :: "in6_addr \<Rightarrow> bool" where
  "IN6_IS_ADDR_SITELOCAL a \<longleftrightarrow> s6_addr a 0 = 0xfe \<and> s6_addr a 1 AND 0xc0 = 0xc0"

lemma sockaddr_in6_facts [simp]:
  "length (sockaddr_in6 a) = 28" "sa_family (sockaddr_in6 a @ post) = 10" "sa_family (sockaddr_in6 a) = 10"
  "sin6_addr (sockaddr_in6 a @ post) = a" "sin6_addr (sockaddr_in6 a) = a"
  by (simp_all add: sockaddr_in6_def sa_family_def sin6_addr_def be_nat_def)

section \<open>The state and the system\<close>

datatype sockopt = Hops bool int | Join in6_addr u32 | Icmp6_pass u8

datatype event = Stdout string | Stderr string | Setsockopt sockopt | Query bytes bytes

record mstate =
  m_gateway :: "string option"
  m_intface :: "string option"
  m_source :: string
  m_group :: string
  m_receiver :: "string option"
  m_destination :: "string option"
  m_linkstr :: "string option"
  m_mldsoc :: int
  m_hops :: int
  m_maxhops :: int
  m_waittime :: int
  m_opt_n :: bool
  m_gw_sock :: bytes
  m_src_sock :: bytes
  m_grp_sock :: bytes
  m_dst_sock :: bytes
  m_rcv_sock :: bytes
  m_querypacket :: bytes
  m_buf :: string
  m_events :: "event list"

text \<open>
  What the system answers. \<open>ai_addr\<close> is the memory that can be read at the address of a
  \<^verbatim>\<open>getaddrinfo\<close> result, \<open>ai_addrlen\<close> the length it announces; an entry of \<open>sy_getifaddrs\<close> is a name and the
  memory at its \<^verbatim>\<open>ifa_addr\<close>, \<open>None\<close> for \<^verbatim>\<open>NULL\<close>; \<open>sy_recvfrom\<close> is the sender and the whole datagram;
  \<open>sy_getnameinfo\<close> is \<open>None\<close> when it fails, which leaves the buffer as it was.
\<close>

record addrinfo =
  ai_addr :: "bytes option"
  ai_addrlen :: nat

record sys =
  sy_getaddrinfo :: "string \<Rightarrow> string + addrinfo"
  sy_getifaddrs :: "(string \<times> bytes option) list option"
  sy_nametoindex :: "string \<Rightarrow> u32"
  sy_socket :: int
  sy_setsockopt :: "sockopt \<Rightarrow> int"
  sy_malloc :: "nat \<Rightarrow> bool"
  sy_random :: u64
  sy_sendto :: "bytes \<Rightarrow> bytes \<Rightarrow> int"
  sy_select :: "int \<Rightarrow> int"
  sy_recvfrom :: "(bytes \<times> bytes) option"
  sy_getnameinfo :: "bytes \<Rightarrow> bool \<Rightarrow> string option"

datatype stop = Exit int | Crash fault

type_synonym 'a mres = "stop \<times> mstate + 'a"

definition bindM :: "'a mres \<Rightarrow> ('a \<Rightarrow> 'b mres) \<Rightarrow> 'b mres" where
  "bindM m f = (case m of Inl e \<Rightarrow> Inl e | Inr x \<Rightarrow> f x)"

definition log_event :: "event \<Rightarrow> mstate \<Rightarrow> mstate" where
  "log_event e s = s\<lparr>m_events := m_events s @ [e]\<rparr>"

abbreviation say :: "string \<Rightarrow> mstate \<Rightarrow> mstate" where
  "say str \<equiv> log_event (Stdout str)"

abbreviation warnx :: "string \<Rightarrow> mstate \<Rightarrow> mstate" where
  "warnx str \<equiv> log_event (Stderr str)"

definition errx :: "string \<Rightarrow> mstate \<Rightarrow> 'a mres" where
  "errx str s = Inl (Exit 1, warnx str s)"

definition checked :: "'a res \<Rightarrow> mstate \<Rightarrow> 'a mres" where
  "checked r s = (case r of Inl f \<Rightarrow> Inl (Crash f, s) | Inr x \<Rightarrow> Inr x)"

section \<open>The command line\<close>

definition usage :: "mstate \<Rightarrow> 'a mres" where
  "usage s = errx (''usage: mtrace6 '' @ ''[-d destination] [-g gateway] [-h hops] [-i interface] ''
     @ ''[-l link] [-m maxhops] [-n] [-r response_addr] [-w waittime] '' @ ''source group'') s"

text \<open>The file-static variables as they are initialised.\<close>

definition initial :: mstate where
  "initial = \<lparr>m_gateway = None, m_intface = None, m_source = [], m_group = [], m_receiver = None, m_destination = None,
     m_linkstr = None, m_mldsoc = 0, m_hops = 64, m_maxhops = 127, m_waittime = 3, m_opt_n = False,
     m_gw_sock = replicate 128 0, m_src_sock = replicate 128 0, m_grp_sock = replicate 128 0,
     m_dst_sock = replicate 128 0, m_rcv_sock = replicate 128 0, m_querypacket = [], m_buf = [], m_events = []\<rparr>"

text \<open>One pass of the option loop; an option is the letter that \<^verbatim>\<open>getopt\<close> returns and \<^verbatim>\<open>optarg\<close>.\<close>

definition mtrace_option :: "char \<times> string \<Rightarrow> mstate \<Rightarrow> mstate mres" where
  "mtrace_option opt s =
     (let (op, optarg) = opt in
      if op = CHR ''d'' then Inr (s\<lparr>m_destination := Some optarg\<rparr>)
      else if op = CHR ''g'' then Inr (s\<lparr>m_gateway := Some optarg\<rparr>)
      else if op = CHR ''h'' then
        let s = s\<lparr>m_hops := atoi optarg\<rparr> in
        if m_hops s < 0 \<or> m_hops s > 255 then usage (warnx ''query/response hops must be between 0 and 255'' s) else Inr s
      else if op = CHR ''i'' then Inr (s\<lparr>m_intface := Some optarg\<rparr>)
      else if op = CHR ''l'' then Inr (s\<lparr>m_linkstr := Some optarg\<rparr>)
      else if op = CHR ''m'' then
        let s = s\<lparr>m_maxhops := atoi optarg\<rparr> in
        if m_maxhops s < 0 \<or> m_maxhops s > 255 then usage (warnx ''maxhops must be between 0 and 255'' s) else Inr s
      else if op = CHR ''n'' then Inr (s\<lparr>m_opt_n := True\<rparr>)
      else if op = CHR ''r'' then Inr (s\<lparr>m_receiver := Some optarg\<rparr>)
      else if op = CHR ''w'' then Inr (s\<lparr>m_waittime := atoi optarg\<rparr>)
      else usage s)"

fun mtrace_options :: "(char \<times> string) list \<Rightarrow> mstate \<Rightarrow> mstate mres" where
  "mtrace_options [] s = Inr s"
| "mtrace_options (opt # opts) s = bindM (mtrace_option opt s) (mtrace_options opts)"

section \<open>Addresses\<close>

definition set_sockaddr :: "sys \<Rightarrow> string \<Rightarrow> nat \<Rightarrow> mstate \<Rightarrow> bytes mres" where
  "set_sockaddr sy addrname l s =
     (case sy_getaddrinfo sy addrname of
        Inl e \<Rightarrow> errx (''getaddrinfo faild: '' @ e) s
      | Inr ai \<Rightarrow>
          (case ai_addr ai of
             None \<Rightarrow> errx ''getaddrinfo failed'' s
           | Some mem \<Rightarrow>
               if ai_addrlen ai > l then errx ''sockaddr too big'' s
               else checked (read_bytes mem 0 l) s))"

definition is_multicast :: "bytes \<Rightarrow> bool" where
  "is_multicast sa = (if sa_family sa = AF_INET6 then IN6_IS_ADDR_MULTICAST (sin6_addr sa) else False)"

text \<open>\<^verbatim>\<open>snprintf\<close> cuts at \<^verbatim>\<open>NI_MAXHOST\<close>, 1025 bytes with the terminator.\<close>

definition all_routers_str :: "nat \<Rightarrow> mstate \<Rightarrow> string mres" where
  "all_routers_str family s =
     (if family = AF_INET6 then
        Inr (case m_linkstr s of Some link \<Rightarrow> take 1024 (''ff02::1%'' @ link) | None \<Rightarrow> ''ff02::1'')
      else errx (''all_routers_str: unknown AF('' @ fmt_d (int family) @ '')'') s)"

definition ip6_validaddr :: "string \<Rightarrow> bytes \<Rightarrow> bool" where
  "ip6_validaddr ifname addr \<longleftrightarrow>
     \<not> (IN6_IS_ADDR_LOOPBACK (sin6_addr addr) \<or> IN6_IS_ADDR_LINKLOCAL (sin6_addr addr) \<or> IN6_IS_ADDR_SITELOCAL (sin6_addr addr))"

fun find_my_addr :: "nat \<Rightarrow> (string \<times> bytes option) list \<Rightarrow> bytes option res" where
  "find_my_addr family [] = Inr None"
| "find_my_addr family ((name, None) # ifas) = Inl Null_deref"
| "find_my_addr family ((name, Some addr) # ifas) =
     (if sa_family addr \<noteq> family then find_my_addr family ifas
      else if family = AF_INET6 \<and> ip6_validaddr name addr then Inr (Some addr)
      else find_my_addr family ifas)"

text \<open>The return value, which no caller looks at, and the memory at \<^verbatim>\<open>addrp\<close> afterwards.\<close>

definition get_my_sockaddr :: "sys \<Rightarrow> nat \<Rightarrow> bytes \<Rightarrow> nat \<Rightarrow> nat \<Rightarrow> mstate \<Rightarrow> (int \<times> bytes) mres" where
  "get_my_sockaddr sy family addrp l sa_len s =
     (case sy_getifaddrs sy of
        None \<Rightarrow> errx ''getifaddrs'' s
      | Some ifap \<Rightarrow>
          bindM (checked (find_my_addr family ifap) s) (\<lambda>found.
          case found of
            None \<Rightarrow> Inr (-1, addrp)
          | Some addr \<Rightarrow> bindM (checked (read_bytes addr 0 sa_len) s) (\<lambda>b. Inr (0, b @ drop sa_len addrp))))"

section \<open>The socket\<close>

definition setsockopt :: "sys \<Rightarrow> sockopt \<Rightarrow> mstate \<Rightarrow> int \<times> mstate" where
  "setsockopt sy opt s = (sy_setsockopt sy opt, log_event (Setsockopt opt) s)"

definition set_hlim :: "sys \<Rightarrow> bytes \<Rightarrow> int \<Rightarrow> mstate \<Rightarrow> mstate mres" where
  "set_hlim sy addr hops s =
     (if sa_family addr = AF_INET6 then
        let multi = IN6_IS_ADDR_MULTICAST (sin6_addr addr); (r, s) = setsockopt sy (Hops multi hops) s in
        if r = -1 then errx (if multi then ''setsockopt(IPV6_MULTICAST_HOPS)'' else ''setsockopt(IPV6_UNICAST_HOPS)'') s
        else Inr s
      else Inr s)"

text \<open>A \<^verbatim>\<open>NULL\<close> name is passed to \<^verbatim>\<open>if_nametoindex\<close>, which reads it.\<close>

definition set_join :: "sys \<Rightarrow> string option \<Rightarrow> bytes \<Rightarrow> mstate \<Rightarrow> mstate mres" where
  "set_join sy ifname grp s =
     (if sa_family grp = AF_INET6 then
        (case ifname of
           None \<Rightarrow> Inl (Crash Null_deref, s)
         | Some name \<Rightarrow>
             let ifindex = sy_nametoindex sy name in
             if ifindex = 0 then errx (''set_join: if_nametoindex failed for '' @ name) s
             else let (r, s) = setsockopt sy (Join (sin6_addr grp) ifindex) s in
               if r < 0 then errx ''setsockopt(IPV6_JOIN_GROUP)'' s else Inr s)
      else Inr s)"

definition set_filter :: "sys \<Rightarrow> nat \<Rightarrow> mstate \<Rightarrow> mstate mres" where
  "set_filter sy family s =
     (if family = AF_INET6 then
        let (r, s) = setsockopt sy (Icmp6_pass MLD_MTRACE_RESP) s in
        if r < 0 then errx ''setsockopt(ICMP6_FILTER)'' s else Inr s
      else Inr s)"

definition open_gateway :: "sys \<Rightarrow> mstate \<Rightarrow> mstate mres" where
  "open_gateway sy s =
     bindM (case m_gateway s of
              Some gateway \<Rightarrow> set_sockaddr sy gateway 128 s
            | None \<Rightarrow> bindM (all_routers_str (sa_family (m_grp_sock s)) s) (\<lambda>r. set_sockaddr sy r 128 s))
       (\<lambda>gw. Inr (s\<lparr>m_gw_sock := gw\<rparr>))"

text \<open>\<^verbatim>\<open>sizeof(dst_sock)\<close> and \<^verbatim>\<open>sizeof(rcv_sock)\<close> are the sizes of pointers, 8.\<close>

definition open_destination :: "sys \<Rightarrow> mstate \<Rightarrow> mstate mres" where
  "open_destination sy s =
     (case m_destination s of
        Some destination \<Rightarrow>
          bindM (set_sockaddr sy destination 128 s) (\<lambda>dst.
          let s = s\<lparr>m_dst_sock := dst\<rparr> in
          if is_multicast dst then errx (''destination('' @ destination @ '') is not a unicast address'') s else Inr s)
      | None \<Rightarrow>
          bindM (get_my_sockaddr sy (sa_family (m_grp_sock s)) (m_dst_sock s) 128 8 s) (\<lambda>(r, dst). Inr (s\<lparr>m_dst_sock := dst\<rparr>)))"

definition open_receiver :: "sys \<Rightarrow> mstate \<Rightarrow> mstate mres" where
  "open_receiver sy s =
     (case m_receiver s of
        Some receiver \<Rightarrow>
          bindM (set_sockaddr sy receiver 128 s) (\<lambda>rcv.
          let s = s\<lparr>m_rcv_sock := rcv\<rparr> in
          if is_multicast rcv \<and> m_intface s = None
          then errx (''receive I/F is not specified for multicast'' @ ''response('' @ receiver @ '')'') s else Inr s)
      | None \<Rightarrow>
          bindM (get_my_sockaddr sy (sa_family (m_grp_sock s)) (m_rcv_sock s) 128 8 s) (\<lambda>(r, rcv). Inr (s\<lparr>m_rcv_sock := rcv\<rparr>)))"

definition set_options :: "sys \<Rightarrow> mstate \<Rightarrow> mstate mres" where
  "set_options sy s =
     bindM (if m_hops s \<noteq> 0 then set_hlim sy (m_gw_sock s) (m_hops s) s else Inr s) (\<lambda>s.
     bindM (if m_receiver s \<noteq> None \<and> is_multicast (m_rcv_sock s) then set_join sy (m_intface s) (m_rcv_sock s) s else Inr s) (\<lambda>s.
     set_filter sy (sa_family (m_grp_sock s)) s))"

definition open_socket :: "sys \<Rightarrow> mstate \<Rightarrow> mstate mres" where
  "open_socket sy s =
     bindM (set_sockaddr sy (m_group s) 128 s) (\<lambda>grp.
     let s = s\<lparr>m_grp_sock := grp\<rparr> in
     if \<not> is_multicast grp then errx (''group('' @ m_group s @ '') is not a multicast address'') s
     else bindM (set_sockaddr sy (m_source s) 128 s) (\<lambda>src.
     let s = s\<lparr>m_src_sock := src\<rparr> in
     if is_multicast src then errx (''source('' @ m_source s @ '') is not a unicast address'') s
     else bindM (open_gateway sy s) (\<lambda>s. bindM (open_destination sy s) (\<lambda>s. bindM (open_receiver sy s) (\<lambda>s.
     let s = s\<lparr>m_mldsoc := sy_socket sy\<rparr> in
     if m_mldsoc s < 0 then errx ''socket'' s else set_options sy s)))))"

section \<open>The query\<close>

definition make_ip6_packet :: "sys \<Rightarrow> mstate \<Rightarrow> mstate mres" where
  "make_ip6_packet sy s =
     (if \<not> sy_malloc sy 76 then errx ''make_ip6_packet: malloc failed'' s
      else Inr (s\<lparr>m_querypacket :=
        [MLD_MTRACE, of_int (m_maxhops s), 0, 0, 0, 0, 0, 0] @ be_bytes 16 (sin6_addr (m_grp_sock s))
        @ be_bytes 16 (sin6_addr (m_src_sock s)) @ be_bytes 16 (sin6_addr (m_dst_sock s)) @ be_bytes 16 (sin6_addr (m_rcv_sock s))
        @ [0, 0, 0, of_int (m_hops s)]\<rparr>))"

definition make_packet :: "sys \<Rightarrow> mstate \<Rightarrow> mstate mres" where
  "make_packet sy s =
     (if sa_family (m_grp_sock s) = AF_INET6 then make_ip6_packet sy s
      else errx (''make_packet: unsupported AF('' @ fmt_d (int (sa_family (m_grp_sock s))) @ '')'') s)"

text \<open>The assignment to the bit field keeps the low 24 bits of \<^verbatim>\<open>random()\<close> and leaves \<^verbatim>\<open>rhlim\<close> alone.\<close>

definition setqid :: "nat \<Rightarrow> u64 \<Rightarrow> bytes \<Rightarrow> bytes" where
  "setqid family rnd query =
     (if family = AF_INET6 then take 72 query @ rev (be_bytes 3 (ucast rnd :: 24 word)) @ drop 75 query else query)"

section \<open>The response\<close>

definition proto_type :: "nat \<Rightarrow> string" where
  "proto_type type =
     (if type = 1 then ''DVMRP'' else if type = 2 then ''MOSPF'' else if type = 3 then ''PIM'' else if type = 4 then ''CBT''
      else if type = 5 then ''PIM/Special'' else if type = 6 then ''PIM/Static'' else if type = 7 then ''DVMRP/Static''
      else if type = 0 then ''None'' else ''Unknown protocol code '' @ fmt_d (int type))"

definition pr_addr :: "sys \<Rightarrow> bytes \<Rightarrow> bool \<Rightarrow> mstate \<Rightarrow> string \<times> mstate" where
  "pr_addr sy addr numeric s =
     (let s = (case sy_getnameinfo sy addr numeric of None \<Rightarrow> s | Some name \<Rightarrow> s\<lparr>m_buf := name\<rparr>) in (m_buf s, s))"

definition fwd_code :: "string list" where
  "fwd_code = [''NOERR'', ''WRONGIF'', ''SPRUNE'', ''RPRUNE'', ''SCOPED'', ''NORT'',
     ''WRONGLH'', ''NOFWD'', ''RP'', ''RPFIF'', ''NOMC'', ''HIDDEN'']"

definition fwd_errcode :: "string list" where
  "fwd_errcode = [[], ''NOSPC'', ''OLD'', ''ADMIN'']"

definition str_rflags :: "u32 \<Rightarrow> mstate \<Rightarrow> string \<times> mstate" where
  "str_rflags flag s =
     (if 0x80 AND flag \<noteq> 0 then
        let flag = flag AND NOT 0x80 in
        if unat flag \<ge> length fwd_errcode \<or> flag = 0
        then (''UNKNOWN'', warnx (''unknown error code('' @ fmt_d (sint flag) @ '')'') s)
        else (fwd_errcode ! unat flag, s)
      else if unat flag \<ge> length fwd_code
      then (''UNKNOWN'', warnx (''unknown forward code('' @ fmt_d (sint flag) @ '')'') s)
      else (fwd_code ! unat flag, s))"

definition print_hop :: "sys \<Rightarrow> nat \<Rightarrow> tr6_resp \<Rightarrow> mstate \<Rightarrow> mstate" where
  "print_hop sy i rp s =
     (let s = say (fmt_3d (- int i) @ ''  '') s;
          (router, s) = pr_addr sy (sockaddr_in6 (tr_lcladdr rp)) (m_opt_n s) s;
          s = say router s;
          (upstream, s) = pr_addr sy (sockaddr_in6 (tr_rmtaddr rp)) True s;
          s = say (''('' @ upstream @ ''/'' @ fmt_d (sint (tr_inifid rp)) @ ''->'' @ fmt_d (sint (tr_outifid rp)) @ '') '') s;
          s = say (proto_type (unat (tr_rproto rp)) @ '' '') s;
          (flags, s) = str_rflags (ucast (tr_rflags rp) AND 0xff) s;
          s = say flags s in
      say [CHR 0x0A] s)"

function show_hops :: "sys \<Rightarrow> bytes \<Rightarrow> nat \<Rightarrow> nat \<Rightarrow> nat \<Rightarrow> mstate \<Rightarrow> mstate mres" where
  "show_hops sy buf rp_end i rp s =
     (if rp < rp_end then
        (case tr6_resp_at buf rp of
           Inl f \<Rightarrow> Inl (Crash f, s)
         | Inr resp \<Rightarrow> show_hops sy buf rp_end (i + 1) (rp + 60) (print_hop sy i resp s))
      else Inr s)"
  by pat_completeness auto
termination
  by (relation "measure (\<lambda>(sy, buf, rp_end, i, rp, s). rp_end - rp)") auto

declare show_hops.simps [simp del]

definition show_ip6_result :: "sys \<Rightarrow> bytes \<Rightarrow> nat \<Rightarrow> mstate \<Rightarrow> mstate mres" where
  "show_ip6_result sy frombuf datalen s =
     (if datalen < 24 + 52 + 60
      then Inr (warnx (''show_ip6_result: receive data length('' @ fmt_d (int datalen) @ '') is short'') s)
      else bindM (checked (read_bytes frombuf 0 1) s) (\<lambda>type.
        if type ! 0 = MLD_MTRACE_RESP then
          if (datalen - 24 - 52) mod 60 \<noteq> 0
          then Inr (warnx (''show_ip6_result: incomplete response ('' @ fmt_d (int datalen) @ '' bytes)'') s)
          else
            bindM (checked (tr6_query_at (m_querypacket s) 24) s) (\<lambda>tr6_query.
            bindM (checked (tr6_query_at frombuf 24) s) (\<lambda>tr6_rquery.
            if tr_qid tr6_query \<noteq> tr_qid tr6_rquery \<or> tr_src tr6_query \<noteq> tr_src tr6_rquery \<or> tr_dst tr6_query \<noteq> tr_dst tr6_rquery
            then Inr s
            else show_hops sy frombuf datalen 0 76 s))
        else Inr (warnx (''show_ip6_result: invalid ICMPv6 type('' @ fmt_d (uint (type ! 0)) @ '')'') s)))"

definition show_result :: "sys \<Rightarrow> bytes \<Rightarrow> bytes \<Rightarrow> nat \<Rightarrow> mstate \<Rightarrow> mstate mres" where
  "show_result sy from frombuf datalen s =
     (if sa_family from = AF_INET6 then show_ip6_result sy frombuf datalen s
      else errx (''show_result: illegal AF('' @ fmt_d (int (sa_family from)) @ '') on recv'') s)"

text \<open>
  The loop ends in its first pass, on every path. \<^verbatim>\<open>send_query\<close> is its part up to \<^verbatim>\<open>sendto\<close>,
  \<^verbatim>\<open>await_response\<close> the part behind it, with the result of \<^verbatim>\<open>sendto\<close> as its first test. \<^verbatim>\<open>recvfrom\<close> stores
  at most the 1024 bytes of \<^verbatim>\<open>frombuf\<close>, which is zero before.
\<close>

definition send_query :: "sys \<Rightarrow> mstate \<Rightarrow> mstate" where
  "send_query sy s =
     (let s = s\<lparr>m_querypacket := setqid (sa_family (m_gw_sock s)) (sy_random sy) (m_querypacket s)\<rparr> in
      log_event (Query (take 28 (m_gw_sock s)) (m_querypacket s)) s)"

definition frombuf_of :: "bytes \<Rightarrow> bytes" where
  "frombuf_of msg = take 1024 msg @ replicate (1024 - length msg) 0"

definition await_response :: "sys \<Rightarrow> mstate \<Rightarrow> mstate mres" where
  "await_response sy s =
     (if sy_sendto sy (take 28 (m_gw_sock s)) (m_querypacket s) < 0 then errx ''sendto'' s
      else if \<not> sy_malloc sy ((nat (m_mldsoc s + 1) + 63) div 64 * 8) then errx ''malloc'' s
      else if sy_select sy (m_waittime s) < 0 then errx ''select'' s
      else if sy_select sy (m_waittime s) = 0 then Inr (say (''Timeout'' @ [CHR 0x0A]) s)
      else (case sy_recvfrom sy of
              None \<Rightarrow> errx ''recvfrom'' s
            | Some (from, msg) \<Rightarrow> show_result sy from (frombuf_of msg) (min 1024 (length msg)) s))"

definition mtrace_loop :: "sys \<Rightarrow> mstate \<Rightarrow> stop \<times> mstate" where
  "mtrace_loop sy s = (case await_response sy (send_query sy s) of Inl halt \<Rightarrow> halt | Inr s \<Rightarrow> (Exit 0, s))"

definition mtrace6_main :: "sys \<Rightarrow> (char \<times> string) list \<Rightarrow> string list \<Rightarrow> stop \<times> mstate" where
  "mtrace6_main sy opts argv =
     (case bindM (mtrace_options opts initial) (\<lambda>s.
             if length argv < 2 then usage s
             else let s = s\<lparr>m_source := argv ! 0, m_group := argv ! 1\<rparr> in
               if m_gateway s \<noteq> None \<and> m_linkstr s \<noteq> None then errx ''-g and -l are exclusive'' s
               else bindM (open_socket sy s) (make_packet sy)) of
        Inl halt \<Rightarrow> halt
      | Inr s \<Rightarrow> mtrace_loop sy s)"


section \<open>Reading back what the formats lay out\<close>

definition enc_tr6_query :: "tr6_query \<Rightarrow> bytes" where
  "enc_tr6_query q = be_bytes 16 (tr_src q) @ be_bytes 16 (tr_dst q) @ be_bytes 16 (tr_raddr q) @ rev (be_bytes 3 (tr_qid q)) @ [tr_rhlim q]"

definition enc_tr6_resp :: "tr6_resp \<Rightarrow> bytes" where
  "enc_tr6_resp h = be_bytes 4 (tr_qarr h) @ be_bytes 4 (tr_inifid h) @ be_bytes 4 (tr_outifid h)
     @ be_bytes 16 (tr_lcladdr h) @ be_bytes 16 (tr_rmtaddr h)
     @ be_bytes 4 (tr_vifin h) @ be_bytes 4 (tr_vifout h) @ be_bytes 4 (tr_pktcnt h)
     @ [tr_rproto h, tr_flags h, tr_plen h, tr_rflags h]"

lemma length_enc_tr6 [simp]: "length (enc_tr6_query q) = 52" "length (enc_tr6_resp h) = 60"
  by (simp_all add: enc_tr6_query_def enc_tr6_resp_def)

lemma be_word_u32 [simp]: "be_word (be_bytes 4 (a :: u32)) = a"
  by (simp add: be_word_be_bytes)

lemma be_word_u24 [simp]: "be_word (be_bytes 3 (a :: 24 word)) = a"
  by (simp add: be_word_be_bytes)

lemma read_within: "length pre = off \<Longrightarrow> length x = n \<Longrightarrow> read_bytes (pre @ x @ post) off n = Inr x"
  by (simp add: read_bytes_def)

lemma tr6_query_at_enc: "length pre = off \<Longrightarrow> tr6_query_at (pre @ enc_tr6_query q @ post) off = Inr q"
  by (simp add: tr6_query_at_def read_within del: read_bytes_Inr_iff) (simp add: enc_tr6_query_def nth_append)

lemma tr6_resp_at_enc: "length pre = off \<Longrightarrow> tr6_resp_at (pre @ enc_tr6_resp h @ post) off = Inr h"
  by (simp add: tr6_resp_at_def read_within del: read_bytes_Inr_iff) (simp add: enc_tr6_resp_def nth_append)

lemma tr6_query_at_some: "off + 52 \<le> length buf \<Longrightarrow> \<exists>q. tr6_query_at buf off = Inr q"
  by (simp add: tr6_query_at_def read_bytes_def)

lemma tr6_resp_at_some: "off + 60 \<le> length buf \<Longrightarrow> \<exists>h. tr6_resp_at buf off = Inr h"
  by (simp add: tr6_resp_at_def read_bytes_def)

interpretation qf: fixed_record enc_tr6_query tr6_query_at 52
  by unfold_locales (simp, rule tr6_query_at_enc, assumption, rule tr6_query_at_some)

interpretation hf: fixed_record enc_tr6_resp tr6_resp_at 60
  by unfold_locales (simp, rule tr6_resp_at_enc, assumption, rule tr6_resp_at_some)

section \<open>The hops printed\<close>

fun print_hops :: "sys \<Rightarrow> nat \<Rightarrow> tr6_resp list \<Rightarrow> mstate \<Rightarrow> mstate" where
  "print_hops sy i [] s = s"
| "print_hops sy i (h # hs) s = print_hops sy (i + 1) hs (print_hop sy i h s)"

lemma show_hops_enc:
  "length pre = rp \<Longrightarrow> show_hops sy (pre @ concat (map enc_tr6_resp hs) @ post) (rp + 60 * length hs) i rp s = Inr (print_hops sy i hs s)"
proof (induction hs arbitrary: pre rp i s)
  case Nil
  then show ?case by (simp add: show_hops.simps)
next
  case (Cons h hs)
  have "tr6_resp_at (pre @ concat (map enc_tr6_resp (h # hs)) @ post) rp = Inr h"
    using Cons.prems by (rule hf.read_first)
  moreover have "show_hops sy ((pre @ enc_tr6_resp h) @ concat (map enc_tr6_resp hs) @ post) (rp + 60 + 60 * length hs) j (rp + 60) t
      = Inr (print_hops sy j hs t)" for j t
    by (rule Cons.IH) (simp add: Cons.prems)
  ultimately show ?case by (subst show_hops.simps) (simp add: add.assoc)
qed

text \<open>Whatever the buffer holds, its records are printed one by one.\<close>

lemma show_hops_prints:
  "rp + 60 * n \<le> length buf \<Longrightarrow> \<exists>hs. length hs = n \<and> show_hops sy buf (rp + 60 * n) i rp s = Inr (print_hops sy i hs s)"
proof (induction n arbitrary: rp i s)
  case 0
  then show ?case by (simp add: show_hops.simps)
next
  case (Suc n)
  obtain h where h: "tr6_resp_at buf rp = Inr h" using hf.in_bounds [of rp buf] Suc.prems by auto
  obtain hs where "length hs = n" "show_hops sy buf (rp + 60 + 60 * n) (i + 1) (rp + 60) (print_hop sy i h s) = Inr (print_hops sy (i + 1) hs (print_hop sy i h s))"
    using Suc.IH [of "rp + 60" "i + 1" "print_hop sy i h s"] Suc.prems by auto
  then have "length (h # hs) = Suc n \<and> show_hops sy buf (rp + 60 * Suc n) i rp s = Inr (print_hops sy i (h # hs) s)"
    using h by (subst show_hops.simps) (simp add: add.assoc)
  then show ?case by blast
qed


text \<open>A run in which all system calls succeed and \<open>msg\<close> arrives from an IPv6 address.\<close>

definition received :: "sys \<Rightarrow> mstate \<Rightarrow> bytes \<Rightarrow> bool" where
  "received sy s msg \<longleftrightarrow>
     sy_sendto sy (take 28 (m_gw_sock s)) (m_querypacket s) \<ge> 0 \<and> sy_malloc sy ((nat (m_mldsoc s + 1) + 63) div 64 * 8)
     \<and> sy_select sy (m_waittime s) > 0
     \<and> (case sy_recvfrom sy of None \<Rightarrow> False | Some (from, m) \<Rightarrow> sa_family from = AF_INET6 \<and> m = msg)"

lemma length_frombuf_of [simp]: "length (frombuf_of msg) = 1024"
  by (simp add: frombuf_of_def)

lemma await_response_received:
  "received sy s msg \<Longrightarrow> await_response sy s = show_ip6_result sy (frombuf_of msg) (min 1024 (length msg)) s"
  by (auto simp: received_def await_response_def show_result_def split: option.splits)

lemma bindM_simps [simp]: "bindM (Inl e) f = Inl e" "bindM (Inr x) f = f x"
  by (simp_all add: bindM_def)

lemma checked_simps [simp]: "checked (Inl f) s = Inl (Crash f, s)" "checked (Inr x) s = Inr x"
  by (simp_all add: checked_def)

lemma type_at: "read_bytes (frombuf_of msg) 0 1 = Inr [frombuf_of msg ! 0]"
proof -
  obtain b bs where "frombuf_of msg = b # bs" using length_frombuf_of [of msg] by (cases "frombuf_of msg") auto
  then show ?thesis by (simp add: read_bytes_def)
qed

definition trace_response :: "bytes \<Rightarrow> tr6_query \<Rightarrow> tr6_resp list \<Rightarrow> bytes" where
  "trace_response hdr q hs = hdr @ enc_tr6_query q @ concat (map enc_tr6_resp hs)"

lemma length_trace_response: "length hdr = 24 \<Longrightarrow> length (trace_response hdr q hs) = 76 + 60 * length hs"
  by (simp add: trace_response_def hf.length_sequence)

lemma show_ip6_result_short:
  assumes "length hdr = 24" and "hdr ! 0 = 200" and "hs \<noteq> []" and "length hs \<le> 15"
    and "tr6_query_at (m_querypacket s) 24 = Inr q" and "tr_src q = tr_src q'" "tr_dst q = tr_dst q'" "tr_qid q = tr_qid q'"
  shows "show_ip6_result sy (frombuf_of (trace_response hdr q' hs)) (min 1024 (length (trace_response hdr q' hs))) s
    = Inr (print_hops sy 0 hs s)"
proof -
  let ?m = "trace_response hdr q' hs" and ?z = "replicate (1024 - length (trace_response hdr q' hs)) 0 :: bytes"
  have len: "length ?m = 76 + 60 * length hs" using assms(1) by (rule length_trace_response)
  have b: "frombuf_of ?m = hdr @ enc_tr6_query q' @ (concat (map enc_tr6_resp hs) @ ?z)"
    "frombuf_of ?m = (hdr @ enc_tr6_query q') @ concat (map enc_tr6_resp hs) @ ?z"
    using len assms(4) by (simp_all add: frombuf_of_def) (simp_all add: trace_response_def)
  have t: "frombuf_of ?m ! 0 = 200" using assms(1,2) by (simp add: b(1) nth_append)
  have q: "tr6_query_at (frombuf_of ?m) 24 = Inr q'" unfolding b(1) using assms(1) by (rule qf.read_back)
  have h: "show_hops sy (frombuf_of ?m) (76 + 60 * length hs) 0 76 s = Inr (print_hops sy 0 hs s)"
    unfolding b(2) by (rule show_hops_enc) (simp add: assms(1))
  have l: "min 1024 (length ?m) = 76 + 60 * length hs" "\<not> 76 + 60 * length hs < 24 + 52 + 60"
    "(76 + 60 * length hs - 24 - 52) mod 60 = 0" using len assms(3,4) by (auto simp: neq_Nil_conv)
  show ?thesis
    unfolding show_ip6_result_def l type_at checked_simps bindM_simps t q h assms(5) using l assms(6-8) by (simp add: t)
qed

lemma show_ip6_result_long:
  assumes "length hdr = 24" and "hdr ! 0 = 200" and "15 < length hs"
  shows "show_ip6_result sy (frombuf_of (trace_response hdr q' hs)) (min 1024 (length (trace_response hdr q' hs))) s
    = Inr (warnx ''show_ip6_result: incomplete response (1024 bytes)'' s)"
proof -
  have l: "min 1024 (length (trace_response hdr q' hs)) = 1024" using assms by (simp add: length_trace_response)
  have t: "frombuf_of (trace_response hdr q' hs) ! 0 = 200"
    using assms by (simp add: frombuf_of_def trace_response_def nth_append)
  have d: "fmt_d 1024 = ''1024''" by (simp add: fmt_d_def decimal.simps)
  show ?thesis unfolding show_ip6_result_def l type_at using t d by simp
qed

section \<open>Any datagram is safe\<close>

definition answered :: "sys \<Rightarrow> mstate \<Rightarrow> mstate \<Rightarrow> bool" where
  "answered sy s s' \<longleftrightarrow> (\<exists>hs. length hs \<le> 15 \<and> s' = print_hops sy 0 hs s) \<or> (\<exists>msg. s' = say msg s \<or> s' = warnx msg s)"

lemma answered_intros:
  "answered sy s s" "answered sy s (say msg s)" "answered sy s (warnx msg s)"
  "length hs \<le> 15 \<Longrightarrow> answered sy s (print_hops sy 0 hs s)"
proof -
  show "answered sy s s" unfolding answered_def by (intro disjI1 exI [of _ "[]"]) simp
qed (auto simp: answered_def)

lemma show_ip6_result_total:
  assumes "length buf = 1024" and "datalen \<le> 1024" and "76 \<le> length (m_querypacket s)"
  shows "\<exists>s'. show_ip6_result sy buf datalen s = Inr s' \<and> answered sy s s'"
proof -
  obtain q q' where q: "tr6_query_at (m_querypacket s) 24 = Inr q" "tr6_query_at buf 24 = Inr q'"
    using qf.in_bounds [of 24 "m_querypacket s"] qf.in_bounds [of 24 buf] assms by auto
  have r: "read_bytes buf 0 1 = Inr (take 1 buf)" using assms(1) by (simp add: read_bytes_def)
  define n where "n = (datalen - 76) div 60"
  have hops: "\<exists>hs. length hs \<le> 15 \<and> show_hops sy buf datalen 0 76 s = Inr (print_hops sy 0 hs s)"
    if "136 \<le> datalen" "(datalen - 24 - 52) mod 60 = 0"
  proof -
    have "(datalen - 76) mod 60 = 0" using that(2) by simp
    then have "datalen = 76 + 60 * n" using that(1) mult_div_mod_eq [of 60 "datalen - 76"] by (simp add: n_def)
    moreover from this have "n \<le> 15" using assms(2) by simp
    ultimately show ?thesis using show_hops_prints [of 76 n buf sy 0 s] assms(1,2) by fastforce
  qed
  show ?thesis
  proof (cases "136 \<le> datalen \<and> take 1 buf ! 0 = 200 \<and> (datalen - 24 - 52) mod 60 = 0 \<and>
      \<not> (tr_qid q \<noteq> tr_qid q' \<or> tr_src q \<noteq> tr_src q' \<or> tr_dst q \<noteq> tr_dst q')")
    case True
    then obtain hs where "length hs \<le> 15" "show_hops sy buf datalen 0 76 s = Inr (print_hops sy 0 hs s)"
      using hops by metis
    then show ?thesis
      unfolding show_ip6_result_def r checked_simps bindM_simps q using True by (simp add: answered_intros)
  next
    case False
    then show ?thesis
      unfolding show_ip6_result_def r checked_simps bindM_simps q by (simp add: answered_intros) auto
  qed
qed

lemma send_query_packet: "length (m_querypacket (send_query sy s)) = length (m_querypacket s)" if "75 \<le> length (m_querypacket s)"
  using that by (simp add: send_query_def log_event_def setqid_def)

lemma await_response_total:
  assumes "76 \<le> length (m_querypacket s)"
  shows "(\<exists>s'. await_response sy s = Inr s' \<and> answered sy s s') \<or> (\<exists>s'. await_response sy s = Inl (Exit 1, s') \<and> answered sy s s')"
proof -
  have "\<exists>s'. show_ip6_result sy (frombuf_of msg) (min 1024 (length msg)) s = Inr s' \<and> answered sy s s'" for msg
    by (rule show_ip6_result_total) (simp_all add: assms)
  then show ?thesis
    by (auto simp: await_response_def errx_def show_result_def intro: answered_intros split: option.splits)
qed

lemma mtrace_loop_total:
  assumes "length (m_querypacket s) = 76"
  shows "\<exists>n s'. mtrace_loop sy s = (Exit n, s') \<and> (n = 0 \<or> n = 1) \<and> answered sy (send_query sy s) s'"
  using await_response_total [of "send_query sy s" sy] assms by (auto simp: mtrace_loop_def send_query_packet)

section \<open>What is sent\<close>

text \<open>
  \<open>outcome Q r\<close>: a result satisfies \<open>Q\<close>, and when the process stops instead, no query has been sent.
\<close>

fun is_query :: "event \<Rightarrow> bool" where
  "is_query (Query dest packet) = True"
| "is_query _ = False"

definition queries :: "mstate \<Rightarrow> event list" where
  "queries s = filter is_query (m_events s)"

definition outcome :: "('a \<Rightarrow> bool) \<Rightarrow> 'a mres \<Rightarrow> bool" where
  "outcome Q r = (case r of Inl (halt, s) \<Rightarrow> queries s = [] | Inr x \<Rightarrow> Q x)"

lemma queries_log [simp]: "queries (log_event e s) = queries s @ (if is_query e then [e] else [])"
  by (simp add: queries_def log_event_def)

lemma queries_upd [simp]:
  "queries (s\<lparr>m_destination := d\<rparr>) = queries s" "queries (s\<lparr>m_gateway := d\<rparr>) = queries s" "queries (s\<lparr>m_hops := n\<rparr>) = queries s"
  "queries (s\<lparr>m_intface := d\<rparr>) = queries s" "queries (s\<lparr>m_linkstr := d\<rparr>) = queries s" "queries (s\<lparr>m_maxhops := n\<rparr>) = queries s"
  "queries (s\<lparr>m_opt_n := b\<rparr>) = queries s" "queries (s\<lparr>m_receiver := d\<rparr>) = queries s" "queries (s\<lparr>m_waittime := n\<rparr>) = queries s"
  "queries (s\<lparr>m_source := str, m_group := str'\<rparr>) = queries s" "queries (s\<lparr>m_mldsoc := n\<rparr>) = queries s"
  "queries (s\<lparr>m_gw_sock := sa\<rparr>) = queries s" "queries (s\<lparr>m_src_sock := sa\<rparr>) = queries s" "queries (s\<lparr>m_grp_sock := sa\<rparr>) = queries s"
  "queries (s\<lparr>m_dst_sock := sa\<rparr>) = queries s" "queries (s\<lparr>m_rcv_sock := sa\<rparr>) = queries s" "queries (s\<lparr>m_querypacket := p\<rparr>) = queries s"
  by (simp_all add: queries_def)

lemma outcome_simps [simp]: "outcome Q (Inr x) = Q x" "outcome Q (Inl (h, s)) \<longleftrightarrow> queries s = []"
  by (simp_all add: outcome_def)

lemma outcome_errx [simp]: "outcome Q (errx msg s) \<longleftrightarrow> queries s = []"
  by (simp add: errx_def)

lemma outcome_usage [simp]: "outcome Q (usage s) \<longleftrightarrow> queries s = []"
  by (simp add: usage_def)

lemma outcome_bind: "outcome P m \<Longrightarrow> (\<And>x. P x \<Longrightarrow> outcome Q (f x)) \<Longrightarrow> outcome Q (bindM m f)"
  by (cases m) auto

lemma outcome_if: "(b \<Longrightarrow> outcome Q x) \<Longrightarrow> (\<not> b \<Longrightarrow> outcome Q y) \<Longrightarrow> outcome Q (if b then x else y)"
  by simp

lemma outcome_checked: "queries s = [] \<Longrightarrow> (\<And>x. r = Inr x \<Longrightarrow> Q x) \<Longrightarrow> outcome Q (checked r s)"
  by (cases r) auto

lemma outcome_conseq: "outcome P m \<Longrightarrow> (\<And>x. P x \<Longrightarrow> Q x) \<Longrightarrow> outcome Q m"
  by (auto simp: outcome_def split: sum.splits)

subsection \<open>The command line\<close>

definition fresh :: "mstate \<Rightarrow> bool" where
  "fresh s \<longleftrightarrow> queries s = [] \<and> 0 \<le> m_hops s \<and> m_hops s \<le> 255 \<and> 0 \<le> m_maxhops s \<and> m_maxhops s \<le> 255
     \<and> m_dst_sock s = replicate 128 0 \<and> m_rcv_sock s = replicate 128 0"

lemma mtrace_option_fresh: "fresh s \<Longrightarrow> outcome fresh (mtrace_option opt s)"
  unfolding mtrace_option_def Let_def prod.case_eq_if
  by (intro outcome_if) (simp_all add: fresh_def)

lemma mtrace_options_fresh: "fresh s \<Longrightarrow> outcome fresh (mtrace_options opts s)"
  by (induction opts arbitrary: s) (auto intro: outcome_bind mtrace_option_fresh)

lemma initial_fresh: "fresh initial"
  by (simp add: fresh_def initial_def queries_def)


subsection \<open>The addresses and the socket\<close>

lemma be_nat_zeros: "be_nat (replicate n 0) = 0"
proof (induction n)
  case (Suc n)
  have "replicate (Suc n) (0 :: byte) = replicate n 0 @ [0]" by (simp add: replicate_append_same)
  then show ?case using Suc by (simp only: be_nat_snoc) simp
qed simp

lemma set_sockaddr_outcome: "queries s = [] \<Longrightarrow> outcome (\<lambda>sa. length sa = l) (set_sockaddr sy name l s)"
  by (auto simp: set_sockaddr_def intro!: outcome_checked split: sum.splits option.splits)

lemma get_my_sockaddr_outcome:
  assumes "queries s = []"
  shows "outcome (\<lambda>(r, sa). sin6_addr sa = 0) (get_my_sockaddr sy family (replicate 128 0) l 8 s)"
proof -
  have z: "sin6_addr (b @ replicate 120 0) = 0" if "length b = 8" for b
    using that be_nat_zeros by (simp add: sin6_addr_def be_word_def)
  have "sin6_addr (replicate 128 0) = 0"
    using z [of "replicate 8 0"] by (simp flip: replicate_add)
  then show ?thesis
    unfolding get_my_sockaddr_def using assms z
    by (auto intro!: outcome_bind outcome_checked split: option.splits)
qed

lemma open_gateway_outcome:
  "queries s = [] \<Longrightarrow> outcome (\<lambda>s'. \<exists>gw. s' = s\<lparr>m_gw_sock := gw\<rparr>) (open_gateway sy s)"
proof -
  assume q: "queries s = []"
  have "outcome (\<lambda>_. True) (set_sockaddr sy name 128 s)" for name by (rule outcome_conseq [OF set_sockaddr_outcome [OF q]]) simp
  then have "outcome (\<lambda>_. True) (case m_gateway s of Some gateway \<Rightarrow> set_sockaddr sy gateway 128 s
      | None \<Rightarrow> bindM (all_routers_str (sa_family (m_grp_sock s)) s) (\<lambda>r. set_sockaddr sy r 128 s))"
    using q by (cases "m_gateway s") (auto simp: all_routers_str_def intro: outcome_bind [of "\<lambda>_. True"])
  then show ?thesis unfolding open_gateway_def by (rule outcome_bind) auto
qed

lemma open_destination_outcome:
  assumes "queries s = []" and "m_dst_sock s = replicate 128 0"
  shows "outcome (\<lambda>s'. \<exists>sa. s' = s\<lparr>m_dst_sock := sa\<rparr> \<and> (if m_destination s = None then sin6_addr sa = 0 else \<not> is_multicast sa))
    (open_destination sy s)"
proof (cases "m_destination s")
  case None
  then show ?thesis
    unfolding open_destination_def using assms(2) by (auto intro!: outcome_bind [OF get_my_sockaddr_outcome [OF assms(1)]])
next
  case (Some d)
  then show ?thesis
    unfolding open_destination_def using assms(1) by (auto intro!: outcome_bind [OF set_sockaddr_outcome] simp: Let_def)
qed

lemma open_receiver_outcome:
  assumes "queries s = []" and "m_rcv_sock s = replicate 128 0"
  shows "outcome (\<lambda>s'. \<exists>sa. s' = s\<lparr>m_rcv_sock := sa\<rparr> \<and> (m_receiver s = None \<longrightarrow> sin6_addr sa = 0)) (open_receiver sy s)"
proof (cases "m_receiver s")
  case None
  then show ?thesis
    unfolding open_receiver_def using assms(2) by (auto intro!: outcome_bind [OF get_my_sockaddr_outcome [OF assms(1)]])
next
  case (Some d)
  then show ?thesis
    unfolding open_receiver_def using assms(1) by (auto intro!: outcome_bind [OF set_sockaddr_outcome] simp: Let_def)
qed

text \<open>The options put on the socket before anything is sent.\<close>

definition with_options :: "mstate \<Rightarrow> mstate \<Rightarrow> bool" where
  "with_options s s' \<longleftrightarrow> (\<exists>opts. s' = s\<lparr>m_events := m_events s @ map Setsockopt opts\<rparr>)"

lemma with_options_intros:
  "with_options s s" "with_options s (log_event (Setsockopt opt) s)"
  "with_options s s' \<Longrightarrow> with_options s (log_event (Setsockopt opt) s')"
proof -
  show "with_options s s" unfolding with_options_def by (rule exI [of _ "[]"]) simp
  show "with_options s (log_event (Setsockopt opt) s)" unfolding with_options_def log_event_def by (rule exI [of _ "[opt]"]) simp
  assume "with_options s s'"
  then obtain opts where "s' = s\<lparr>m_events := m_events s @ map Setsockopt opts\<rparr>" by (auto simp: with_options_def)
  then show "with_options s (log_event (Setsockopt opt) s')"
    unfolding with_options_def log_event_def by (intro exI [of _ "opts @ [opt]"]) simp
qed

lemma with_options_queries: "with_options s s' \<Longrightarrow> queries s' = queries s"
  by (auto simp: with_options_def queries_def)

definition hops_set :: "mstate \<Rightarrow> bool" where
  "hops_set s \<longleftrightarrow> (m_hops s \<noteq> 0 \<and> sa_family (m_gw_sock s) = AF_INET6
     \<longrightarrow> Setsockopt (Hops (IN6_IS_ADDR_MULTICAST (sin6_addr (m_gw_sock s))) (m_hops s)) \<in> set (m_events s))"

lemma hops_set_log: "hops_set s \<Longrightarrow> hops_set (log_event e s)"
  by (auto simp: hops_set_def log_event_def)

lemma set_hlim_outcome:
  "queries s = [] \<Longrightarrow> outcome (\<lambda>s'. with_options s s' \<and> hops_set s') (if m_hops s \<noteq> 0 then set_hlim sy (m_gw_sock s) (m_hops s) s else Inr s)"
  by (auto simp: set_hlim_def setsockopt_def Let_def with_options_intros) (auto simp: hops_set_def log_event_def)

lemma set_join_outcome:
  "queries s' = [] \<Longrightarrow> with_options s s' \<Longrightarrow> hops_set s' \<Longrightarrow> outcome (\<lambda>s'. with_options s s' \<and> hops_set s') (set_join sy ifname rcv s')"
  by (auto simp: set_join_def setsockopt_def Let_def with_options_intros hops_set_log split: option.splits)

lemma set_filter_outcome:
  "queries s' = [] \<Longrightarrow> with_options s s' \<Longrightarrow> hops_set s' \<Longrightarrow>
    outcome (\<lambda>s'. with_options s s' \<and> hops_set s' \<and> Setsockopt (Icmp6_pass 200) \<in> set (m_events s')) (set_filter sy 10 s')"
  by (auto simp: set_filter_def setsockopt_def Let_def with_options_intros hops_set_log) (simp add: log_event_def)

lemma set_options_outcome:
  assumes "queries s = []" and "sa_family (m_grp_sock s) = 10"
  shows "outcome (\<lambda>s'. with_options s s' \<and> hops_set s' \<and> Setsockopt (Icmp6_pass 200) \<in> set (m_events s')) (set_options sy s)"
  unfolding set_options_def
proof (rule outcome_bind [OF set_hlim_outcome [OF assms(1)]], rule outcome_bind)
  fix s' assume s': "with_options s s' \<and> hops_set s'"
  then have q: "queries s' = []" using with_options_queries assms(1) by metis
  show "outcome (\<lambda>s'. with_options s s' \<and> hops_set s')
    (if m_receiver s' \<noteq> None \<and> is_multicast (m_rcv_sock s') then set_join sy (m_intface s') (m_rcv_sock s') s' else Inr s')"
    using set_join_outcome q s' by simp
next
  fix s' assume s': "with_options s s' \<and> hops_set s'"
  then have "queries s' = []" "m_grp_sock s' = m_grp_sock s" using with_options_queries assms(1) by (metis, auto simp: with_options_def)
  then show "outcome (\<lambda>s'. with_options s s' \<and> hops_set s' \<and> Setsockopt (Icmp6_pass 200) \<in> set (m_events s'))
      (set_filter sy (sa_family (m_grp_sock s')) s')"
    using set_filter_outcome s' assms(2) by simp
qed


text \<open>What holds once \<^verbatim>\<open>open_socket\<close> has returned, and what \<^verbatim>\<open>make_packet\<close> then builds.\<close>

definition ready :: "mstate \<Rightarrow> bool" where
  "ready s \<longleftrightarrow> 0 \<le> m_hops s \<and> m_hops s \<le> 255 \<and> 0 \<le> m_maxhops s \<and> m_maxhops s \<le> 255
     \<and> IN6_IS_ADDR_MULTICAST (sin6_addr (m_grp_sock s)) \<and> \<not> is_multicast (m_src_sock s)
     \<and> (if m_destination s = None then sin6_addr (m_dst_sock s) = 0 else \<not> is_multicast (m_dst_sock s))
     \<and> (m_receiver s = None \<longrightarrow> sin6_addr (m_rcv_sock s) = 0)
     \<and> hops_set s \<and> Setsockopt (Icmp6_pass 200) \<in> set (m_events s)"

lemma is_multicastD: "is_multicast sa \<Longrightarrow> sa_family sa = 10 \<and> IN6_IS_ADDR_MULTICAST (sin6_addr sa)"
  by (simp add: is_multicast_def split: if_splits)

lemma open_socket_outcome:
  assumes "fresh s"
  shows "outcome (\<lambda>s. queries s = [] \<and> ready s \<and> sa_family (m_grp_sock s) = 10) (open_socket sy s)"
proof -
  have q: "queries s = []" using assms by (simp add: fresh_def)
  let ?Q = "\<lambda>s. queries s = [] \<and> ready s \<and> sa_family (m_grp_sock s) = 10"
  have opts: "outcome ?Q (set_options sy (s\<lparr>m_grp_sock := grp, m_src_sock := src, m_gw_sock := gw, m_dst_sock := dst, m_rcv_sock := rcv, m_mldsoc := n\<rparr>))"
    if "is_multicast grp" "\<not> is_multicast src" "if m_destination s = None then sin6_addr dst = 0 else \<not> is_multicast dst"
      "m_receiver s = None \<longrightarrow> sin6_addr rcv = 0" for grp src gw dst rcv n
    by (rule outcome_conseq [OF set_options_outcome])
      (use that is_multicastD [OF that(1)] q assms in \<open>auto simp: with_options_def ready_def fresh_def queries_def filter_empty_conv\<close>)
  have receiver: "outcome ?Q (bindM (open_receiver sy t) (\<lambda>s. if sy_socket sy < 0 then errx ''socket'' (s\<lparr>m_mldsoc := sy_socket sy\<rparr>)
      else set_options sy (s\<lparr>m_mldsoc := sy_socket sy\<rparr>)))"
    if "t = s\<lparr>m_grp_sock := grp, m_src_sock := src, m_gw_sock := gw, m_dst_sock := dst\<rparr>"
      "is_multicast grp" "\<not> is_multicast src" "if m_destination s = None then sin6_addr dst = 0 else \<not> is_multicast dst"
    for t grp src gw dst
    by (rule outcome_bind [OF open_receiver_outcome]) (use that opts assms q in \<open>auto simp: fresh_def\<close>)
  have destination: "outcome ?Q (bindM (open_destination sy t) (\<lambda>s. bindM (open_receiver sy s) (\<lambda>s.
      if sy_socket sy < 0 then errx ''socket'' (s\<lparr>m_mldsoc := sy_socket sy\<rparr>) else set_options sy (s\<lparr>m_mldsoc := sy_socket sy\<rparr>))))"
    if "t = s\<lparr>m_grp_sock := grp, m_src_sock := src, m_gw_sock := gw\<rparr>" "is_multicast grp" "\<not> is_multicast src" for t grp src gw
    by (rule outcome_bind [OF open_destination_outcome]) (use that receiver assms q in \<open>auto simp: fresh_def\<close>)
  show ?thesis
    unfolding open_socket_def Let_def using destination q
    by (auto intro!: outcome_bind [OF set_sockaddr_outcome] outcome_bind [OF open_gateway_outcome])
qed


subsection \<open>The query packet\<close>

definition trace_query :: "24 word \<Rightarrow> mstate \<Rightarrow> bytes" where
  "trace_query qid s = [201, of_int (m_maxhops s), 0, 0, 0, 0, 0, 0] @ be_bytes 16 (sin6_addr (m_grp_sock s))
     @ enc_tr6_query \<lparr>tr_src = sin6_addr (m_src_sock s), tr_dst = sin6_addr (m_dst_sock s), tr_raddr = sin6_addr (m_rcv_sock s),
         tr_qid = qid, tr_rhlim = of_int (m_hops s)\<rparr>"

lemma length_trace_query [simp]: "length (trace_query qid s) = 76"
  by (simp add: trace_query_def)

lemma be_bytes_3_0: "rev (be_bytes 3 (0 :: 24 word)) = [0, 0, 0]"
  by (simp add: be_bytes_def upt_rec)

lemma make_packet_outcome:
  assumes "queries s = []" and "sa_family (m_grp_sock s) = 10"
  shows "outcome (\<lambda>s'. s' = s\<lparr>m_querypacket := trace_query 0 s\<rparr>) (make_packet sy s)"
  using assms by (simp add: make_packet_def make_ip6_packet_def trace_query_def enc_tr6_query_def be_bytes_3_0)

lemma setqid_trace_query: "setqid family rnd (trace_query qid s) = trace_query (if family = 10 then ucast rnd else qid) s"
  by (simp add: setqid_def trace_query_def enc_tr6_query_def)

lemma tr6_query_at_trace_query:
  "tr6_query_at (trace_query qid s) 24 = Inr \<lparr>tr_src = sin6_addr (m_src_sock s), tr_dst = sin6_addr (m_dst_sock s),
     tr_raddr = sin6_addr (m_rcv_sock s), tr_qid = qid, tr_rhlim = of_int (m_hops s)\<rparr>"
proof -
  have "tr6_query_at (([201, of_int (m_maxhops s), 0, 0, 0, 0, 0, 0] @ be_bytes 16 (sin6_addr (m_grp_sock s))) @ enc_tr6_query q @ []) 24 = Inr q"
    for q by (rule qf.read_back) simp
  then show ?thesis by (simp add: trace_query_def)
qed

subsection \<open>Printing leaves the query alone\<close>

definition printed :: "mstate \<Rightarrow> mstate \<Rightarrow> bool" where
  "printed s s' \<longleftrightarrow> (\<exists>buf evs. s' = s\<lparr>m_buf := buf, m_events := m_events s @ evs\<rparr> \<and> filter is_query evs = [])"

lemma printed_refl: "printed s s"
  unfolding printed_def by (rule exI [of _ "m_buf s"], rule exI [of _ "[]"]) simp

lemma printed_trans: "printed s t \<Longrightarrow> printed t u \<Longrightarrow> printed s u"
  unfolding printed_def by (elim exE conjE) (simp, metis append_Nil append_assoc filter_append)

lemma printed_log: "\<not> is_query e \<Longrightarrow> printed s (log_event e s)"
  unfolding printed_def log_event_def by (rule exI [of _ "m_buf s"], rule exI [of _ "[e]"]) simp

lemma printed_pr_addr: "printed s (snd (pr_addr sy addr numeric s))"
  unfolding printed_def pr_addr_def Let_def
  by (rule exI [of _ "m_buf (snd (pr_addr sy addr numeric s))"], rule exI [of _ "[]"])
    (simp add: pr_addr_def Let_def split: option.splits)

lemma printed_rflags: "printed s (snd (str_rflags flag s))"
  unfolding str_rflags_def Let_def by (simp add: printed_refl printed_log)

lemma printed_say: "printed s t \<Longrightarrow> printed s (say str t)"
  using printed_trans printed_log by fastforce

lemma printed_hop: "printed s (print_hop sy i h s)"
  unfolding print_hop_def Let_def split_beta
  by (intro printed_say printed_trans [OF _ printed_pr_addr] printed_trans [OF _ printed_rflags] printed_refl)

lemma printed_hops: "printed s (print_hops sy i hs s)"
  by (induction hs arbitrary: i s) (auto intro: printed_refl printed_trans [OF printed_hop])

lemma answered_printed: "answered sy s s' \<Longrightarrow> printed s s'"
  by (auto simp: answered_def intro: printed_hops printed_log)

lemma printed_facts:
  assumes "printed s s'"
  shows "queries s' = queries s" "ready s \<Longrightarrow> ready s'" "trace_query qid s' = trace_query qid s" "m_gw_sock s' = m_gw_sock s"
    "m_destination s' = m_destination s" "m_receiver s' = m_receiver s"
  using assms by (auto simp: printed_def queries_def ready_def hops_set_def trace_query_def)


lemma mtrace6_main_cases:
  assumes "mtrace6_main sy opts argv = (r, s)"
  shows "queries s = [] \<or> (\<exists>s0. queries s0 = [] \<and> ready s0 \<and> m_querypacket s0 = trace_query 0 s0 \<and> mtrace_loop sy s0 = (r, s))"
proof -
  define m where "m = bindM (mtrace_options opts initial) (\<lambda>s. if length argv < 2 then usage s
     else let s = s\<lparr>m_source := argv ! 0, m_group := argv ! 1\<rparr> in
       if m_gateway s \<noteq> None \<and> m_linkstr s \<noteq> None then errx ''-g and -l are exclusive'' s
       else bindM (open_socket sy s) (make_packet sy))"
  have run: "(r, s) = (case m of Inl halt \<Rightarrow> halt | Inr s \<Rightarrow> mtrace_loop sy s)"
    using assms by (simp add: mtrace6_main_def m_def)
  have packet: "outcome (\<lambda>s. queries s = [] \<and> ready s \<and> m_querypacket s = trace_query 0 s) (bindM (open_socket sy t) (make_packet sy))"
    if "fresh t" for t
    by (rule outcome_bind [OF open_socket_outcome [OF that]], rule outcome_conseq [OF make_packet_outcome])
      (auto simp: ready_def hops_set_def trace_query_def)
  have "outcome (\<lambda>s. queries s = [] \<and> ready s \<and> m_querypacket s = trace_query 0 s) m"
    unfolding m_def by (rule outcome_bind [OF mtrace_options_fresh [OF initial_fresh]])
      (auto simp: Let_def fresh_def intro!: packet)
  then show ?thesis using run by (cases m) (auto simp: outcome_def)
qed

lemma mtrace6_query:
  assumes "mtrace6_main sy opts argv = (r, s)" and "Query dest packet \<in> set (m_events s)"
  shows "queries s = [Query dest packet]" "ready s" "dest = take 28 (m_gw_sock s)" "\<exists>qid. packet = trace_query qid s"
    "r = Exit 0 \<or> r = Exit 1"
proof -
  have "queries s \<noteq> []" using assms(2) by (auto simp: queries_def filter_empty_conv intro: bexI [of _ "Query dest packet"])
  then obtain s0 where s0: "queries s0 = []" "ready s0" "m_querypacket s0 = trace_query 0 s0" "mtrace_loop sy s0 = (r, s)"
    using mtrace6_main_cases [OF assms(1)] by blast
  obtain qid where qid: "setqid (sa_family (m_gw_sock s0)) (sy_random sy) (trace_query 0 s0) = trace_query qid s0"
    using setqid_trace_query by blast
  have sent: "queries (send_query sy s0) = [Query (take 28 (m_gw_sock s0)) (trace_query qid s0)]"
    "ready (send_query sy s0)" "trace_query q (send_query sy s0) = trace_query q s0" "m_gw_sock (send_query sy s0) = m_gw_sock s0" for q
    using s0 by (simp_all add: send_query_def Let_def qid) (simp_all add: ready_def hops_set_def trace_query_def log_event_def)
  obtain n where n: "r = Exit n" "n = 0 \<or> n = 1" and p: "printed (send_query sy s0) s"
    using mtrace_loop_total [of s0 sy] s0(3,4) answered_printed by auto
  have "queries s = [Query (take 28 (m_gw_sock s)) (trace_query qid s)]"
    using printed_facts [OF p] sent by simp
  moreover have "Query dest packet \<in> set (queries s)" using assms(2) by (simp add: queries_def)
  ultimately show "queries s = [Query dest packet]" "dest = take 28 (m_gw_sock s)" "\<exists>qid. packet = trace_query qid s" by auto
  show "ready s" using printed_facts(2) [OF p] sent(2) by blast
  show "r = Exit 0 \<or> r = Exit 1" using n by blast
qed

section \<open>The properties\<close>

text \<open>A host with one global address, on which every call succeeds and no response arrives.\<close>

definition example_trace_sys :: sys where
  "example_trace_sys = \<lparr>
     sy_getaddrinfo = (\<lambda>name. Inr \<lparr>ai_addr = Some (sockaddr_in6 (if name = ''src'' then 7 else 0xff020000000000000000000000000001)
       @ replicate 100 0), ai_addrlen = 28\<rparr>),
     sy_getifaddrs = Some [(''eth0'', Some (sockaddr_in6 0x20010db8000000000000000000000001))],
     sy_nametoindex = (\<lambda>name. 1), sy_socket = 3, sy_setsockopt = (\<lambda>opt. 0), sy_malloc = (\<lambda>n. True), sy_random = 5,
     sy_sendto = (\<lambda>dest packet. 76), sy_select = (\<lambda>wait. 0), sy_recvfrom = None, sy_getnameinfo = (\<lambda>sa numeric. None)\<rparr>"

lemma example_addresses:
  "set_sockaddr example_trace_sys name 128 s
     = Inr (sockaddr_in6 (if name = ''src'' then 7 else 0xff020000000000000000000000000001) @ replicate 100 0)"
  "get_my_sockaddr example_trace_sys 10 (replicate 128 0) 128 8 s
     = Inr (0, take 8 (sockaddr_in6 0x20010db8000000000000000000000001) @ replicate 120 0)"
  by (simp_all add: set_sockaddr_def example_trace_sys_def read_bytes_def get_my_sockaddr_def ip6_validaddr_def in6_class_defs
      IN6_IS_ADDR_SITELOCAL_def del: drop_bit_eq_div)

lemma example_calls:
  "sy_setsockopt example_trace_sys opt = 0" "sy_socket example_trace_sys = 3" "sy_malloc example_trace_sys n"
  "sy_select example_trace_sys w = 0" "sy_sendto example_trace_sys d p = 76"
  by (simp_all add: example_trace_sys_def)

lemma example_trace_run:
  "\<exists>s dest packet. mtrace6_main example_trace_sys [] [''src'', ''grp''] = (Exit 0, s) \<and> Query dest packet \<in> set (m_events s)
     \<and> m_destination s = None \<and> m_receiver s = None \<and> m_hops s = 64 \<and> m_maxhops s = 127"
proof -
  have "IN6_IS_ADDR_MULTICAST 0xff020000000000000000000000000001" "\<not> IN6_IS_ADDR_MULTICAST 7"
    by (simp_all add: in6_class_defs)
  then show ?thesis
    by (simp add: mtrace6_main_def open_socket_def Let_def initial_def example_addresses is_multicast_def open_gateway_def
        all_routers_str_def open_destination_def open_receiver_def example_calls set_options_def set_hlim_def setsockopt_def
        set_filter_def make_packet_def make_ip6_packet_def mtrace_loop_def await_response_def send_query_def log_event_def)
qed

definition example_hop :: tr6_resp where
  "example_hop = \<lparr>tr_qarr = 1, tr_inifid = 2, tr_outifid = 0xffffffff, tr_lcladdr = 3, tr_rmtaddr = 4, tr_vifin = 5, tr_vifout = 6,
     tr_pktcnt = 7, tr_rproto = 3, tr_flags = 0, tr_plen = 64, tr_rflags = 0x81\<rparr>"

definition example_asking :: mstate where
  "example_asking = initial\<lparr>m_gw_sock := sockaddr_in6 0xff020000000000000000000000000001, m_querypacket := trace_query 0 initial\<rparr>"

definition example_reply :: tr6_query where
  "example_reply = \<lparr>tr_src = sin6_addr (m_src_sock initial), tr_dst = sin6_addr (m_dst_sock initial), tr_raddr = 0, tr_qid = 5, tr_rhlim = 0\<rparr>"

definition example_answering :: sys where
  "example_answering = example_trace_sys\<lparr>sy_select := (\<lambda>wait. 1),
     sy_recvfrom := Some (sockaddr_in6 3, trace_response (200 # replicate 23 0) example_reply [example_hop])\<rparr>"

text \<open>
  C18. A response to the query that was sent, which carries 1 to 15 hops, is printed completely: one line for each
  hop, in the order of the response, with the values it was made of. The receive buffer of 1024
  bytes has no room for more: a response of 16 or more hops, and the default limit is 127, is cut,
  taken for incomplete, and nothing of it is shown.
\<close>

theorem trace_response_roundtrip:
  assumes "received sy (send_query sy s) (trace_response hdr q' hs)" and "length hdr = 24" and "hdr ! 0 = 200" and "hs \<noteq> []"
    and "tr6_query_at (m_querypacket (send_query sy s)) 24 = Inr q"
    and "tr_src q = tr_src q'" and "tr_dst q = tr_dst q'" and "tr_qid q = tr_qid q'"
  shows "mtrace_loop sy s =
    (Exit 0, if length hs \<le> 15 then print_hops sy 0 hs (send_query sy s)
             else warnx ''show_ip6_result: incomplete response (1024 bytes)'' (send_query sy s))"
  using await_response_received [OF assms(1)] show_ip6_result_short [OF assms(2-4) _ assms(5-8)]
    show_ip6_result_long [OF assms(2,3)] unfolding mtrace_loop_def by (cases "length hs \<le> 15") simp_all


theorem trace_response_roundtrip_witness:
  "mtrace_loop example_answering example_asking
     = (Exit 0, print_hop example_answering 0 example_hop (send_query example_answering example_asking))"
proof -
  have p: "m_querypacket (send_query example_answering example_asking) = trace_query 5 initial"
    by (simp add: send_query_def log_event_def example_asking_def setqid_trace_query example_answering_def example_trace_sys_def)
  have "received example_answering (send_query example_answering example_asking)
      (trace_response (200 # replicate 23 0) example_reply [example_hop])"
    by (simp add: received_def example_answering_def example_calls)
  then show ?thesis
    using trace_response_roundtrip [of example_answering example_asking "200 # replicate 23 0" example_reply "[example_hop]"]
    by (simp add: p tr6_query_at_trace_query example_reply_def)
qed

text \<open>
  C29. Once the query is built, the tool ends by itself with exit code 0 or 1, whatever the system calls
  answer and whatever datagram arrives: it reads nothing outside its buffers, and after the query it writes
  either one message or the lines of at most 15 hops.
\<close>

theorem mtrace_loop_safe:
  assumes "length (m_querypacket s) = 76"
  shows "\<exists>n s'. mtrace_loop sy s = (Exit n, s') \<and> (n = 0 \<or> n = 1)
    \<and> ((\<exists>hs. length hs \<le> 15 \<and> s' = print_hops sy 0 hs (send_query sy s)) \<or> (\<exists>msg. s' = say msg (send_query sy s) \<or> s' = warnx msg (send_query sy s)))"
  using mtrace_loop_total [OF assms] unfolding answered_def .


theorem mtrace_loop_safe_witness:
  "length (m_querypacket example_asking) = 76 \<and> (\<exists>n s'. mtrace_loop example_trace_sys example_asking = (Exit n, s') \<and> (n = 0 \<or> n = 1))"
proof -
  have "length (m_querypacket example_asking) = 76" by (simp add: example_asking_def)
  then show ?thesis using mtrace_loop_safe [of example_asking example_trace_sys] by blast
qed



text \<open>
  Without the options for them, the query names the unspecified address as the destination of the trace
  and as the address to respond to, whatever addresses the host has: of the address that is found only the size of
  a pointer is copied, which ends in front of it.
\<close>

lemma mtrace6_own_address_lost:
  assumes "mtrace6_main sy opts argv = (r, s)" and "Query dest packet \<in> set (m_events s)"
    and "m_destination s = None" and "m_receiver s = None"
  shows "\<exists>q. tr6_query_at packet 24 = Inr q \<and> tr_dst q = in6addr_any \<and> tr_raddr q = in6addr_any"
proof -
  obtain qid where p: "packet = trace_query qid s" and r: "ready s" using mtrace6_query [OF assms(1,2)] by blast
  then show ?thesis using assms(3,4) by (simp add: tr6_query_at_trace_query ready_def in6addr_any_def)
qed

lemma mtrace6_own_address_lost_witness:
  "\<exists>s dest packet q. mtrace6_main example_trace_sys [] [''src'', ''grp''] = (Exit 0, s) \<and> Query dest packet \<in> set (m_events s)
     \<and> tr6_query_at packet 24 = Inr q \<and> tr_dst q = in6addr_any \<and> tr_raddr q = in6addr_any"
proof -
  obtain s dest packet where s: "mtrace6_main example_trace_sys [] [''src'', ''grp''] = (Exit 0, s)" "Query dest packet \<in> set (m_events s)"
    "m_destination s = None" "m_receiver s = None" using example_trace_run by blast
  then show ?thesis using mtrace6_own_address_lost [OF s(1-4)] by blast
qed

end
