(* ===== verification/Hash.thy ===== *)
theory Hash
  imports Ecmh_Prelude
begin

text \<open>
  The hash function of \<^verbatim>\<open>src/hash.c\<close>, MMH: the inner product of the message with a fixed key, reduced modulo the
  prime \<open>2 ^ 32 + 15\<close> by two subtractions, and that modulo \<open>2 ^ 32\<close>. The 64-bit values are integers with the
  wrap-around written out. The functions on the table itself use \<^verbatim>\<open>.\<close> on pointers and a
  definition with a stray semicolon, so they are no C program; they are not modelled.
\<close>

definition keyc_line :: "nat list" where
  "keyc_line = [65..<91] @ [97..<123] @ [48..<58]"

text \<open>\<^verbatim>\<open>key\<close> reads the 248 characters in pairs, in the little-endian order of the machine.\<close>

fun pairs_le :: "nat list \<Rightarrow> nat list" where
  "pairs_le (a # b # cs) = (a + 256 * b) # pairs_le cs"
| "pairs_le cs = []"

definition key :: "nat list" where
  "key = pairs_le (keyc_line @ keyc_line @ keyc_line @ keyc_line)"

definition to_u64 :: "int \<Rightarrow> int" where
  "to_u64 x = x mod 2 ^ 64"

definition to_s64 :: "int \<Rightarrow> int" where
  "to_s64 x = (x + 2 ^ 63) mod 2 ^ 64 - 2 ^ 63"

text \<open>\<^verbatim>\<open>for (i=0;i<len;i++) sum += key[i] * (uint64_t)msg[i];\<close>, with the words left in key and message.\<close>

fun hash_sum :: "nat \<Rightarrow> nat list \<Rightarrow> u16 list \<Rightarrow> int \<Rightarrow> int res" where
  "hash_sum 0 ks ms sum1 = Inr sum1"
| "hash_sum (Suc n) (k # ks) (m # ms) sum1 = hash_sum n ks ms (to_u64 (sum1 + int k * uint m))"
| "hash_sum (Suc n) _ _ sum1 = Inl Out_of_bounds"

text \<open>\<^verbatim>\<open>&\<close> with \<^verbatim>\<open>0xffffffff\<close> is the remainder, \<^verbatim>\<open>>>\<close> by 32 the rounded-down quotient, also of a negative \<^verbatim>\<open>stmp\<close>.\<close>

definition hash_reduce :: "int \<Rightarrow> int" where
  "hash_reduce sum1 =
     (let stmp = to_s64 (to_u64 (sum1 mod 2 ^ 32 - to_u64 (sum1 div 2 ^ 32 * 15)));
          utmp = to_u64 (to_s64 (stmp mod 2 ^ 32 - to_s64 (stmp div 2 ^ 32 * 15)));
          ret = utmp mod 2 ^ 32 in
      if utmp > 0xffffffff then to_u64 (ret - 15) else ret)"

definition hash_make :: "u16 list \<Rightarrow> int \<Rightarrow> int res" where
  "hash_make msg len = bindR (hash_sum (if len < 0 then 0 else nat len div 2) key msg 0) (\<lambda>sum1. Inr (hash_reduce sum1))"

section \<open>The reference\<close>

abbreviation mmh_p :: int where "mmh_p \<equiv> 2 ^ 32 + 15"

definition inner_product :: "nat list \<Rightarrow> u16 list \<Rightarrow> int" where
  "inner_product ks ms = sum_list (map2 (\<lambda>k m. int k * uint m) ks ms)"

definition mmh :: "u16 list \<Rightarrow> int" where
  "mmh msg = inner_product key msg mod mmh_p mod 2 ^ 32"

lemma length_pairs_le: "length (pairs_le cs) = length cs div 2"
  by (induction cs rule: pairs_le.induct) simp_all

lemma pairs_le_words: "k \<in> set (pairs_le cs) \<Longrightarrow> \<forall>c \<in> set cs. c < 256 \<Longrightarrow> k < 65536"
  by (induction cs rule: pairs_le.induct) auto

lemma length_key: "length key = 124"
  by (simp add: key_def length_pairs_le keyc_line_def)

lemma key_word: "k \<in> set key \<Longrightarrow> k < 65536"
  unfolding key_def by (erule pairs_le_words) (auto simp: keyc_line_def)

lemma product_bound: "k < 65536 \<Longrightarrow> 0 \<le> int k * uint m \<and> int k * uint m \<le> 2 ^ 32" for m :: u16
proof -
  assume "k < 65536"
  then have "int k * uint m \<le> 65536 * 65536" using uint_lt2p [of m] by (intro mult_mono) auto
  then show ?thesis by simp
qed

lemma inner_product_bound:
  "\<forall>k \<in> set ks. k < 65536 \<Longrightarrow> 0 \<le> inner_product ks ms \<and> inner_product ks ms \<le> 2 ^ 32 * int (length ks)"
proof (induction ks arbitrary: ms)
  case (Cons k ks)
  show ?case
  proof (cases ms)
    case Nil
    then show ?thesis by (simp add: inner_product_def)
  next
    case (Cons m ms')
    then show ?thesis
      using Cons.IH [of ms'] Cons.prems product_bound [of k m] by (auto simp: inner_product_def algebra_simps)
  qed
qed (simp add: inner_product_def)

lemma hash_sum_product:
  assumes "n \<le> length ks" and "n = length ms" and "\<forall>k \<in> set ks. k < 65536" and "0 \<le> s" and "s + 2 ^ 32 * int n < 2 ^ 64"
  shows "hash_sum n ks ms s = Inr (s + inner_product ks ms)"
  using assms
proof (induction n arbitrary: ks ms s)
  case (Suc n)
  then obtain k ks' m ms' where l: "ks = k # ks'" "ms = m # ms'" by (metis Suc_le_length_iff length_Suc_conv)
  have b: "0 \<le> int k * uint m" "int k * uint m \<le> 2 ^ 32" using product_bound [of k m] Suc.prems(3) l by simp_all
  have "to_u64 (s + int k * uint m) = s + int k * uint m" using b Suc.prems(4,5) by (simp add: to_u64_def)
  then show ?case using Suc.IH [of ks' ms' "s + int k * uint m"] Suc.prems b l by (simp add: inner_product_def)
qed (simp add: inner_product_def)

text \<open>\<open>2 ^ 32\<close> is \<open>-15\<close> modulo the prime: each of the two steps keeps the residue.\<close>

lemma to_u64_small: "0 \<le> x \<Longrightarrow> x < 2 ^ 64 \<Longrightarrow> to_u64 x = x"
  by (simp add: to_u64_def)

lemma to_u64_negative: "- (2 ^ 64) \<le> x \<Longrightarrow> x < 0 \<Longrightarrow> to_u64 x = 2 ^ 64 + x"
proof -
  assume x: "- (2 ^ 64) \<le> x" "x < 0"
  have "x mod 2 ^ 64 = (x + 2 ^ 64) mod 2 ^ 64" by (rule mod_add_self2 [symmetric])
  also have "\<dots> = x + 2 ^ 64" using x by (intro mod_pos_pos_trivial) auto
  finally show ?thesis by (simp add: to_u64_def)
qed

lemma mod_of_shifted: "- 15 \<le> s \<Longrightarrow> s < 0 \<Longrightarrow> (s + mmh_p) mod 2 ^ 32 = s + 15"
proof -
  assume s: "- 15 \<le> s" "s < 0"
  have "(s + 15 + 2 ^ 32) mod 2 ^ 32 = (s + 15) mod 2 ^ 32" by (rule mod_add_self2)
  also have "\<dots> = s + 15" using s by (intro mod_pos_pos_trivial) auto
  finally show ?thesis by (simp add: algebra_simps)
qed

lemma to_s64_small: "- (2 ^ 63) \<le> x \<Longrightarrow> x < 2 ^ 63 \<Longrightarrow> to_s64 x = x"
  by (simp add: to_s64_def)

lemma to_s64_of_u64: "- (2 ^ 63) \<le> x \<Longrightarrow> x < 2 ^ 63 \<Longrightarrow> to_s64 (to_u64 x) = x"
  unfolding to_s64_def to_u64_def mod_add_left_eq using to_s64_small [of x] by (simp only: to_s64_def)

lemma hash_reduce_step:
  assumes "0 \<le> lo" "lo < 2 ^ 32" "0 \<le> hi" "hi < 256"
  shows "hash_reduce (2 ^ 32 * hi + lo) =
    (if lo - 15 * hi \<ge> 0 then lo - 15 * hi else if lo - 15 * hi < - 15 then lo - 15 * hi + mmh_p else 2 ^ 64 + (lo - 15 * hi))"
proof -
  let ?v = "2 ^ 32 * hi + lo" and ?s = "lo - 15 * hi"
  have d: "?v mod 2 ^ 32 = lo" "?v div 2 ^ 32 = hi" using assms by simp_all
  have s: "to_s64 (to_u64 (?v mod 2 ^ 32 - to_u64 (?v div 2 ^ 32 * 15))) = ?s"
    unfolding d using assms by (subst to_u64_small) (simp_all add: to_s64_of_u64)
  have e: "hash_reduce ?v = (let utmp = to_u64 (to_s64 (?s mod 2 ^ 32 - to_s64 (?s div 2 ^ 32 * 15))); ret = utmp mod 2 ^ 32 in
      if utmp > 0xffffffff then to_u64 (ret - 15) else ret)"
    unfolding hash_reduce_def Let_def s ..
  show ?thesis
  proof (cases "0 \<le> ?s")
    case True
    then have "?s mod 2 ^ 32 = ?s" "?s div 2 ^ 32 = 0" using assms by simp_all
    then show ?thesis unfolding e using True assms by (simp add: to_s64_small to_u64_small)
  next
    case False
    have "(?s + 2 ^ 32) div 2 ^ 32 = 0" using False assms by (intro div_pos_pos_trivial) auto
    then have "?s div 2 ^ 32 = -1" using div_add_self2 [of "2 ^ 32 :: int" ?s] by simp
    then have m: "?s div 2 ^ 32 = -1" "?s mod 2 ^ 32 = ?s + 2 ^ 32" using minus_mult_div_eq_mod [of ?s "2 ^ 32"] by simp_all
    have u: "to_u64 (to_s64 (?s mod 2 ^ 32 - to_s64 (?s div 2 ^ 32 * 15))) = ?s + mmh_p"
      unfolding m using False assms by (simp add: to_s64_small to_u64_small)
    have r: "(?s + mmh_p) mod 2 ^ 32 = ?s + 15" if "- 15 \<le> ?s" using that False by (intro mod_of_shifted) auto
    show ?thesis unfolding e u Let_def using False assms r to_u64_negative [of ?s] by auto
  qed
qed

lemma residue:
  assumes "0 \<le> lo" "lo < 2 ^ 32" "0 \<le> hi" "hi < 256"
  shows "(2 ^ 32 * hi + lo) mod mmh_p = (if lo - 15 * hi \<ge> 0 then lo - 15 * hi else lo - 15 * hi + mmh_p)"
proof -
  let ?s = "lo - 15 * hi"
  have "(2 ^ 32 * hi + lo) mod mmh_p = ?s mod mmh_p"
    using mod_mult_self2 [of ?s mmh_p hi] by (simp add: algebra_simps)
  moreover have "?s mod mmh_p = (?s + mmh_p) mod mmh_p" by (rule mod_add_self2 [symmetric])
  moreover have "?s mod mmh_p = ?s" if "?s \<ge> 0" using that assms by (intro mod_pos_pos_trivial) auto
  moreover have "(?s + mmh_p) mod mmh_p = ?s + mmh_p" if "?s < 0" using that assms by (intro mod_pos_pos_trivial) auto
  ultimately show ?thesis by (cases "?s \<ge> 0") simp_all
qed

lemma hash_reduce_mmh:
  assumes "0 \<le> v" and "v < 2 ^ 40"
  shows "hash_reduce v = (if v mod mmh_p < 2 ^ 32 then v mod mmh_p mod 2 ^ 32 else 2 ^ 64 + v mod mmh_p mod 2 ^ 32 - 15)"
proof -
  define hi lo where "hi = v div 2 ^ 32" and "lo = v mod 2 ^ 32"
  have v: "v = 2 ^ 32 * hi + lo" "0 \<le> lo" "lo < 2 ^ 32" "0 \<le> hi" "hi < 256"
    using assms by (auto simp: hi_def lo_def)
  have m: "(lo - 15 * hi + mmh_p) mod 2 ^ 32 = lo - 15 * hi + 15" if "lo - 15 * hi < 0" "- 15 \<le> lo - 15 * hi"
    using that by (intro mod_of_shifted)
  show ?thesis
    unfolding v(1) hash_reduce_step [OF v(2-5)] residue [OF v(2-5)] using v(2-5) m by auto
qed

text \<open>
  C33. For a message of up to 248 bytes the hash is the MMH value, unless the residue is one of the 15 that do not fit
  32 bits. For these the code takes 15 off a remainder below 15, and the result wraps to a 64-bit number just
  below \<open>2 ^ 64\<close>.
\<close>

theorem hash_make_mmh:
  assumes "length msg \<le> 124" and "len = 2 * int (length msg) \<or> len = 2 * int (length msg) + 1"
  shows "hash_make msg len =
    Inr (if inner_product key msg mod mmh_p < 2 ^ 32 then mmh msg else 2 ^ 64 + mmh msg - 15)"
proof -
  have n: "(if len < 0 then 0 else nat len div 2) = length msg" using assms(2) by auto
  have b: "0 \<le> inner_product key msg" "inner_product key msg \<le> 2 ^ 32 * 124"
    using inner_product_bound [of key msg] key_word by (auto simp: length_key)
  have "hash_sum (length msg) key msg 0 = Inr (inner_product key msg)"
    using hash_sum_product [of "length msg" key msg 0] assms(1) key_word by (simp add: length_key)
  then show ?thesis
    unfolding hash_make_def n using hash_reduce_mmh [of "inner_product key msg"] b by (simp add: mmh_def)
qed

theorem hash_make_mmh_witness:
  "hash_make [52008, 54285, 33887, 38694, 59877] 10 = Inr (2 ^ 64 - 14) \<and> hash_make [1, 0] 4 = Inr 16961"
proof -
  have k: "key = 16961 # 17475 # 17989 # 18503 # 19017 # drop 5 key"
    by (simp add: key_def keyc_line_def upt_rec)
  have "inner_product key [52008, 54285, 33887, 38694, 59877] = mmh_p - 14" "inner_product key [1, 0] = 16961"
    by (subst k, simp add: inner_product_def)+
  then show ?thesis
    using hash_make_mmh [of "[52008, 54285, 33887, 38694, 59877]" 10] hash_make_mmh [of "[1, 0]" 4]
    by (simp add: mmh_def)
qed

end
