(* ===== verification/Socket_filter.thy ===== *)
theory Socket_filter
  imports Ecmh_Prelude
begin

text \<open>
  The socket filter of \<^verbatim>\<open>src/ecmh.c\<close>: a program for the packet filter machine that the daemon attaches to its packet socket at
  startup, so it decides which frames \<^verbatim>\<open>handleinterfaces\<close> ever sees. The table is the program of the source; \<open>bpf_run\<close> is
  the machine with the instructions the program uses (accumulator loads of a byte or a half word, two conditional
  jumps, return). A load outside the frame ends the program with 0, which drops the frame.
\<close>

section \<open>The machine\<close>

record sock_filter =
  sf_code :: u16
  sf_jt :: u8
  sf_jf :: u8
  sf_k :: u32

abbreviation (input) BPF_LD_H_ABS :: u16 where "BPF_LD_H_ABS \<equiv> 0x28"
abbreviation (input) BPF_LD_B_ABS :: u16 where "BPF_LD_B_ABS \<equiv> 0x30"
abbreviation (input) BPF_JEQ_K :: u16 where "BPF_JEQ_K \<equiv> 0x15"
abbreviation (input) BPF_JSET_K :: u16 where "BPF_JSET_K \<equiv> 0x45"
abbreviation (input) BPF_RET_K :: u16 where "BPF_RET_K \<equiv> 0x06"

definition bpf_load :: "bytes \<Rightarrow> nat \<Rightarrow> nat \<Rightarrow> u32 option" where
  "bpf_load frame k n = (if k + n \<le> length frame then Some (be_word (take n (drop k frame))) else None)"

text \<open>The result is how many bytes of the frame are kept; \<open>None\<close> is an instruction the machine does not know or a jump out of the program.\<close>

function bpf_run :: "sock_filter list \<Rightarrow> bytes \<Rightarrow> nat \<Rightarrow> u32 \<Rightarrow> u32 option" where
  "bpf_run prog frame pc A =
     (if pc < length prog then
        let i = prog ! pc in
        if sf_code i = BPF_LD_H_ABS then
          (case bpf_load frame (unat (sf_k i)) 2 of None \<Rightarrow> Some 0 | Some v \<Rightarrow> bpf_run prog frame (pc + 1) v)
        else if sf_code i = BPF_LD_B_ABS then
          (case bpf_load frame (unat (sf_k i)) 1 of None \<Rightarrow> Some 0 | Some v \<Rightarrow> bpf_run prog frame (pc + 1) v)
        else if sf_code i = BPF_JEQ_K then
          bpf_run prog frame (pc + 1 + unat (if A = sf_k i then sf_jt i else sf_jf i)) A
        else if sf_code i = BPF_JSET_K then
          bpf_run prog frame (pc + 1 + unat (if A AND sf_k i \<noteq> 0 then sf_jt i else sf_jf i)) A
        else if sf_code i = BPF_RET_K then Some (sf_k i)
        else None
      else None)"
  by pat_completeness auto
termination
  by (relation "measure (\<lambda>(prog, frame, pc, A). length prog - pc)") auto

declare bpf_run.simps [simp del]

section \<open>The program\<close>

definition bpf_ins :: "u16 \<Rightarrow> u8 \<Rightarrow> u8 \<Rightarrow> u32 \<Rightarrow> sock_filter" where
  "bpf_ins code jt jf k = \<lparr>sf_code = code, sf_jt = jt, sf_jf = jf, sf_k = k\<rparr>"

definition bpf :: "sock_filter list" where
  "bpf =
    [bpf_ins 0x28 0 0 0x0000000c,
     bpf_ins 0x15 0 8 0x000086dd,
     bpf_ins 0x30 0 0 0x00000000,
     bpf_ins 0x45 0 6 0x00000001,
     bpf_ins 0x30 0 0 0x00000014,
     bpf_ins 0x15 4 0 0x00000011,
     bpf_ins 0x15 0 2 0x0000002c,
     bpf_ins 0x30 0 0 0x00000036,
     bpf_ins 0x15 1 0 0x00000011,
     bpf_ins 0x6 0 0 0x0000ffff,
     bpf_ins 0x6 0 0 0x00000000]"

definition passes :: "bytes \<Rightarrow> bool" where
  "passes frame \<longleftrightarrow> (case bpf_run bpf frame 0 0 of None \<Rightarrow> False | Some n \<Rightarrow> n \<noteq> 0)"

section \<open>What it accepts\<close>

text \<open>
  The reference: an IPv6 frame to a group address of the link whose payload is not UDP, neither directly nor in a fragment
  that starts with a fragment header. The offsets count from the Ethernet header.
\<close>

definition wanted_frame :: "bytes \<Rightarrow> bool" where
  "wanted_frame frame \<longleftrightarrow> 21 \<le> length frame \<and> take 2 (drop 12 frame) = [0x86, 0xdd] \<and> bit (frame ! 0) 0
     \<and> frame ! 20 \<noteq> 17 \<and> (frame ! 20 = 44 \<longrightarrow> 55 \<le> length frame \<and> frame ! 54 \<noteq> 17)"

lemma length_bpf: "length bpf = 11"
  by (simp add: bpf_def)

lemma run_load:
  assumes "pc < 11" and "bpf ! pc = bpf_ins code 0 0 k" and "code = 0x28 \<and> n = 2 \<or> code = 0x30 \<and> n = 1" and "pc' = pc + 1" and "k' = unat k"
  shows "bpf_run bpf frame pc A = (case bpf_load frame k' n of None \<Rightarrow> Some 0 | Some v \<Rightarrow> bpf_run bpf frame pc' v)"
  by (subst bpf_run.simps) (use assms in \<open>auto simp: length_bpf bpf_ins_def Let_def cong: option.case_cong\<close>)

lemma run_jeq:
  assumes "pc < 11" and "bpf ! pc = bpf_ins 0x15 jt jf k"
  shows "bpf_run bpf frame pc A = (if A = k then bpf_run bpf frame (pc + 1 + unat jt) A else bpf_run bpf frame (pc + 1 + unat jf) A)"
  by (subst bpf_run.simps) (use assms in \<open>simp add: length_bpf bpf_ins_def Let_def\<close>)

lemma run_jset:
  assumes "pc < 11" and "bpf ! pc = bpf_ins 0x45 jt jf k"
  shows "bpf_run bpf frame pc A = (if A AND k \<noteq> 0 then bpf_run bpf frame (pc + 1 + unat jt) A else bpf_run bpf frame (pc + 1 + unat jf) A)"
  by (subst bpf_run.simps) (use assms in \<open>simp add: length_bpf bpf_ins_def Let_def\<close>)

lemma run_ret: "pc < 11 \<Longrightarrow> bpf ! pc = bpf_ins 0x6 jt jf k \<Longrightarrow> bpf_run bpf frame pc A = Some k"
  by (subst bpf_run.simps) (simp add: length_bpf bpf_ins_def Let_def)

lemma u32_eq: "m < 2 ^ 32 \<Longrightarrow> n < 2 ^ 32 \<Longrightarrow> (of_nat m :: u32) = of_nat n \<longleftrightarrow> m = n"
  by (simp add: word_of_nat_eq_iff take_bit_nat_eq_self)

lemma unat_byte: "unat (b :: u8) < 256"
  using unsigned_less [of b, where 'a = nat] by simp

lemma load_byte: "bpf_load frame k 1 = (if k < length frame then Some (of_nat (unat (frame ! k))) else None)"
proof -
  have "take 1 (drop k frame) = [frame ! k]" if "k < length frame" using that by (cases "drop k frame") (auto simp: hd_drop_conv_nth dest: arg_cong [of _ _ hd])
  then show ?thesis by (simp add: bpf_load_def be_word_def be_nat_def)
qed

lemma byte_eq: "m < 256 \<Longrightarrow> (of_nat (unat (b :: u8)) :: u32) = of_nat m \<longleftrightarrow> b = of_nat m"
proof -
  assume m: "m < 256"
  then have "(of_nat (unat b) :: u32) = of_nat m \<longleftrightarrow> unat b = m" using unat_byte [of b] by (intro u32_eq) simp_all
  moreover have "unat (of_nat m :: u8) = m" using m by (simp add: unat_of_nat take_bit_nat_eq_self)
  ultimately show ?thesis by (metis word_unat_eq_iff)
qed

lemma byte_group: "(of_nat (unat (b :: u8)) :: u32) AND 1 \<noteq> 0 \<longleftrightarrow> bit b 0"
proof -
  have "(x :: u32) AND 1 \<noteq> 0 \<longleftrightarrow> bit x 0" for x by (simp add: and_one_eq mod_2_eq_odd flip: bit_0)
  then show ?thesis unfolding of_nat_unat by (simp add: bit_unsigned_iff del: bit_0)
qed

lemma pair_eq: "(be_word [a, b] :: u32) = 0x86dd \<longleftrightarrow> [a, b] = [0x86, 0xdd]"
proof -
  have "(be_word [a, b] :: u32) = of_nat 0x86dd \<longleftrightarrow> unat a * 256 + unat b = 0x86dd"
    unfolding be_word_def be_nat_def using unat_byte [of a] unat_byte [of b] by (subst u32_eq) simp_all
  also have "\<dots> \<longleftrightarrow> unat a = 0x86 \<and> unat b = 0xdd" using unat_byte [of a] unat_byte [of b] by auto presburger+
  finally show ?thesis by (simp add: word_unat_eq_iff)
qed

lemma bpf_at:
  "bpf ! 0 = bpf_ins 0x28 0 0 12" "bpf ! 1 = bpf_ins 0x15 0 8 0x86dd" "bpf ! 2 = bpf_ins 0x30 0 0 0" "bpf ! 3 = bpf_ins 0x45 0 6 1"
  "bpf ! 4 = bpf_ins 0x30 0 0 20" "bpf ! 5 = bpf_ins 0x15 4 0 17" "bpf ! 6 = bpf_ins 0x15 0 2 44" "bpf ! 7 = bpf_ins 0x30 0 0 54"
  "bpf ! 8 = bpf_ins 0x15 1 0 17" "bpf ! 9 = bpf_ins 0x6 0 0 0xffff" "bpf ! 10 = bpf_ins 0x6 0 0 0"
  by (simp_all add: bpf_def)

lemma run_bpf:
  "bpf_run bpf frame 0 A = (case bpf_load frame 12 2 of None \<Rightarrow> Some 0 | Some v \<Rightarrow> if v = 0x86dd then bpf_run bpf frame 2 v else Some 0)"
  "bpf_run bpf frame 2 A = (case bpf_load frame 0 1 of None \<Rightarrow> Some 0 | Some v \<Rightarrow> if v AND 1 \<noteq> 0 then bpf_run bpf frame 4 v else Some 0)"
  "bpf_run bpf frame 4 A = (case bpf_load frame 20 1 of None \<Rightarrow> Some 0 | Some v \<Rightarrow> if v = 17 then Some 0 else if v = 44 then bpf_run bpf frame 7 v else Some 0xffff)"
  "bpf_run bpf frame 7 A = (case bpf_load frame 54 1 of None \<Rightarrow> Some 0 | Some v \<Rightarrow> Some (if v = 17 then 0 else 0xffff))"
proof -
  have r: "bpf_run bpf frame 9 v = Some 0xffff" "bpf_run bpf frame 10 v = Some 0" for v
    using bpf_at run_ret [of 9] run_ret [of 10] by simp_all
  have j: "bpf_run bpf frame 1 v = (if v = 0x86dd then bpf_run bpf frame 2 v else bpf_run bpf frame 10 v)"
    "bpf_run bpf frame 5 v = (if v = 17 then bpf_run bpf frame 10 v else bpf_run bpf frame 6 v)"
    "bpf_run bpf frame 6 v = (if v = 44 then bpf_run bpf frame 7 v else bpf_run bpf frame 9 v)"
    "bpf_run bpf frame 8 v = (if v = 17 then bpf_run bpf frame 10 v else bpf_run bpf frame 9 v)" for v
    using run_jeq [of 1 0 8 "0x86dd" frame v] run_jeq [of 5 4 0 17 frame v] run_jeq [of 6 0 2 44 frame v] run_jeq [of 8 1 0 17 frame v]
    by (simp_all add: bpf_at del: One_nat_def)
  have s: "bpf_run bpf frame 3 v = (if v AND 1 \<noteq> 0 then bpf_run bpf frame 4 v else bpf_run bpf frame 10 v)" for v
    using run_jset [of 3 0 6 1 frame v] by (simp add: bpf_at del: One_nat_def)
  have l0: "bpf_run bpf frame 0 A = (case bpf_load frame 12 2 of None \<Rightarrow> Some 0 | Some v \<Rightarrow> bpf_run bpf frame 1 v)"
    by (rule run_load [OF _ bpf_at(1)]) simp_all
  have l2: "bpf_run bpf frame 2 A = (case bpf_load frame 0 1 of None \<Rightarrow> Some 0 | Some v \<Rightarrow> bpf_run bpf frame 3 v)"
    by (rule run_load [OF _ bpf_at(3)]) simp_all
  have l4: "bpf_run bpf frame 4 A = (case bpf_load frame 20 1 of None \<Rightarrow> Some 0 | Some v \<Rightarrow> bpf_run bpf frame 5 v)"
    by (rule run_load [OF _ bpf_at(5)]) simp_all
  have l7: "bpf_run bpf frame 7 A = (case bpf_load frame 54 1 of None \<Rightarrow> Some 0 | Some v \<Rightarrow> bpf_run bpf frame 8 v)"
    by (rule run_load [OF _ bpf_at(8)]) simp_all
  show "bpf_run bpf frame 0 A = (case bpf_load frame 12 2 of None \<Rightarrow> Some 0 | Some v \<Rightarrow> if v = 0x86dd then bpf_run bpf frame 2 v else Some 0)"
    "bpf_run bpf frame 2 A = (case bpf_load frame 0 1 of None \<Rightarrow> Some 0 | Some v \<Rightarrow> if v AND 1 \<noteq> 0 then bpf_run bpf frame 4 v else Some 0)"
    "bpf_run bpf frame 4 A = (case bpf_load frame 20 1 of None \<Rightarrow> Some 0 | Some v \<Rightarrow> if v = 17 then Some 0 else if v = 44 then bpf_run bpf frame 7 v else Some 0xffff)"
    "bpf_run bpf frame 7 A = (case bpf_load frame 54 1 of None \<Rightarrow> Some 0 | Some v \<Rightarrow> Some (if v = 17 then 0 else 0xffff))"
    unfolding l0 l2 l4 l7 j s r by (auto split: option.splits)
qed

lemma load_type:
  "bpf_load frame 12 2 = (if 14 \<le> length frame then Some (be_word (take 2 (drop 12 frame))) else None)"
  "14 \<le> length frame \<Longrightarrow> (be_word (take 2 (drop 12 frame)) :: u32) = 0x86dd \<longleftrightarrow> take 2 (drop 12 frame) = [0x86, 0xdd]"
proof -
  show "(be_word (take 2 (drop 12 frame)) :: u32) = 0x86dd \<longleftrightarrow> take 2 (drop 12 frame) = [0x86, 0xdd]" if "14 \<le> length frame"
  proof -
    have "take 2 (drop 12 frame) = [frame ! 12, frame ! 13]"
      using that by (intro nth_equalityI) (auto simp: less_2_cases_iff)
    then show ?thesis using pair_eq [of "frame ! 12" "frame ! 13"] by simp
  qed
qed (simp add: bpf_load_def)

lemma bpf_accepts: "bpf_run bpf frame 0 0 = Some (if wanted_frame frame then 0xffff else 0)"
proof -
  have e: "(of_nat (unat b) :: u32) = 17 \<longleftrightarrow> b = 17" "(of_nat (unat b) :: u32) = 44 \<longleftrightarrow> b = 44" for b :: u8
    using byte_eq [of 17 b] byte_eq [of 44 b] by simp_all
  have t: "(be_word (take 2 (drop 12 frame)) :: u32) = 0x86dd \<longleftrightarrow> take 2 (drop 12 frame) = [0x86, 0xdd]" if "14 \<le> length frame"
    using that by (rule load_type(2))
  show ?thesis
  proof (cases "14 \<le> length frame \<and> take 2 (drop 12 frame) = [0x86, 0xdd]")
    case True
    then show ?thesis using t unfolding run_bpf load_type(1) load_byte wanted_frame_def
      by (simp add: e byte_group del: of_nat_unat bit_0)
  next
    case False
    then show ?thesis using t unfolding run_bpf(1) load_type(1) wanted_frame_def by auto
  qed
qed

text \<open>
  C10. The filter program always returns, and it keeps a frame (up to 65535 bytes of it) exactly when the frame is an
  IPv6 frame to a link-layer group address, long enough to hold the next-header field, and not UDP; the comment at the table says
  \<^verbatim>\<open>ip6 and multicast\<close> and does not mention UDP.
\<close>

theorem socket_filter_correct: "bpf_run bpf frame 0 0 = Some (if wanted_frame frame then 0xffff else 0)"
  by (rule bpf_accepts)

end
