(* ===== verification/Scenarios.thy ===== *)
theory Scenarios
  imports Daemon Socket_filter
begin

text \<open>
  Whole packets through the whole program: a report goes in as the bytes of an IPv6 packet, through the extension headers, the
  checksum and the record parser into the subscription tables, and what the tables then do to data packets and to
  upcalls of the kernel.
\<close>

section \<open>A report as a packet\<close>

definition report_packet :: "u8 \<Rightarrow> in6_addr \<Rightarrow> in6_addr \<Rightarrow> (u8 \<times> bytes) list \<Rightarrow> grec list \<Rightarrow> bytes" where
  "report_packet hlim src dst es rs =
     ip6_header (of_nat (length (enc_chain es 58) + length (enc_report rs))) (chain_type es 58) hlim src dst
       @ enc_chain es 58 @ enc_report rs"

text \<open>What a host on the link sends: a link-local source that is not the router's own, a multicast destination, records that are well formed.\<close>

definition valid_report :: "conf \<Rightarrow> nat \<Rightarrow> u8 \<Rightarrow> in6_addr \<Rightarrow> in6_addr \<Rightarrow> (u8 \<times> bytes) list \<Rightarrow> grec list \<Rightarrow> bool" where
  "valid_report c i hlim src dst es rs \<longleftrightarrow> IN6_IS_ADDR_LINKLOCAL src \<and> IN6_IS_ADDR_MULTICAST dst
     \<and> src \<noteq> in_linklocal (int_at c i) \<and> src \<noteq> in_global (int_at c i)
     \<and> list_all valid_ext es \<and> list_all valid_grec rs \<and> length (report_packet hlim src dst es rs) < 65000"

lemma length_report_packet: "length (report_packet hlim src dst es rs) = 40 + length (enc_chain es 58) + length (enc_report rs)"
  by (simp add: report_packet_def)

text \<open>The report handler reads nothing before the number of records, so the checksum that was written into the message does not matter.\<close>

lemma read_bytes_drop: "drop k mem' = drop k mem \<Longrightarrow> length mem' = length mem \<Longrightarrow> k \<le> off \<Longrightarrow> read_bytes mem' off n = read_bytes mem off n"
proof -
  assume a: "drop k mem' = drop k mem" "length mem' = length mem" "k \<le> off"
  have "drop off m = drop (off - k) (drop k m)" for m :: bytes using a(3) by simp
  then have "drop off mem' = drop off mem" using a(1) by metis
  then show ?thesis using a(2) by (simp add: read_bytes_def)
qed

lemma read_sources_drop:
  assumes "drop k mem' = drop k mem" and "length mem' = length mem" and "k \<le> src"
  shows "read_sources n mem' src r = read_sources n mem src r"
  using assms(3) read_bytes_drop [OF assms(1,2)]
  by (induction n arbitrary: src r) (simp_all del: read_bytes_Inr_iff)

lemma mld2_record_drop:
  assumes "drop k mem' = drop k mem" and "length mem' = length mem" and "k \<le> grec"
  shows "mld2_record mem' off plen grec = mld2_record mem off plen grec"
proof -
  have s: "read_sources n mem' (grec + 20) r = read_sources n mem (grec + 20) r" for n r
    using assms(3) by (intro read_sources_drop [OF assms(1,2)]) simp
  show ?thesis unfolding mld2_record_def read_bytes_drop [OF assms] Let_def s ..
qed

lemma mld2_record_next: "mld2_record mem off plen grec = Inr (Some (r, next)) \<Longrightarrow> grec \<le> next"
  unfolding mld2_record_def Let_def by (auto simp: bindR_Inr_iff split: if_splits)

lemma mld2_records_drop:
  assumes "drop k mem' = drop k mem" and "length mem' = length mem" and "k \<le> grec"
  shows "mld2_records n os i mem' off plen grec hu c = mld2_records n os i mem off plen grec hu c"
  using assms(3)
proof (induction n arbitrary: grec hu c)
  case (Suc n)
  note r = mld2_record_drop [OF assms(1,2) Suc.prems, of off plen]
  show ?case
  proof (cases "mld2_record mem off plen grec")
    case (Inr x)
    then show ?thesis
      using r Suc.IH Suc.prems mld2_record_next [of mem off plen grec "fst (the x)" "snd (the x)"]
      by (cases x; cases "handle_downstream_subscription os i (fst (the x)) c") auto
  qed (simp add: r)
qed simp

lemma mld2_report_drop:
  assumes "drop (off + 4) mem' = drop (off + 4) mem" and "length mem' = length mem"
  shows "l4_ipv6_icmpv6_mld2_report os i mem' off plen c = l4_ipv6_icmpv6_mld2_report os i mem off plen c"
proof -
  have n: "read_bytes mem' (off + 6) 2 = read_bytes mem (off + 6) 2" by (rule read_bytes_drop [OF assms]) simp
  have r: "mld2_records k os i mem' off p (off + 8) hu d = mld2_records k os i mem off p (off + 8) hu d" for k p hu d
    by (rule mld2_records_drop [OF assms]) simp
  show ?thesis unfolding l4_ipv6_icmpv6_mld2_report_def n r ..
qed

section \<open>Through the layers\<close>

definition count_received :: "nat \<Rightarrow> conf \<Rightarrow> conf" where
  "count_received i c = upd_int i (\<lambda>n. n\<lparr>in_stat_icmp_received := in_stat_icmp_received n + 1\<rparr>)
     (c\<lparr>c_stat_icmp_received := c_stat_icmp_received c + 1\<rparr>)"

lemma src_field_update: "24 \<le> k \<Longrightarrow> take 16 (drop 8 (xs[k := v])) = take 16 (drop 8 (xs :: bytes))"
  by (simp add: take_drop)

lemma icmpv6_report:
  assumes "length pre = off" and "40 \<le> off" and "length (enc_report rs) < 65536" and "IN6_IS_ADDR_LINKLOCAL (pkt_src pre)"
  shows "l4_ipv6_icmpv6 os i (pre @ enc_report rs @ post) len off (of_nat (length (enc_report rs))) c
    = l4_ipv6_icmpv6_mld2_report os i (pre @ enc_report rs @ post) off (of_nat (length (enc_report rs))) (count_received i c)"
proof -
  let ?iph = "pre @ enc_report rs @ post"
  let ?z = "?iph[off + 2 := 0, off + 3 := 0]"
  have l: "off + 8 \<le> length ?iph" using assms(1) by (simp add: length_enc_report)
  have h: "read_bytes ?iph 0 40 = Inr (take 40 ?iph)" "read_bytes ?iph off 4 = Inr (take 4 (drop off ?iph))" using l assms(2) by simp_all
  have t: "?iph ! off = 143" using assms(1) by (simp add: enc_report_def nth_append)
  moreover have "take 4 (drop off ?iph) ! 0 = ?iph ! off" using l by (intro trans [OF nth_take nth_drop [of off ?iph 0, simplified add_0_right]]) simp_all
  ultimately have t4: "take 4 (drop off ?iph) ! 0 = 143" by simp
  have p: "unat (of_nat (length (enc_report rs)) :: u16) = length (enc_report rs)" using assms(3) by (simp add: unat_of_nat take_bit_nat_eq_self)
  have d: "read_bytes ?z off (length (enc_report rs)) = Inr (take (length (enc_report rs)) (drop off ?z))"
    using assms(1) by simp
  have "icmpv6_dispatch os i (?z[off + 2 := a, off + 3 := b]) len off (of_nat (length (enc_report rs))) d
      = l4_ipv6_icmpv6_mld2_report os i ?iph off (of_nat (length (enc_report rs))) d" for a b d
  proof -
    let ?y = "?z[off + 2 := a, off + 3 := b]"
    have "take 16 (drop 8 ?y) = take 16 (drop 8 ?iph)" using assms(2) by (simp only: src_field_update)
    also have "\<dots> = take 16 (drop 8 pre)" using assms(1,2) by simp
    finally have s: "pkt_src ?y = pkt_src pre" by simp
    have y: "?y ! off = 143" using t by simp
    have "l4_ipv6_icmpv6_mld2_report os i ?y off (of_nat (length (enc_report rs))) d
        = l4_ipv6_icmpv6_mld2_report os i ?iph off (of_nat (length (enc_report rs))) d"
      by (rule mld2_report_drop) simp_all
    then show ?thesis unfolding icmpv6_dispatch_def Let_def s y using assms(4) by simp
  qed
  then show ?thesis unfolding l4_ipv6_icmpv6_def count_received_def h Let_def bindR_simps t4 p d by simp
qed

lemma ip6_header_fields:
  "take 40 (ip6_header plen nxt hlim src dst @ r) = ip6_header plen nxt hlim src dst"
  "ip6_header plen nxt hlim src dst ! 6 = nxt" "ip6_header plen nxt hlim src dst ! 7 = hlim"
  "take 2 (drop 4 (ip6_header plen nxt hlim src dst)) = be_bytes 2 plen"
  "take 16 (drop 8 (ip6_header plen nxt hlim src dst)) = be_bytes 16 src"
  "drop 24 (ip6_header plen nxt hlim src dst) = be_bytes 16 dst"
proof -
  obtain a b where ab: "be_bytes 2 plen = [a, b]" by (simp add: be_bytes_def upt_rec)
  show "take 40 (ip6_header plen nxt hlim src dst @ r) = ip6_header plen nxt hlim src dst" by simp
  show "ip6_header plen nxt hlim src dst ! 6 = nxt" "ip6_header plen nxt hlim src dst ! 7 = hlim"
    "take 2 (drop 4 (ip6_header plen nxt hlim src dst)) = be_bytes 2 plen"
    by (simp_all add: ip6_header_def ab)
  show "take 16 (drop 8 (ip6_header plen nxt hlim src dst)) = be_bytes 16 src"
    using ip6_header_src [of plen nxt hlim src dst "[]"] by simp
  show "drop 24 (ip6_header plen nxt hlim src dst) = be_bytes 16 dst"
    using ip6_header_dst [of plen nxt hlim src dst "[]"] by simp
qed

lemma l3_report:
  assumes "valid_report c i hlim src dst es rs" and "length (report_packet hlim src dst es rs) \<le> n" and "n < 65536"
  shows "l2_ethtype os i (report_packet hlim src dst es rs @ post) n 0x86dd c
    = l4_ipv6_icmpv6_mld2_report os i ((ip6_header (of_nat (length (enc_chain es 58) + length (enc_report rs))) (chain_type es 58) hlim src dst
        @ enc_chain es 58) @ enc_report rs @ post) (40 + length (enc_chain es 58)) (of_nat (length (enc_report rs))) (count_received i c)"
proof -
  let ?n = "length (enc_chain es 58)" and ?m = "length (enc_report rs)"
  let ?hd = "ip6_header (of_nat (?n + ?m)) (chain_type es 58) hlim src dst"
  let ?mem = "?hd @ enc_chain es 58 @ enc_report rs @ post"
  have v: "IN6_IS_ADDR_LINKLOCAL src" "IN6_IS_ADDR_MULTICAST dst" "src \<noteq> in_linklocal (int_at c i)" "src \<noteq> in_global (int_at c i)"
    "\<forall>e \<in> set es. valid_ext e" "40 + ?n + ?m < 65000"
    using assms(1) by (simp_all add: valid_report_def list_all_iff length_report_packet)
  have len: "unat (of_nat n :: u16) = n" "40 + ?n + ?m \<le> n"
    using assms(2,3) by (simp_all add: unat_of_nat take_bit_nat_eq_self length_report_packet)
  have m: "report_packet hlim src dst es rs @ post = ?mem" by (simp add: report_packet_def)
  have h: "read_bytes ?mem 0 40 = Inr ?hd" by simp
  have pl: "be_word (be_bytes 2 (of_nat (?n + ?m) :: u16)) = (of_nat (?n + ?m) :: u16)" by (simp add: be_word_be_bytes)
  have sk: "skip_headers ?mem (of_nat n) (chain_type es 58) 40 (of_nat (?n + ?m)) = Inr (Some (58, 40 + ?n, of_nat ?m))"
    using skip_headers_enc [OF v(5), of 58 ?hd 40 "of_nat n" "enc_report rs @ post" "of_nat (?n + ?m)"] len by simp
  have "pkt_src (?hd @ enc_chain es 58) = src" unfolding ip6_header_src by simp
  then have ic: "l4_ipv6_icmpv6 os i ((?hd @ enc_chain es 58) @ enc_report rs @ post) l (40 + ?n) (of_nat ?m) c
     = l4_ipv6_icmpv6_mld2_report os i ((?hd @ enc_chain es 58) @ enc_report rs @ post) (40 + ?n) (of_nat ?m) (count_received i c)" for l
    using v by (intro icmpv6_report) simp_all
  show ?thesis
    unfolding length_report_packet m l2_ethtype_def l3_ipv6_def h bindR_simps Let_def ip6_header_fields pl
    using v(2-4) sk ic [of "of_nat n"] by simp
qed


lemma report_packet_effect:
  assumes "valid_report c i hlim src dst es rs" and "length (report_packet hlim src dst es rs) \<le> n" and "n < 65536"
    and "wf_conf c" and "c_routes c \<noteq> None"
  shows "\<exists>c'. l2_ethtype os i (report_packet hlim src dst es rs @ post) n 0x86dd c = Inr c' \<and> wf_conf c'
    \<and> (\<forall>mca k. subscription_of c' mca k = (if k = in_ifindex (int_at c i) then fold (record_step mca) rs (subscription_of c mca k)
         else subscription_of c mca k))"
proof -
  let ?d = "count_received i c"
  have d: "wf_conf ?d" "c_routes ?d \<noteq> None" "in_ifindex (int_at ?d k) = in_ifindex (int_at c k)" for k
    using wf_conf_count_received [OF assms(4)] assms(5) by (simp_all add: count_received_def nth_upd_int)
  have sub: "subscription_of ?d = subscription_of c" by (rule subscription_of_groups) (simp add: count_received_def)
  have v: "\<forall>r \<in> set rs. valid_grec r" "length (enc_report rs) < 65536"
    using assms(1) by (simp_all add: valid_report_def list_all_iff length_report_packet)
  show ?thesis
    unfolding l3_report [OF assms(1-3)] sub [symmetric] d(3) [symmetric]
    by (rule mld2_report_effect [OF v _ d(1,2)]) simp
qed

section \<open>Frames\<close>

text \<open>A frame as the packet socket hands it over: an Ethernet header, the packet, and what the buffer holds behind it.\<close>

definition packet_frame :: "ifindex \<Rightarrow> bytes \<Rightarrow> bytes \<Rightarrow> bytes \<Rightarrow> frame" where
  "packet_frame ifindex macs packet rest = \<lparr>fr_len = int (14 + length packet), fr_hatype = 1, fr_outgoing = False,
     fr_ifindex = ifindex, fr_protocol = 0x86dd, fr_buffer = macs @ [0x86, 0xdd] @ packet @ rest\<rparr>"

definition count_frame :: "nat \<Rightarrow> nat \<Rightarrow> conf \<Rightarrow> conf" where
  "count_frame k len c = upd_int k (\<lambda>n. n\<lparr>in_stat_packets_received := in_stat_packets_received n + 1,
       in_stat_bytes_received := in_stat_bytes_received n + of_nat len\<rparr>)
     (c\<lparr>c_stat_packets_received := c_stat_packets_received c + 1, c_stat_bytes_received := c_stat_bytes_received c + of_nat len\<rparr>)"

lemma count_frame_same:
  "wf_conf (count_frame k len c) \<longleftrightarrow> wf_conf c" "c_routes (count_frame k len c) = c_routes c" "c_groups (count_frame k len c) = c_groups c"
  "in_ifindex (int_at (count_frame k len c) j) = in_ifindex (int_at c j)" "c_clock (count_frame k len c) = c_clock c"
  "in_linklocal (int_at (count_frame k len c) j) = in_linklocal (int_at c j)" "in_global (int_at (count_frame k len c) j) = in_global (int_at c j)"
  "c_trace (count_frame k len c) = c_trace c" "int_find m (count_frame k len c) = int_find m c"
  "c_downstream_id (count_frame k len c) = c_downstream_id c"
proof -
  have i: "in_mtu (int_at (count_frame k len c) j) = in_mtu (int_at c j)" "in_ifindex (int_at (count_frame k len c) j) = in_ifindex (int_at c j)"
    "length (c_ints (count_frame k len c)) = length (c_ints c)" for j
    by (simp_all add: count_frame_def nth_upd_int)
  show "wf_conf (count_frame k len c) \<longleftrightarrow> wf_conf c" by (simp add: wf_conf_def wf_ints_def i) (simp add: count_frame_def)
  show "int_find m (count_frame k len c) = int_find m c" by (simp add: int_find_def i)
qed (simp_all add: count_frame_def nth_upd_int)

lemma handleinterfaces_frame:
  assumes "ifx = c_upstream_id c \<or> ifx = c_downstream_id c" and "int_find ifx c = Some k" and "length macs = 12"
  shows "handleinterfaces os (packet_frame ifx macs packet rest) c
    = bindR (l2_ethtype os k (packet @ rest) (14 + length packet) 0x86dd (count_frame k (14 + length packet) c)) (\<lambda>c. Inr (True, c))"
proof -
  have f: "int_find ifx (c\<lparr>c_stat_packets_received := x, c_stat_bytes_received := y\<rparr>) = Some k" for x y
    using assms(2) by (simp add: int_find_def)
  have l: "drop 14 (macs @ [0x86, 0xdd] @ packet @ rest) = packet @ rest" using assms(3) by simp
  show ?thesis
    using assms(1) unfolding handleinterfaces_def packet_frame_def receiving_interface_def Let_def frame.simps l
    by (simp add: f count_frame_def ARPHRD_LOOPBACK_def nat_add_distrib)
qed

section \<open>The first report for a group\<close>

text \<open>Which sources a record lets through when it is the first for its group; in a BLOCK record none.\<close>

definition admits :: "grec \<Rightarrow> in6_addr \<Rightarrow> bool" where
  "admits = (\<lambda>(type, mca, srcs) src. if type = 2 \<or> type = 4 then src \<notin> set srcs else type \<noteq> 6 \<and> src \<in> set srcs)"

lemma upd_grpint_again:
  assumes "valid_grpint c g j"
  shows "upd_grpint g j f (upd_grpint g j h c) = upd_grpint g j (\<lambda>gi. f (h gi)) c"
  using assms by (simp add: upd_grpint_def upd_group_def)

lemma src_ops_Nil [simp]: "src_difference [] b = []" "src_intersect [] b = []"
  by (simp_all add: src_difference_filter src_intersect_filter)

lemma mquery_Nil [simp]: "mld_send_mquery os i mca [] s c = Inr c"
  by (simp add: mld_send_mquery_def)

lemma set_source_timers_Nil [simp]: "set_source_timers [] w t = []" "set_source_timers l (Some []) t = l"
  by (simp_all add: set_source_timers_def option.map_ident [unfolded id_def] map_idI)

lemma upd_grpint_cong: "f (grpint_at c g j) = h (grpint_at c g j) \<Longrightarrow> upd_grpint g j f c = upd_grpint g j h c"
  by (simp add: upd_grpint_def upd_group_def)

lemma downstream_include_fresh:
  assumes "valid_grpint c g j" and "gi_includes (grpint_at c g j) = []"
  shows "downstream_include os i mrec g j c = Inr (upd_grpint g j (\<lambda>_. include_next mrec (c_clock c) (grpint_at c g j)) c)"
proof -
  have id: "upd_grpint g j (\<lambda>_. grpint_at c g j) c = c" by (simp add: upd_grpint_def upd_group_def)
  let ?m = "mr_filter_mode mrec"
  consider "?m = 1 \<or> ?m = 5 \<or> ?m = 3" | "?m = 2 \<or> ?m = 4" | "?m = 6" | "?m \<notin> {1..6}" by fastforce
  then show ?thesis
    using assms(2) by cases (auto simp: downstream_include_def include_next_def Let_def upd_grpint_again [OF assms(1)] id intro!: upd_grpint_cong)
qed

text \<open>The group and the node that the first report makes.\<close>

definition first_node :: "os \<Rightarrow> nat \<Rightarrow> mrec \<Rightarrow> conf \<Rightarrow> grpintnode" where
  "first_node os i mrec c = include_next mrec (c_clock c) (grpint_create os c (int_at c i))"

lemma handle_downstream_fresh:
  assumes "group_find (mr_mca mrec) c = None"
  shows "handle_downstream_subscription os i mrec c = Inr (c\<lparr>c_groups := c_groups c @
    [\<lparr>g_mca = mr_mca mrec, g_interfaces = [first_node os i mrec c], g_lastforward = c_clock c, g_bytes = 0, g_packets = 0\<rparr>]\<rparr>)"
proof -
  let ?gi = "grpint_create os c (int_at c i)"
  let ?c = "c\<lparr>c_groups := c_groups c @ [\<lparr>g_mca = mr_mca mrec, g_interfaces = [?gi], g_lastforward = c_clock c, g_bytes = 0, g_packets = 0\<rparr>]\<rparr>"
  have v: "valid_grpint ?c (length (c_groups c)) 0" and i: "grpint_at ?c (length (c_groups c)) 0 = ?gi" by simp_all
  have "gi_includes ?gi = []" "gi_filter_mode ?gi = 1" by (simp_all add: grpint_create_def)
  then show ?thesis
    using downstream_include_fresh [OF v, of os i mrec] i
    by (simp add: handle_downstream_subscription_def groupint_get_new [OF assms] first_node_def upd_grpint_def upd_group_def)
qed

lemma timer_of_range: "0 \<le> t \<Longrightarrow> t < 2 ^ 32 \<Longrightarrow> uint (timer_of t) = t"
  by (simp add: timer_of_def uint_word_of_int_eq take_bit_int_eq_self)

lemma set_source_timers_all:
  assumes "s \<in> set (elems (set_source_timers l (Some w) t))" and "addrs l \<subseteq> addrs w"
  shows "ms_timer s = uint t"
proof -
  obtain s' where "s' \<in> set (elems l)" "s = (if list_hasmember (Some msrc_cmp) w s' = None then s' else s'\<lparr>ms_timer := uint t\<rparr>)"
    using assms(1) unfolding set_source_timers_def elems_map_option by auto
  moreover have "ms_addr s' \<in> addrs w" using calculation(1) assms(2) by (meson addrs_iff subsetD)
  ultimately show ?thesis by (simp add: list_hasmember_addrs)
qed

lemma mrec_of_mode: "valid_grec (type, mca, srcs) \<Longrightarrow> mr_filter_mode (mrec_of (type, mca, srcs)) = int (unat type) \<and> unat type \<in> {1..6}"
  by (simp add: mrec_of_facts valid_grec_def)

text \<open>The node admits its sources, with all timers at the end of the membership interval.\<close>

definition admitting_until :: "time_t \<Rightarrow> in6_addr \<Rightarrow> grpintnode \<Rightarrow> bool" where
  "admitting_until t src gi \<longleftrightarrow>
     gi_filter_mode gi = MLD2_MODE_IS_EXCLUDE \<and> uint (gi_filter_timer gi) = t \<and> src \<notin> addrs (gi_excludes gi) \<and> gi_includes gi = []
     \<or> gi_filter_mode gi = MLD2_MODE_IS_INCLUDE \<and> src \<in> addrs (gi_includes gi) \<and> None \<notin> set (gi_includes gi)
       \<and> (\<forall>s \<in> set (elems (gi_includes gi)). ms_timer s = t)"

lemma union_no_NULL: "None \<notin> set (src_union [] b)"
proof -
  have "None \<notin> set (list_union_add cmp copy bs r)" if "None \<notin> set r" for cmp copy bs and r :: srclist
    using that by (induction cmp copy bs r rule: list_union_add.induct) auto
  then show ?thesis by (simp add: src_union_alt)
qed

lemma first_node_admits:
  assumes "valid_grec (type, mca, srcs)" and "admits (type, mca, srcs) src" and "0 \<le> c_clock c" and "c_clock c + MALI < 2 ^ 32"
  shows "admitting_until (c_clock c + MALI) src (first_node os i (mrec_of (type, mca, srcs)) c)
    \<and> gi_ifindex (first_node os i (mrec_of (type, mca, srcs)) c) = in_ifindex (int_at c i)"
proof -
  let ?r = "mrec_of (type, mca, srcs)" and ?B = "mr_source_list (mrec_of (type, mca, srcs))"
  have B: "addrs ?B = set srcs" by (rule mrec_of_facts)
  have m: "mr_filter_mode ?r = int (unat type)" and u: "unat type \<in> {1..6}" using mrec_of_mode [OF assms(1)] by simp_all
  have ty: "type = n \<longleftrightarrow> unat type = unat n" for n :: u8 by (simp add: word_unat_eq_iff)
  have tm: "uint (timer_of (c_clock c + MALI)) = c_clock c + MALI" using assms(3,4) by (intro timer_of_range) (simp_all add: MALI_value)
  let ?l = "set_source_timers (src_union [] ?B) (Some ?B) (timer_of (c_clock c + MALI))"
  have l: "ms_timer s = c_clock c + MALI" if "s \<in> set (elems ?l)" for s
    using set_source_timers_all [OF that] tm by (simp add: ss.keys_un addrs_def [of "[]"])
  have al: "addrs ?l = set srcs" by (simp add: ss.keys_un B addrs_def [of "[]"])
  have nn: "None \<notin> set ?l" using union_no_NULL by (auto simp: set_source_timers_def)
  have ax: "addrs (src_difference (src_difference ?B []) []) = set srcs" by (simp add: ss.keys_diff B addrs_def [of "[]"])
  show ?thesis
  proof (cases "unat type = 2 \<or> unat type = 4")
    case True
    then have "src \<notin> set srcs" using assms(2) by (simp add: admits_def ty)
    moreover have "mr_filter_mode ?r = 2 \<or> mr_filter_mode ?r = 4" using True unfolding m by presburger
    ultimately show ?thesis
      using tm ax by (auto simp: admitting_until_def first_node_def include_next_def grpint_create_def Let_def)
  next
    case False
    then have "src \<in> set srcs" "unat type \<noteq> 6" using assms(2) by (simp_all add: admits_def ty)
    moreover have "unat type = 1 \<or> unat type = 5 \<or> unat type = 3" using u False calculation(2) by simp presburger
    then have "mr_filter_mode ?r = 1 \<or> mr_filter_mode ?r = 5 \<or> mr_filter_mode ?r = 3" unfolding m by presburger
    then have "gi_filter_mode (first_node os i ?r c) = 1" "gi_includes (first_node os i ?r c) = ?l"
      "gi_ifindex (first_node os i ?r c) = in_ifindex (int_at c i)"
      by (auto simp: first_node_def include_next_def grpint_create_def Let_def)
    ultimately show ?thesis using al nn l by (simp add: admitting_until_def)
  qed
qed

lemma admitting_serves: "admitting_until e src gi \<Longrightarrow> t < e \<Longrightarrow> own \<noteq> gi_ifindex gi \<Longrightarrow> served own t src gi"
  by (auto simp: admitting_until_def served_def grpint_accepts_def)

lemma admitting_expires:
  assumes "admitting_until e src gi" and "e \<le> t"
  shows "expire_node t gi = None"
proof (cases "gi_filter_mode gi = MLD2_MODE_IS_INCLUDE")
  case True
  then have i: "src \<in> addrs (gi_includes gi)" "None \<notin> set (gi_includes gi)" "\<forall>s \<in> set (elems (gi_includes gi)). ms_timer s = e"
    using assms(1) by (auto simp: admitting_until_def)
  have "\<not> src_alive t x" if "x \<in> set (gi_includes gi)" for x
  proof (cases x)
    case (Some s)
    then have "ms_timer s = e" using that i(3) by (simp add: set_elems)
    then show ?thesis using Some assms(2) by (simp add: src_alive_def)
  qed (use that i(2) in simp)
  then show ?thesis using True i(1) by (auto simp: expire_node_def filter_empty_conv addrs_def)
qed (use assms in \<open>auto simp: admitting_until_def expire_node_def\<close>)

text \<open>What the report path leaves alone beyond \<open>calm\<close>: the interface ids, the flags of the loop and the addresses of every interface.\<close>

definition same_addresses :: "conf \<Rightarrow> conf \<Rightarrow> bool" where
  "same_addresses c c' \<longleftrightarrow> c_upstream_id c' = c_upstream_id c \<and> c_downstream_id c' = c_downstream_id c
     \<and> c_quit c' = c_quit c \<and> c_needs_timeout c' = c_needs_timeout c
     \<and> (\<forall>k. in_linklocal (int_at c' k) = in_linklocal (int_at c k) \<and> in_global (int_at c' k) = in_global (int_at c k))"

lemma same_addresses_trans [trans]: "same_addresses a b \<Longrightarrow> same_addresses b c \<Longrightarrow> same_addresses a c"
  by (simp add: same_addresses_def)

lemma upd_simps_ids:
  "c_upstream_id (upd_int i f c) = c_upstream_id c" "c_quit (upd_int i f c) = c_quit c" "c_needs_timeout (upd_int i f c) = c_needs_timeout c"
  by (simp_all add: upd_int_def)

lemma same_addresses_simps [simp]:
  "same_addresses c c" "same_addresses c (c\<lparr>c_trace := t\<rparr>)" "same_addresses c (emit e c)" "same_addresses c (c\<lparr>c_groups := gs\<rparr>)"
  "same_addresses c (upd_int i (\<lambda>n. n\<lparr>in_upstream_socket := s\<rparr>) c)" "same_addresses c (count_received i c)" "same_addresses c (count_frame i n c)"
  "same_addresses c (int_set_mld_version i v c)"
  by (auto simp: same_addresses_def emit_def nth_upd_int upd_simps_ids count_received_def count_frame_def int_set_mld_version_def Let_def)

lemma upstream_join_addresses: "same_addresses c (snd (upstream_join os i sub (s, c)))"
proof -
  have j: "same_addresses d (snd (mcast_set_filter os s' u mca m l (snd (mcast_join_group os s' u mca d))))" for d s' u mca m l
    unfolding join_filter_trace by simp
  have u: "c_upstream_id (snd (mcast_join_group os s' u mca d)) = c_upstream_id d" for s' u mca d
    by (simp add: mcast_join_group_def Let_def emit_def)
  show ?thesis by (auto simp: upstream_join_def Let_def split_def u intro: j same_addresses_trans [OF _ j])
qed

lemma upstream_loop_addresses: "same_addresses c (snd (foldl (\<lambda>st sub. upstream_join os i sub st) (s, c) subs))"
proof (induction subs arbitrary: s c)
  case (Cons sub subs)
  obtain s1 c1 where st: "upstream_join os i sub (s, c) = (s1, c1)" by fastforce
  then have "same_addresses c c1" using upstream_join_addresses [of c os i sub s] by simp
  then show ?case using same_addresses_trans Cons [of c1 s1] st by simp
qed simp

lemma expire_routes_addresses: "expire_routes fd c = Inr c' \<Longrightarrow> same_addresses c c'"
  by (auto simp: expire_routes_def same_addresses_def split: option.splits prod.splits)

lemma handle_upstream_addresses:
  assumes "handle_upstream_subscription os (Some i) c = Inr c'"
  shows "same_addresses c c'"
proof -
  let ?c = "upd_int i (\<lambda>n. n\<lparr>in_upstream_socket := 0\<rparr>) c"
  define c1 where "c1 = snd (foldl (\<lambda>st sub. upstream_join os i sub st) (0, ?c) (subscriptions ?c))"
  define c2 where "c2 = (if in_upstream_socket (int_at c i) \<noteq> 0 then emit (Close (in_upstream_socket (int_at c i))) c1 else c1)"
  have "handle_upstream_subscription os (Some i) c = expire_routes (c_mr6_fd c2) c2"
    by (simp add: handle_upstream_subscription_def Let_def split_def c2_def c1_def)
  then have e: "expire_routes (c_mr6_fd c2) c2 = Inr c'" using assms by simp
  have "same_addresses c ?c" by simp
  also have "same_addresses ?c c1" unfolding c1_def by (rule upstream_loop_addresses)
  also have "same_addresses c1 c2" by (simp add: c2_def)
  also have "same_addresses c2 c'" using e by (rule expire_routes_addresses)
  finally show ?thesis .
qed

lemma calm_interfaces:
  assumes "c_routes c \<noteq> None"
  shows "calm c (count_received i c)" "calm c (count_frame i n c)" "calm c (int_set_mld_version i v c)"
  using assms
  by (auto simp: calm_def count_received_def count_frame_def int_set_mld_version_def ints_kept_def int_find_def nth_upd_int Let_def)

lemma group_find_groups: "c_groups d = c_groups c \<Longrightarrow> group_find mca d = group_find mca c"
  by (simp add: group_find_def)

lemma fresh_join:
  assumes "valid_report c i hlim src dst es [(type, mca, srcs)]" and "length (report_packet hlim src dst es [(type, mca, srcs)]) \<le> n"
    and "n < 65536" and "wf_conf c" and "c_routes c \<noteq> None" and "group_find mca c = None"
  obtains c' d where "l2_ethtype os i (report_packet hlim src dst es [(type, mca, srcs)] @ post) n 0x86dd c = Inr c'"
    "wf_conf c'" "calm c c'" "same_addresses c c'" "c_clock d = c_clock c" "in_ifindex (int_at d i) = in_ifindex (int_at c i)"
    "c_groups c' = c_groups c @ [\<lparr>g_mca = mca, g_interfaces = [first_node os i (mrec_of (type, mca, srcs)) d],
       g_lastforward = c_clock c, g_bytes = 0, g_packets = 0\<rparr>]"
proof -
  let ?r = "(type, mca, srcs)"
  define d where "d = int_set_mld_version i 2 (count_received i c)"
  have cd: "calm c d"
    unfolding d_def using assms(5) by (intro calm_trans [OF calm_interfaces(1) calm_interfaces(3)]) (simp_all add: count_received_def)
  have gd: "c_groups d = c_groups c" by (simp add: d_def count_received_def)
  let ?c1 = "d\<lparr>c_groups := c_groups d @ [\<lparr>g_mca = mca, g_interfaces = [first_node os i (mrec_of ?r) d],
       g_lastforward = c_clock d, g_bytes = 0, g_packets = 0\<rparr>]\<rparr>"
  have h: "handle_downstream_subscription os i (mrec_of ?r) d = Inr ?c1"
    using handle_downstream_fresh [of "mrec_of ?r" d os i] assms(6) group_find_groups [OF gd] by (simp add: mrec_of_facts)
  have rd: "c_routes d \<noteq> None" using cd by (simp add: calm_def)
  then have c1: "calm c ?c1" using calm_trans [OF cd calm_groups] by simp
  then obtain c2 where c2: "handle_upstream_subscription os (Some i) ?c1 = Inr c2" "settled ?c1 c2"
    using handle_upstream_ok [of ?c1 os i] rd by auto
  then obtain c3 where c3: "expire_routes (c_mr6_fd c2) c2 = Inr c3" using expire_routes_some by (auto simp: settled_def calm_def)
  note e = expire_routes_frame [OF c3]
  have v: "\<forall>r \<in> set [?r]. valid_grec r" "length (enc_report [?r]) < 65536"
    using assms(1) by (simp_all add: valid_report_def length_report_packet)
  have step: "l2_ethtype os i (report_packet hlim src dst es [?r] @ post) n 0x86dd c = Inr c3"
    unfolding l3_report [OF assms(1-3)] using h c2(1) c3 by (subst mld2_report_enc [OF v]) (simp_all add: d_def)
  have "calm c2 c3" using e by (auto simp: calm_def ints_kept_def int_find_def)
  then have "calm c c3" using calm_trans [OF c1] calm_trans c2(2) by (auto simp: settled_def)
  moreover have "same_addresses c c3"
  proof -
    have "same_addresses c (count_received i c)" by simp
    also have "same_addresses (count_received i c) d" by (simp add: d_def)
    also have "same_addresses d ?c1" by simp
    also have "same_addresses ?c1 c2" using c2(1) by (rule handle_upstream_addresses)
    also have "same_addresses c2 c3" using c3 by (rule expire_routes_addresses)
    finally show ?thesis .
  qed
  moreover have "wf_conf c3"
    using step report_packet_effect [OF assms(1-5), of os post] by auto
  moreover have "c_groups c3 = c_groups ?c1" using e(1) c2(2) by (simp add: settled_def)
  ultimately show thesis
    using that [OF step, of d] cd gd by (simp add: calm_def ints_kept_def)
qed

section \<open>Silence\<close>

lemma map_filter_single: "f x = None \<Longrightarrow> List.map_filter f [x] = []"
  by (simp add: List.map_filter_def)

lemma group_find_None_iff: "group_find mca c = None \<longleftrightarrow> mca \<notin> g_mca ` set (c_groups c)"
  by (auto simp: group_find_def groups_find_def index_of_None)

lemma expire_spec_mcas: "g_mca ` set (expire_spec t gs) \<subseteq> g_mca ` set gs"
  by (auto simp: expire_spec_def)

subsection \<open>Expiry leaves the addresses alone\<close>

lemma same_addresses_groups [simp]:
  "same_addresses b (upd_group g h c) \<longleftrightarrow> same_addresses b c" "same_addresses b (upd_grpint g j k c) \<longleftrightarrow> same_addresses b c"
  "same_addresses b (c\<lparr>c_groups := gs\<rparr>) \<longleftrightarrow> same_addresses b c"
  by (simp_all add: same_addresses_def upd_group_def upd_grpint_def)

lemma upstream_keeps_addresses: "handle_upstream_subscription os x c = Inr c' \<Longrightarrow> same_addresses b c \<Longrightarrow> same_addresses b c'"
  using handle_upstream_addresses same_addresses_trans by (cases x) (simp add: handle_upstream_subscription_def, blast)

lemma remove_keeps_addresses: "remove_grpintn g j c = (r, c') \<Longrightarrow> same_addresses b c \<Longrightarrow> same_addresses b c'"
  by (auto simp: remove_grpintn_def Let_def split: if_splits)

lemma source_keeps_addresses: "expire_source os g j k src now c = Inr (r, c') \<Longrightarrow> same_addresses b c \<Longrightarrow> same_addresses b c'"
  by (auto simp: expire_source_def Let_def bindR_Inr_iff split: if_splits prod.splits dest!: upstream_keeps_addresses remove_keeps_addresses)

lemma switch_keeps_addresses: "mld2_switch_to_include os g j c = Inr (r, c') \<Longrightarrow> same_addresses b c \<Longrightarrow> same_addresses b c'"
  by (auto simp: mld2_switch_to_include_def Let_def bindR_Inr_iff split: if_splits dest!: upstream_keeps_addresses remove_keeps_addresses)

lemma includes_keep_addresses: "expire_includes n os g j k now c = Inr (r, c') \<Longrightarrow> same_addresses b c \<Longrightarrow> same_addresses b c'"
proof (induction n arbitrary: k c)
  case (Suc n)
  then show ?case by (fastforce simp: bindR_Inr_iff split: option.splits if_splits dest: source_keeps_addresses)
qed simp

lemma interfaces_keep_addresses: "expire_interfaces n os g j now c = Inr (gone, c') \<Longrightarrow> same_addresses b c \<Longrightarrow> same_addresses b c'"
proof (induction n arbitrary: j c)
  case (Suc n)
  from Suc.prems(1) show ?case
    by (auto simp: Let_def bindR_Inr_iff Suc.prems(2) split: if_splits
        intro: Suc.IH dest: includes_keep_addresses [OF _ Suc.prems(2)] switch_keeps_addresses [OF _ Suc.prems(2)])
qed simp

lemma groups_keep_addresses: "expire_groups n os g now c = Inr c' \<Longrightarrow> same_addresses b c \<Longrightarrow> same_addresses b c'"
proof (induction n arbitrary: g c)
  case (Suc n)
  then show ?case by (fastforce simp: bindR_Inr_iff dest: interfaces_keep_addresses)
qed simp

lemma expire_sources_addresses: "expire_sources os c = Inr c' \<Longrightarrow> same_addresses c c'"
  unfolding expire_sources_def by (erule groups_keep_addresses) (rule same_addresses_simps)

subsection \<open>A group that is gone\<close>

text \<open>Once the timers of a group's only node have run out, the group is gone.\<close>

lemma expire_forgets:
  assumes "wf_conf c" and "c_routes c \<noteq> None" and "subscribed_ints_exist c (c_groups c)" and "c_groups c = gs @ [gr]"
    and "mca \<notin> g_mca ` set gs" and "g_interfaces gr = [gi]" and "expire_node (c_clock c) gi = None"
  shows "\<exists>c'. expire_sources os c = Inr c' \<and> calm c c' \<and> same_addresses c c' \<and> group_find mca c' = None"
proof -
  obtain c' where c': "expire_sources os c = Inr c'" "calm c c'" "c_groups c' = expire_spec (c_clock c) (c_groups c)"
    using expire_sources_spec [OF assms(1-3)] by blast
  have "c_groups c' = expire_spec (c_clock c) gs" unfolding c'(3) assms(4) using map_filter_single [of "expire_node (c_clock c)", OF assms(7)]
    by (simp add: expire_spec_def assms(6))
  then have "group_find mca c' = None" using expire_spec_mcas [of "c_clock c" gs] assms(5) by (auto simp: group_find_None_iff)
  then show ?thesis using c'(1,2) expire_sources_addresses by blast
qed

section \<open>A data packet\<close>

definition data_packet :: "u16 \<Rightarrow> u8 \<Rightarrow> u8 \<Rightarrow> in6_addr \<Rightarrow> in6_addr \<Rightarrow> bytes \<Rightarrow> bytes" where
  "data_packet plen nxt hlim src dst payload = ip6_header plen nxt hlim src dst @ payload"

text \<open>What a data packet needs to be forwarded at all: a routable source that is not the interface's own, hops left, no header the daemon looks into.\<close>

definition valid_data :: "conf \<Rightarrow> nat \<Rightarrow> u8 \<Rightarrow> u8 \<Rightarrow> in6_addr \<Rightarrow> in6_addr \<Rightarrow> bytes \<Rightarrow> bool" where
  "valid_data c k nxt hlim src dst payload \<longleftrightarrow> \<not> unroutable src dst \<and> IN6_IS_ADDR_MULTICAST dst
     \<and> src \<noteq> in_linklocal (int_at c k) \<and> src \<noteq> in_global (int_at c k)
     \<and> nxt \<notin> {0, 43, 60, 51, 58} \<and> 1 < hlim \<and> length payload < 65000"

lemma ip6_header_hlim: "(ip6_header plen nxt hlim src dst @ r)[7 := h] = ip6_header plen nxt h src dst @ r"
proof -
  obtain a b where ab: "be_bytes 2 plen = [a, b]" by (simp add: be_bytes_def upt_rec)
  show ?thesis by (simp add: ip6_header_def ab)
qed

lemma l3_data:
  assumes "valid_data c k nxt hlim src dst payload"
  shows "l2_ethtype os k (data_packet plen nxt hlim src dst payload @ rest) n 0x86dd c
    = l4_ipv6_multicast os k (data_packet plen nxt (hlim - 1) src dst payload @ rest) (of_nat n) c"
proof -
  let ?mem = "ip6_header plen nxt hlim src dst @ payload @ rest"
  have h: "read_bytes ?mem 0 40 = Inr (ip6_header plen nxt hlim src dst)" by simp
  have v: "IN6_IS_ADDR_MULTICAST dst" "src \<noteq> in_linklocal (int_at c k)" "src \<noteq> in_global (int_at c k)" "nxt \<notin> {0, 43, 60, 51, 58}" "1 < hlim"
    using assms by (simp_all add: valid_data_def)
  have sk: "skip_headers ?mem l nxt 40 p = Inr (Some (nxt, 40, p))" for l p using v(4) by (simp add: skip_headers.simps)
  have "0 < hlim" "hlim - 1 \<noteq> 0" using v(5) by (auto simp: word_greater_zero_iff)
  then show ?thesis
    unfolding data_packet_def append_assoc l2_ethtype_def l3_ipv6_def h bindR_simps Let_def ip6_header_fields sk
    using v by (simp add: ip6_header_hlim)
qed

text \<open>
  Through the frame the length of the Ethernet header is still counted, so that many bytes of the buffer behind the packet
  go out with it.
\<close>

lemma data_frame_forwarded:
  assumes "wf_conf c" and "ifx = c_upstream_id c \<or> ifx = c_downstream_id c" and "int_find ifx c = Some k" and "length macs = 12"
    and "valid_data c k nxt hlim src mca payload" and "14 \<le> length rest" and "group_find mca c = Some g"
    and "g_interfaces (c_groups c ! g) = [gi]" and "served (in_ifindex (int_at c k)) (c_clock c) src gi" and "int_find (gi_ifindex gi) c \<noteq> None"
  shows "\<exists>c'. handleinterfaces os (packet_frame ifx macs (data_packet plen nxt hlim src mca payload) rest) c = Inr (True, c')
    \<and> c_trace c' = c_trace c @ [Sendto (gi_ifindex gi) (eth_multicast (be_bytes 16 mca))
        (data_packet plen nxt (hlim - 1) src mca payload @ take 14 rest)]"
proof -
  let ?p = "data_packet plen nxt (hlim - 1) src mca payload"
  let ?n = "14 + length (data_packet plen nxt hlim src mca payload)"
  let ?c = "count_frame k ?n c"
  have l: "length ?p = 40 + length payload" "?n = 54 + length payload" by (simp_all add: data_packet_def)
  have pl: "length payload < 65000" using assms(5) by (simp add: valid_data_def)
  have n: "unat (of_nat ?n :: u16) = ?n" using l pl by (simp only: unat_of_nat) (simp add: take_bit_nat_eq_self)
  have v: "valid_data ?c k nxt hlim src mca payload" using assms(5) by (simp add: valid_data_def count_frame_same)
  have f: "pkt_src (?p @ rest) = src" "pkt_dst (?p @ rest) = mca" "take 16 (drop 24 (?p @ rest)) = be_bytes 16 mca"
    unfolding data_packet_def append_assoc ip6_header_src ip6_header_dst by simp_all
  have t: "take ?n (?p @ rest) = ?p @ take 14 rest" using l by simp
  have "\<exists>c'. l4_ipv6_multicast os k (?p @ rest) (of_nat ?n) ?c = Inr c'
      \<and> c_trace c' = c_trace ?c @ [Sendto (gi_ifindex gi) (eth_multicast (take 16 (drop 24 (?p @ rest)))) (take (unat (of_nat ?n :: u16)) (?p @ rest))]"
  proof (rule multicast_first)
    show "wf_conf ?c" using assms(1) by (simp add: count_frame_same)
    show "40 \<le> length (?p @ rest)" "unat (of_nat ?n :: u16) \<le> length (?p @ rest)" unfolding n using l assms(6) by simp_all
    show "\<not> unroutable (pkt_src (?p @ rest)) (pkt_dst (?p @ rest))" unfolding f using assms(5) by (simp add: valid_data_def)
    show "group_find (pkt_dst (?p @ rest)) ?c = Some g" unfolding f using assms(7) by (simp add: group_find_def count_frame_same)
    show "g_interfaces (c_groups ?c ! g) = [] @ gi # []" using assms(8) by (simp add: count_frame_same)
    show "served (in_ifindex (int_at ?c k)) (c_clock ?c) (pkt_src (?p @ rest)) gi" unfolding f using assms(9) by (simp add: count_frame_same)
    show "int_find (gi_ifindex gi) ?c \<noteq> None" using assms(10) by (simp add: count_frame_same)
  qed simp
  then obtain c' where c': "l4_ipv6_multicast os k (?p @ rest) (of_nat ?n) ?c = Inr c'"
    "c_trace c' = c_trace c @ [Sendto (gi_ifindex gi) (eth_multicast (be_bytes 16 mca)) (?p @ take 14 rest)]"
    unfolding n t f(3) by (auto simp: count_frame_same)
  then show ?thesis unfolding handleinterfaces_frame [OF assms(2-4)] l3_data [OF v] by simp
qed

lemma data_frame_unwanted:
  assumes "ifx = c_upstream_id c \<or> ifx = c_downstream_id c" and "int_find ifx c = Some k" and "length macs = 12"
    and "valid_data c k nxt hlim src mca payload" and "group_find mca c = None"
  shows "\<exists>c'. handleinterfaces os (packet_frame ifx macs (data_packet plen nxt hlim src mca payload) rest) c = Inr (True, c') \<and> c_trace c' = c_trace c"
proof -
  let ?n = "14 + length (data_packet plen nxt hlim src mca payload)"
  let ?c = "count_frame k ?n c"
  let ?mem = "data_packet plen nxt (hlim - 1) src mca payload @ rest"
  have v: "valid_data ?c k nxt hlim src mca payload" using assms(4) by (simp add: valid_data_def count_frame_same)
  have h: "read_bytes ?mem 0 40 = Inr (ip6_header plen nxt (hlim - 1) src mca)" by (simp add: data_packet_def)
  have "group_find mca ?c = None" using assms(5) by (simp add: group_find_def count_frame_same)
  then have "l4_ipv6_multicast os k ?mem (of_nat ?n) ?c = Inr ?c"
    unfolding l4_ipv6_multicast_def h bindR_simps Let_def ip6_header_fields by simp
  then show ?thesis unfolding handleinterfaces_frame [OF assms(1-3)] l3_data [OF v] by (simp add: count_frame_same)
qed

section \<open>A join in a frame\<close>

lemma valid_report_count_frame: "valid_report (count_frame k n c) i hlim src dst es rs \<longleftrightarrow> valid_report c i hlim src dst es rs"
  by (simp add: valid_report_def count_frame_same)

lemma int_find_ifindex: "wf_conf c \<Longrightarrow> int_find k c = Some i \<Longrightarrow> in_ifindex (int_at c i) = k"
  using int_find_Some [of k c i] by (simp add: wf_conf_def wf_ints_def)

lemma frame_join:
  assumes "wf_conf c" and "c_routes c \<noteq> None" and "ifx = c_upstream_id c \<or> ifx = c_downstream_id c" and "int_find ifx c = Some i"
    and "length macs = 12" and "valid_report c i hlim host dst es [(type, mca, srcs)]" and "group_find mca c = None"
    and "0 \<le> c_clock c" and "c_clock c + MALI < 2 ^ 32"
  obtains c' gi gr where "handleinterfaces os (packet_frame ifx macs (report_packet hlim host dst es [(type, mca, srcs)]) rest) c = Inr (True, c')"
    "wf_conf c'" "calm c c'" "same_addresses c c'" "c_groups c' = c_groups c @ [gr]" "g_mca gr = mca" "g_interfaces gr = [gi]" "gi_ifindex gi = ifx"
    "\<And>src. admits (type, mca, srcs) src \<Longrightarrow> admitting_until (c_clock c + MALI) src gi"
proof -
  let ?r = "(type, mca, srcs)"
  let ?n = "14 + length (report_packet hlim host dst es [?r])"
  let ?c = "count_frame i ?n c"
  have x: "in_ifindex (int_at c i) = ifx" using assms(1,4) by (rule int_find_ifindex)
  have g: "group_find mca ?c = None" using assms(7) by (simp add: group_find_def count_frame_same)
  have n: "?n < 65536" using assms(6) by (simp add: valid_report_def)
  have vr: "valid_report ?c i hlim host dst es [?r]" using assms(6) by (simp add: valid_report_count_frame)
  obtain c' d where c': "l2_ethtype os i (report_packet hlim host dst es [?r] @ rest) ?n 0x86dd ?c = Inr c'"
    "wf_conf c'" "calm ?c c'" "same_addresses ?c c'" "c_clock d = c_clock ?c" "in_ifindex (int_at d i) = in_ifindex (int_at ?c i)"
    "c_groups c' = c_groups ?c @ [\<lparr>g_mca = mca, g_interfaces = [first_node os i (mrec_of ?r) d], g_lastforward = c_clock ?c, g_bytes = 0, g_packets = 0\<rparr>]"
    by (rule fresh_join [OF vr _ n _ _ g]) (use assms(1,2) in \<open>simp_all add: count_frame_same\<close>)
  let ?gi = "first_node os i (mrec_of ?r) d"
  have gr: "valid_grec ?r" using assms(6) by (simp add: valid_report_def)
  show thesis
  proof (rule that [OF _ c'(2) _ _ c'(7) [unfolded count_frame_same]])
    show "handleinterfaces os (packet_frame ifx macs (report_packet hlim host dst es [?r]) rest) c = Inr (True, c')"
      unfolding handleinterfaces_frame [OF assms(3-5)] using c'(1) by simp
    show "calm c c'" using calm_trans [OF calm_interfaces(2) [OF assms(2)] c'(3)] .
    show "same_addresses c c'" using same_addresses_trans [OF same_addresses_simps(7) c'(4)] .
    show "gi_ifindex ?gi = ifx"
      using c'(6) x include_next_wf(2) [OF grpint_create_wf(1) mrec_of_facts(4)] by (simp add: first_node_def count_frame_same)
    show "admitting_until (c_clock c + MALI) src ?gi" if "admits ?r src" for src
      using first_node_admits [OF gr that, of d os i] c'(5) assms(8,9) by (simp add: count_frame_same)
  qed simp_all
qed

lemma accepts_wants: "grpint_accepts t src gi \<Longrightarrow> 0 \<le> t \<Longrightarrow> grpint_wants (of_int t) src gi"
proof -
  assume a: "grpint_accepts t src gi" "0 \<le> t"
  have b: "uint (gi_filter_timer gi) < 2 ^ 32" using uint_lt2p [of "gi_filter_timer gi"] by simp
  have "(of_int t :: u32) < gi_filter_timer gi" if "t < uint (gi_filter_timer gi)"
    using that a(2) b by (simp add: word_less_def uint_word_of_int_eq take_bit_int_eq_self)
  then show ?thesis using a(1) by (auto simp: grpint_accepts_def grpint_wants_def)
qed

text \<open>An upcall for a source that a node of the downstream interface admits: exactly its route is asked for, and recorded when the kernel agrees.\<close>

lemma upcall_routed:
  assumes "wf_conf c" and "c_routes c = Some rs" and "gr \<in> set (c_groups c)" and "g_mca gr = mca" and "gi \<in> set (g_interfaces gr)"
    and "gi_ifindex gi = c_downstream_id c" and "admitting_until e src gi" and "0 \<le> c_clock c" and "c_clock c < e" and "routable mca"
    and "40 \<le> length buf" and "buf ! 0 = 0 \<and> buf ! 2 = 0 \<and> buf ! 3 = 0" and "upcall_src buf = src" and "upcall_dst buf = mca"
  shows "\<exists>c' rs'. mrouter6_handlesocket os fd buf c = Inr c' \<and> c_trace c' = c_trace c @ [Mfc_add fd src mca] \<and> c_routes c' = Some rs'
    \<and> set rs' = (if os_setsockopt os (c_trace c) (Mfc_add fd src mca) = 0 then insert \<lparr>kr_src = src, kr_grp = mca, kr_parent = 0\<rparr> (set rs) else set rs)"
proof -
  have "grpint_accepts (c_clock c) src gi"
    using admitting_serves [OF assms(7,9), of "Suc (gi_ifindex gi)"] by (simp add: served_def)
  then have "grpint_wants (of_int (c_clock c)) src gi" using assms(8) by (rule accepts_wants)
  then have "route_wanted (c_downstream_id c) src mca c" using assms(3-6) by (auto simp: route_wanted_def)
  then have "upcall_accepted buf c" using assms(10,12-14) by (simp add: upcall_accepted_def)
  moreover have "have_route 0 src mca (emit (Mfc_add fd src mca) c) = Inr (\<lparr>kr_src = src, kr_grp = mca, kr_parent = 0\<rparr> \<in> set rs)"
    using assms(2) by (intro have_route_iff) simp
  ultimately show ?thesis
    unfolding handlesocket_unfold [OF assms(1,11)] using assms(2,13,14) by (auto simp: Let_def save_route_def emit_def)
qed

section \<open>The socket filter\<close>

abbreviation frame_bytes :: "frame \<Rightarrow> bytes" where
  "frame_bytes fr \<equiv> take (nat (fr_len fr)) (fr_buffer fr)"

lemma passes_iff: "passes frame \<longleftrightarrow> wanted_frame frame"
proof -
  have "bpf_run bpf frame 0 0 = Some (if wanted_frame frame then 0xffff else 0)" by (rule bpf_accepts)
  then show ?thesis by (simp add: passes_def)
qed

lemma frame_bytes_packet: "length macs = 12 \<Longrightarrow> frame_bytes (packet_frame ifx macs packet rest) = macs @ [0x86, 0xdd] @ packet"
  by (simp add: packet_frame_def nat_add_distrib)

lemma passes_packet:
  assumes "length macs = 12" and "bit (macs ! 0) 0" and "nxt \<noteq> 44"
  shows "passes (frame_bytes (packet_frame ifx macs (ip6_header plen nxt hlim src dst @ r) rest)) \<longleftrightarrow> nxt \<noteq> 17"
proof -
  let ?p = "ip6_header plen nxt hlim src dst @ r"
  have "?p ! 6 = nxt" using ip6_header_fields(2) [of plen nxt hlim src dst] by (simp add: nth_append)
  then have "(macs @ [0x86, 0xdd] @ ?p) ! 20 = nxt" using assms(1) by (simp add: nth_append)
  moreover have "(macs @ [0x86, 0xdd] @ ?p) ! 0 = macs ! 0" using assms(1) by (simp add: nth_append)
  ultimately show ?thesis
    using assms unfolding frame_bytes_packet [OF assms(1)] passes_iff wanted_frame_def by (simp del: bit_0 append_Cons)
qed

lemma chain_type_ext: "list_all valid_ext es \<Longrightarrow> chain_type es 58 \<in> {0, 43, 60, 51, 58}"
  by (cases es) (auto simp: chain_type_def valid_ext_def)

section \<open>Properties\<close>

text \<open>
  C1. A frame that carries a valid report, with any extension headers before it, goes through the whole receive path: the
  subscriptions of the receiving interface take the steps of the records, all others stay, and the state is well formed.
\<close>

theorem report_frame_updates_subscriptions:
  assumes "wf_conf c" and "c_routes c \<noteq> None" and "ifx = c_upstream_id c \<or> ifx = c_downstream_id c" and "int_find ifx c = Some i"
    and "length macs = 12" and "valid_report c i hlim src dst es rs"
  shows "\<exists>c'. handleinterfaces os (packet_frame ifx macs (report_packet hlim src dst es rs) rest) c = Inr (True, c') \<and> wf_conf c'
    \<and> (\<forall>mca k. subscription_of c' mca k = (if k = ifx then fold (record_step mca) rs (subscription_of c mca k) else subscription_of c mca k))"
proof -
  let ?n = "14 + length (report_packet hlim src dst es rs)"
  let ?c = "count_frame i ?n c"
  have x: "in_ifindex (int_at c i) = ifx" using assms(1,4) by (rule int_find_ifindex)
  have sub: "subscription_of ?c = subscription_of c" by (rule subscription_of_groups) (simp add: count_frame_same)
  have "?n < 65536" using assms(6) by (simp add: valid_report_def)
  then obtain c' where "l2_ethtype os i (report_packet hlim src dst es rs @ rest) ?n 0x86dd ?c = Inr c'" "wf_conf c'"
    "\<forall>mca k. subscription_of c' mca k = (if k = ifx then fold (record_step mca) rs (subscription_of c mca k) else subscription_of c mca k)"
    using report_packet_effect [of ?c i hlim src dst es rs ?n os rest] assms(1,2,6) x sub
    unfolding valid_report_count_frame by (auto simp: count_frame_same)
  then show ?thesis unfolding handleinterfaces_frame [OF assms(3-5)] by auto
qed

definition example_router :: conf where
  "example_router = example_conf\<lparr>c_ints := map (\<lambda>k. int_zero\<lparr>in_ifindex := k, in_mtu := 1500\<rparr>) [0, 1, 2], c_upstream_id := 1, c_downstream_id := 2,
     c_routes := Some []\<rparr>"

abbreviation (input) example_host :: in6_addr where "example_host \<equiv> 0xfe800000000000000000000000000007"
abbreviation (input) all_mldv2_routers :: in6_addr where "all_mldv2_routers \<equiv> 0xff020000000000000000000000000016"
abbreviation (input) example_alert :: "(u8 \<times> bytes) list" where "example_alert \<equiv> [(0, [5, 2, 0, 0, 1, 0])]"
abbreviation (input) example_mca :: in6_addr where "example_mca \<equiv> 0xff0e0000000000000000000000000001"

lemma example_router_facts:
  "wf_conf example_router" "c_routes example_router \<noteq> None" "int_find (c_downstream_id example_router) example_router = Some 2"
  "int_find 1 example_router = Some 1"
  "length (replicate 12 (0 :: u8)) = 12" "group_find mca example_router = None" "0 \<le> c_clock example_router" "c_clock example_router + MALI < 2 ^ 32"
  by (auto simp: wf_conf_def wf_groups_def wf_ints_def example_router_def example_conf_def int_zero_def int_find_def group_find_def groups_find_def
      MALI_value nth_Cons split: nat.splits)

lemma example_report_valid:
  assumes "list_all valid_grec rs" and "length (enc_report rs) < 1000"
  shows "valid_report example_router 2 1 example_host all_mldv2_routers example_alert rs"
  using assms by (simp add: valid_report_def length_report_packet valid_ext_def in6_class_defs example_router_def int_zero_def)

theorem report_frame_updates_subscriptions_witness:
  "\<exists>c'. handleinterfaces example_os (packet_frame (c_downstream_id example_router) (replicate 12 0)
      (report_packet 1 example_host all_mldv2_routers example_alert example_grecs) []) example_router = Inr (True, c')
    \<and> subscription_of c' 0xff0e0000000000000000000000000002 2 = Include {7, 8}"
proof -
  have v: "valid_report example_router 2 1 example_host all_mldv2_routers example_alert example_grecs"
    by (rule example_report_valid) (simp_all add: example_grecs_def valid_grec_def in6_class_defs length_enc_report length_enc_grec)
  have "subscription_of example_router 0xff0e0000000000000000000000000002 2 = Include {}"
    by (simp add: subscription_of_def example_router_facts)
  then have "fold (record_step 0xff0e0000000000000000000000000002) example_grecs (subscription_of example_router 0xff0e0000000000000000000000000002 2) = Include {7, 8}"
    by (auto simp: example_grecs_def record_step_def)
  moreover have "c_downstream_id example_router = 2" by (simp add: example_router_def)
  ultimately show ?thesis
    using report_frame_updates_subscriptions [OF example_router_facts(1,2) _ example_router_facts(3,5) v, of example_os "[]"] by auto
qed

lemma example_join_valid: "valid_report example_router 2 1 example_host all_mldv2_routers example_alert [(4, example_mca, [])]"
  by (rule example_report_valid) (simp_all add: valid_grec_def in6_class_defs length_enc_report length_enc_grec)

text \<open>
  The socket filter lets through every frame with a report, and no data frame that carries UDP: those never reach the
  daemon, whatever is subscribed. Other data frames to a link-layer group address pass.
\<close>

lemma filter_passes_reports_not_udp:
  assumes "length macs = 12" and "bit (macs ! 0) 0" and "list_all valid_ext es" and "nxt \<noteq> 44"
  shows "passes (frame_bytes (packet_frame ifx macs (report_packet hlim src dst es rs) rest))
    \<and> (passes (frame_bytes (packet_frame ifx macs (data_packet plen nxt hlim src dst payload) rest)) \<longleftrightarrow> nxt \<noteq> 17)"
proof -
  have "chain_type es 58 \<noteq> 44" "chain_type es 58 \<noteq> 17" using chain_type_ext [OF assms(3)] by auto
  then show ?thesis unfolding report_packet_def data_packet_def passes_packet [OF assms(1,2,4)] by (simp add: passes_packet [OF assms(1,2)])
qed

lemma filter_passes_reports_not_udp_witness:
  "\<not> passes (frame_bytes (packet_frame 1 (replicate 12 1) (data_packet 0 17 9 7 8 []) []))"
  using filter_passes_reports_not_udp [of "replicate 12 1" "[]" 17 1 9 7 8 "[]" "[]" 0 "[]"] by simp

text \<open>
  C2. Join, then forward: the first report for a group, received as a frame, makes the daemon forward the group's packets
  to the reporting interface for the membership interval of 260 seconds, whatever else the tables hold: a data frame from the other
  interface with a source that the record admits is sent there, once, with its hop limit one lower, followed by 14 bytes
  of the receive buffer.
\<close>

theorem join_then_forward:
  assumes "wf_conf c" and "c_routes c \<noteq> None" and "ifx = c_upstream_id c \<or> ifx = c_downstream_id c" and "int_find ifx c = Some i"
    and "length macs = 12" and "valid_report c i rhlim host dst es [(type, mca, srcs)]" and "group_find mca c = None"
    and "0 \<le> c_clock c" and "c_clock c + MALI < 2 ^ 32"
    and "t < c_clock c + MALI" and "ifx2 \<noteq> ifx" and "ifx2 = c_upstream_id c \<or> ifx2 = c_downstream_id c" and "int_find ifx2 c = Some k"
    and "valid_data c k nxt hlim src mca payload" and "14 \<le> length rest2" and "admits (type, mca, srcs) src"
  shows "\<exists>c' c''. handleinterfaces os (packet_frame ifx macs (report_packet rhlim host dst es [(type, mca, srcs)]) rest) c = Inr (True, c')
    \<and> handleinterfaces os (packet_frame ifx2 macs (data_packet plen nxt hlim src mca payload) rest2) (c'\<lparr>c_clock := t\<rparr>) = Inr (True, c'')
    \<and> c_trace c'' = c_trace c' @ [Sendto ifx (eth_multicast (be_bytes 16 mca)) (data_packet plen nxt (hlim - 1) src mca payload @ take 14 rest2)]"
proof -
  obtain c' gi gr where c': "handleinterfaces os (packet_frame ifx macs (report_packet rhlim host dst es [(type, mca, srcs)]) rest) c = Inr (True, c')"
    "wf_conf c'" "calm c c'" "same_addresses c c'" "c_groups c' = c_groups c @ [gr]" "g_mca gr = mca" "g_interfaces gr = [gi]" "gi_ifindex gi = ifx"
    and sv: "\<And>src. admits (type, mca, srcs) src \<Longrightarrow> admitting_until (c_clock c + MALI) src gi"
    by (rule frame_join [OF assms(1-9)]) blast
  let ?g = "length (c_groups c)" and ?d = "c'\<lparr>c_clock := t\<rparr>"
  have find: "int_find m ?d = int_find m c" for m using c'(3) by (simp add: calm_def int_find_def)
  have w: "wf_conf ?d" using c'(2) by (simp add: wf_conf_def)
  have k: "in_ifindex (int_at ?d k) = ifx2" using w find assms(13) by (intro int_find_ifindex) simp_all
  have gf: "group_find mca ?d = Some ?g" using group_find_unique [OF w, of ?g] c'(5,6) by simp
  have "served (in_ifindex (int_at ?d k)) (c_clock ?d) src gi" unfolding k using assms(10,11) c'(8) by (intro admitting_serves [OF sv [OF assms(16)]]) simp_all
  moreover have "valid_data ?d k nxt hlim src mca payload" "ifx2 = c_upstream_id ?d \<or> ifx2 = c_downstream_id ?d"
    using assms(12,14) c'(4) by (simp_all add: valid_data_def same_addresses_def)
  ultimately have "\<exists>c''. handleinterfaces os (packet_frame ifx2 macs (data_packet plen nxt hlim src mca payload) rest2) ?d = Inr (True, c'')
      \<and> c_trace c'' = c_trace ?d @ [Sendto (gi_ifindex gi) (eth_multicast (be_bytes 16 mca)) (data_packet plen nxt (hlim - 1) src mca payload @ take 14 rest2)]"
    using assms(4,5,13,15) c'(5,7,8) gf find by (intro data_frame_forwarded [OF w, where k = k and g = ?g]) simp_all
  then show ?thesis using c'(1,8) by auto
qed

lemma example_data_valid: "valid_data example_router 1 59 9 0x20010db8000000000000000000000007 example_mca [1, 2, 3]"
  by (simp add: valid_data_def unroutable_def in6_class_defs example_router_def int_zero_def)

theorem join_then_forward_witness:
  "\<exists>c' c''. handleinterfaces example_os (packet_frame (c_downstream_id example_router) (replicate 12 0)
      (report_packet 1 example_host all_mldv2_routers example_alert [(4, example_mca, [])]) []) example_router = Inr (True, c')
    \<and> handleinterfaces example_os (packet_frame 1 (replicate 12 0) (data_packet 3 59 9 0x20010db8000000000000000000000007 example_mca [1, 2, 3])
         (replicate 14 0)) (c'\<lparr>c_clock := 1200\<rparr>) = Inr (True, c'') \<and> c_trace c'' \<noteq> c_trace c'"
proof -
  have d: "c_downstream_id example_router = 2" "c_clock example_router = 1000" "c_upstream_id example_router = 1"
    by (simp_all add: example_router_def example_conf_def)
  show ?thesis
    using join_then_forward [OF example_router_facts(1,2) _ example_router_facts(3,5) example_join_valid example_router_facts(6-8) _ _ _
        example_router_facts(4) example_data_valid, of 1200 "replicate 14 0" example_os "[]" 3] d
    by (fastforce simp: admits_def MALI_value)
qed

text \<open>
  C3. Join, then route: after the first report for a group on the downstream interface, for the membership interval, an upcall of the kernel for a
  source that the record admits makes the daemon ask for exactly that route, and record it when the kernel agrees.
\<close>

theorem join_then_route:
  assumes "wf_conf c" and "c_routes c \<noteq> None" and "int_find (c_downstream_id c) c = Some i"
    and "length macs = 12" and "valid_report c i rhlim host dst es [(type, mca, srcs)]" and "group_find mca c = None"
    and "0 \<le> c_clock c" and "c_clock c + MALI < 2 ^ 32"
    and "0 \<le> t" and "t < c_clock c + MALI" and "admits (type, mca, srcs) src" and "routable mca"
    and "40 \<le> length buf" and "buf ! 0 = 0 \<and> buf ! 2 = 0 \<and> buf ! 3 = 0" and "upcall_src buf = src" and "upcall_dst buf = mca"
  shows "\<exists>c' rs c'' rs'. handleinterfaces os (packet_frame (c_downstream_id c) macs (report_packet rhlim host dst es [(type, mca, srcs)]) rest) c = Inr (True, c')
    \<and> c_routes c' = Some rs
    \<and> mrouter6_handlesocket os fd buf (c'\<lparr>c_clock := t\<rparr>) = Inr c'' \<and> c_trace c'' = c_trace c' @ [Mfc_add fd src mca]
    \<and> c_routes c'' = Some rs'
    \<and> set rs' = (if os_setsockopt os (c_trace c') (Mfc_add fd src mca) = 0 then insert \<lparr>kr_src = src, kr_grp = mca, kr_parent = 0\<rparr> (set rs) else set rs)"
proof -
  obtain c' gi gr where c': "handleinterfaces os (packet_frame (c_downstream_id c) macs (report_packet rhlim host dst es [(type, mca, srcs)]) rest) c = Inr (True, c')"
    "wf_conf c'" "calm c c'" "c_groups c' = c_groups c @ [gr]" "g_mca gr = mca" "g_interfaces gr = [gi]" "gi_ifindex gi = c_downstream_id c"
    and sv: "\<And>src. admits (type, mca, srcs) src \<Longrightarrow> admitting_until (c_clock c + MALI) src gi"
    by (rule frame_join [OF assms(1,2) _ assms(3-8)]) blast+
  let ?d = "c'\<lparr>c_clock := t\<rparr>"
  obtain rs where rs: "c_routes c' = Some rs" using c'(3) by (auto simp: calm_def)
  have w: "wf_conf ?d" using c'(2) by (simp add: wf_conf_def)
  have "\<exists>c'' rs'. mrouter6_handlesocket os fd buf ?d = Inr c'' \<and> c_trace c'' = c_trace ?d @ [Mfc_add fd src mca] \<and> c_routes c'' = Some rs'
    \<and> set rs' = (if os_setsockopt os (c_trace ?d) (Mfc_add fd src mca) = 0 then insert \<lparr>kr_src = src, kr_grp = mca, kr_parent = 0\<rparr> (set rs) else set rs)"
    using c'(3-7) rs assms(9,10)
    by (intro upcall_routed [OF w _ _ c'(5) _ _ sv [OF assms(11)] _ _ assms(12-16), of rs]) (simp_all add: calm_def)
  then show ?thesis using c'(1) rs by auto
qed

definition example_upcall :: bytes where
  "example_upcall = replicate 8 0 @ be_bytes 16 (0x20010db8000000000000000000000007 :: in6_addr) @ be_bytes 16 example_mca"

lemma example_upcall_facts:
  "40 \<le> length example_upcall" "example_upcall ! 0 = 0 \<and> example_upcall ! 2 = 0 \<and> example_upcall ! 3 = 0"
  "upcall_src example_upcall = 0x20010db8000000000000000000000007" "upcall_dst example_upcall = example_mca"
  by (simp_all add: example_upcall_def upcall_src_def upcall_dst_def nth_append)

theorem join_then_route_witness:
  "\<exists>c' c'' rs'. handleinterfaces example_os (packet_frame (c_downstream_id example_router) (replicate 12 0)
      (report_packet 1 example_host all_mldv2_routers example_alert [(4, example_mca, [])]) []) example_router = Inr (True, c')
    \<and> mrouter6_handlesocket example_os 5 example_upcall (c'\<lparr>c_clock := 1200\<rparr>) = Inr c'' \<and> c_routes c'' = Some rs'
    \<and> \<lparr>kr_src = 0x20010db8000000000000000000000007, kr_grp = example_mca, kr_parent = 0\<rparr> \<in> set rs'"
proof -
  have d: "c_clock example_router = 1000" by (simp add: example_router_def example_conf_def)
  have o: "os_setsockopt example_os x y = 0" for x y by (simp add: example_os_def)
  have r: "routable example_mca" by (simp add: routable_def in6_class_defs)
  show ?thesis
    using join_then_route [OF example_router_facts(1-3,5) example_join_valid example_router_facts(6-8) _ _ _ r example_upcall_facts,
        of 1200 example_os "[]" 5] d
    by (fastforce simp: admits_def MALI_value o)
qed

text \<open>
  C4. Join, then silence: a host that reported a group and then never again is forgotten. The first expiry after the membership interval removes the
  group; from then on a data frame for it is received and counted but sent nowhere, and an upcall of the kernel for it asks for
  no route. (The record has to admit some source: an INCLUDE record without sources makes a node that never expires.)
\<close>

theorem join_then_silence:
  assumes "wf_conf c" and "c_routes c \<noteq> None" and "ifx = c_upstream_id c \<or> ifx = c_downstream_id c" and "int_find ifx c = Some i"
    and "length macs = 12" and "valid_report c i rhlim host dst es [(type, mca, srcs)]" and "group_find mca c = None"
    and "0 \<le> c_clock c" and "c_clock c + MALI < 2 ^ 32" and "admits (type, mca, srcs) src" and "subscribed_ints_exist c (c_groups c)"
    and "c_clock c + MALI \<le> t" and "ifx2 = c_upstream_id c \<or> ifx2 = c_downstream_id c" and "int_find ifx2 c = Some k"
    and "valid_data c k nxt hlim src2 mca payload" and "40 \<le> length buf" and "upcall_dst buf = mca"
  shows "\<exists>c1 c2 c3. handleinterfaces os (packet_frame ifx macs (report_packet rhlim host dst es [(type, mca, srcs)]) rest) c = Inr (True, c1)
    \<and> group_find mca c1 \<noteq> None \<and> expire_sources os (c1\<lparr>c_clock := t\<rparr>) = Inr c2 \<and> group_find mca c2 = None
    \<and> handleinterfaces os (packet_frame ifx2 macs (data_packet plen nxt hlim src2 mca payload) rest2) c2 = Inr (True, c3)
    \<and> c_trace c3 = c_trace c2 \<and> mrouter6_handlesocket os fd buf c2 = Inr c2"
proof -
  obtain c1 gi gr where c1: "handleinterfaces os (packet_frame ifx macs (report_packet rhlim host dst es [(type, mca, srcs)]) rest) c = Inr (True, c1)"
    "wf_conf c1" "calm c c1" "same_addresses c c1" "c_groups c1 = c_groups c @ [gr]" "g_mca gr = mca" "g_interfaces gr = [gi]" "gi_ifindex gi = ifx"
    and sv: "\<And>src. admits (type, mca, srcs) src \<Longrightarrow> admitting_until (c_clock c + MALI) src gi"
    by (rule frame_join [OF assms(1-9)]) blast
  let ?d = "c1\<lparr>c_clock := t\<rparr>"
  have w: "wf_conf ?d" "c_routes ?d \<noteq> None" using c1(2,3) by (simp_all add: wf_conf_def calm_def)
  have find: "int_find m ?d = int_find m c" for m using c1(3) by (simp add: calm_def int_find_def)
  have e: "subscribed_ints_exist ?d (c_groups ?d)"
    using assms(4,11) c1(5,7,8) unfolding subscribed_ints_exist_def find by auto
  have x: "expire_node (c_clock ?d) gi = None" using admitting_expires [OF sv [OF assms(10)] assms(12)] by simp
  have g: "mca \<notin> g_mca ` set (c_groups c)" using assms(7) by (simp add: group_find_None_iff)
  obtain c2 where c2: "expire_sources os ?d = Inr c2" "calm ?d c2" "same_addresses ?d c2" "group_find mca c2 = None"
    using expire_forgets [OF w e _ g c1(7) x, of os] c1(5) by auto
  have a: "same_addresses c c2" using c1(4) c2(3) by (simp add: same_addresses_def)
  have k: "int_find ifx2 c2 = Some k" using c2(2) find assms(14) by (simp add: calm_def)
  have v: "ifx2 = c_upstream_id c2 \<or> ifx2 = c_downstream_id c2" "valid_data c2 k nxt hlim src2 mca payload"
    using assms(13,15) a by (simp_all add: valid_data_def same_addresses_def)
  have "wf_conf c2" using expire_sources_wf [OF c2(1) w(1)] .
  moreover have "\<not> upcall_accepted buf c2" using c2(4) assms(17) by (force simp: upcall_accepted_def route_wanted_def group_find_None_iff)
  ultimately have "mrouter6_handlesocket os fd buf c2 = Inr c2" using assms(16) by (simp add: handlesocket_unfold)
  moreover have "group_find mca c1 \<noteq> None" using c1(5,6) by (simp add: group_find_None_iff)
  ultimately show ?thesis using data_frame_unwanted [OF v(1) k assms(5) v(2) c2(4)] c1(1) c2(1,4) by blast
qed

theorem join_then_silence_witness:
  "\<exists>c1 c2. handleinterfaces example_os (packet_frame (c_downstream_id example_router) (replicate 12 0)
      (report_packet 1 example_host all_mldv2_routers example_alert [(4, example_mca, [])]) []) example_router = Inr (True, c1)
    \<and> group_find example_mca c1 \<noteq> None \<and> expire_sources example_os (c1\<lparr>c_clock := 1260\<rparr>) = Inr c2 \<and> group_find example_mca c2 = None
    \<and> mrouter6_handlesocket example_os 5 example_upcall c2 = Inr c2"
proof -
  have d: "c_downstream_id example_router = 2" "c_clock example_router = 1000" "c_upstream_id example_router = 1" "c_groups example_router = []"
    by (simp_all add: example_router_def example_conf_def)
  have g: "group_find example_mca example_router = None" by (rule example_router_facts)
  show ?thesis
    using join_then_silence [OF example_router_facts(1,2) _ example_router_facts(3,5) example_join_valid g example_router_facts(7,8) _ _ _ _
        example_router_facts(4) example_data_valid example_upcall_facts(1,4), of 7 1260 example_os "[]" 3 "[]" 5] d
    by (fastforce simp: admits_def MALI_value subscribed_ints_exist_def)
qed

section \<open>A run of the daemon\<close>

text \<open>
  From the command line to a route in the kernel: the daemon starts with no interfaces, an alarm five minutes later finds two, a host
  joins a group, and the kernel asks for a source of it.
\<close>

definition example_ifa :: "string \<Rightarrow> ifindex \<Rightarrow> in6_addr \<Rightarrow> ifaddr" where
  "example_ifa name i addr = \<lparr>ifa_name = name, ifa_index = i, ifa_loopback = False, ifa_up = True, ifa_running = True,
     ifa_family = Some AF_INET6, ifa_addr = addr\<rparr>"

definition example_net :: os where
  "example_net = example_os\<lparr>os_indextoname := (\<lambda>i. if i = 1 then Some ''eth0'' else if i = 2 then Some ''eth1'' else None),
     os_getifaddrs := (\<lambda>_. Some [example_ifa ''eth0'' 1 0xfe800000000000000000000000000001, example_ifa ''eth1'' 2 0xfe800000000000000000000000000002])\<rparr>"

definition example_started :: conf where
  "example_started = (init 1000)\<lparr>c_upstream := Some ''eth0'', c_downstream := Some ''eth1'', c_daemonize := False, c_kernel := True, c_mr6_fd := 5,
     c_routes := Some [], c_last_update := 1000, c_trace := [Mif_add 5 0 0, Mif_add 5 1 0]\<rparr>"

lemma example_started: "daemon_start (\<lambda>_ _. 0) (False, example_started)"
proof (rule started)
  let ?opted = "(init 1000)\<lparr>c_upstream := Some ''eth0'', c_downstream := Some ''eth1'', c_daemonize := False, c_kernel := True\<rparr>"
  show "handle_options (\<lambda>_. None) [(CHR ''i'', ''eth0''), (CHR ''d'', ''eth1''), (CHR ''f'', []), (CHR ''k'', [])] (init 1000, 0, 0) = Inr (?opted, 0, 0)"
    by (simp add: handle_option_def init_def)
  show "startup example_os \<lparr>bt_fork = 0, bt_stat_file = True, bt_rawsocket = 3, bt_sendsocket = 4, bt_rcvbuf = 0, bt_filter = 0,
      bt_buffer = True, bt_mrouter_socket = 5, bt_mrouter_ret = 0\<rparr> ?opted = Inr (Inr example_started)"
    by (simp add: startup_def init_def update_interfaces_def example_os_def send_mld_querys_def setup_kernel_def mrouter_init_def
        mrouter6_addmif_def emit_def example_started_def)
  show "os_setsockopt example_os = (\<lambda>_ _. 0)" by (simp add: example_os_def)
qed


abbreviation (input) example_eth0 :: intnode where
  "example_eth0 \<equiv> int_zero\<lparr>in_ifindex := 1, in_name := ''eth0'', in_mtu := 1500, in_hwfamily := 1, in_upstream := True\<rparr>"
abbreviation (input) example_eth1 :: intnode where
  "example_eth1 \<equiv> int_zero\<lparr>in_ifindex := 2, in_name := ''eth1'', in_mtu := 1500, in_hwfamily := 1, in_downstream := True\<rparr>"

lemma example_names: "\<not> strcasecmp_eq ''eth0'' ''eth1''" "\<not> strcasecmp_eq ''eth1'' ''eth0''" "strcasecmp_eq n n"
  by (simp_all add: strcasecmp_eq_def lower_char_def)

lemma example_create:
  "c_upstream c = Some ''eth0'' \<Longrightarrow> c_downstream c = Some ''eth1'' \<Longrightarrow> c_ints c = [] \<Longrightarrow>
     int_create example_net 1 c = Inr (Some 1, c\<lparr>c_ints := [int_zero, example_eth0], c_upstream_id := 1\<rparr>)"
  "c_upstream c = Some ''eth0'' \<Longrightarrow> c_downstream c = Some ''eth1'' \<Longrightarrow> c_ints c = [a, b] \<Longrightarrow>
     int_create example_net 2 c = Inr (Some 2, c\<lparr>c_ints := [a, b, example_eth1], c_downstream_id := 2\<rparr>)"
  by (simp_all add: int_create_def int_resize_def int_mark_def example_net_def example_os_def example_names upd_int_def int_zero_def ARPHRD_LOOPBACK_def)

lemma example_discovery:
  assumes "c_upstream c = Some ''eth0''" "c_downstream c = Some ''eth1''" "c_ints c = []" "c_last_update c + 300 \<le> c_clock c"
  shows "update_interfaces example_net None c = Inr (c\<lparr>c_last_update := c_clock c, c_upstream_id := 1, c_downstream_id := 2,
    c_ints := [int_zero, example_eth0\<lparr>in_linklocal := 0xfe800000000000000000000000000001\<rparr>, example_eth1\<lparr>in_linklocal := 0xfe800000000000000000000000000002\<rparr>]\<rparr>)"
proof -
  have g: "os_getifaddrs example_net t = Some [example_ifa ''eth0'' 1 0xfe800000000000000000000000000001, example_ifa ''eth1'' 2 0xfe800000000000000000000000000002]" for t
    by (simp add: example_net_def)
  have i: "\<not> ignored_ifa (example_ifa n k a)" "ifa_family (example_ifa n k a) = Some AF_INET6" "ifa_name (example_ifa n k a) = n"
    "ifa_index (example_ifa n k a) = k" "ifa_addr (example_ifa n k a) = a" for n k a by (simp_all add: ignored_ifa_def example_ifa_def)
  have l: "IN6_IS_ADDR_LINKLOCAL 0xfe800000000000000000000000000001" "IN6_IS_ADDR_LINKLOCAL 0xfe800000000000000000000000000002" by (simp_all add: in6_class_defs)
  let ?c = "c\<lparr>c_last_update := c_clock c\<rparr>"
  let ?d = "?c\<lparr>c_upstream_id := 1, c_ints := [int_zero, example_eth0\<lparr>in_linklocal := 0xfe800000000000000000000000000001\<rparr>]\<rparr>"
  have "update_loop example_net None (example_ifa ''eth0'' 1 0xfe800000000000000000000000000001 # ifas) got ?c
     = update_loop example_net None ifas (True, False) ?d" for ifas got
    using assms(1-3) i l(1) example_create(1) [of ?c]
    by (simp add: unwanted_addr_def find_or_create_def int_find_def set_address_def drop_unaddressed_def upd_int_def)
  moreover have "update_loop example_net None [example_ifa ''eth1'' 2 0xfe800000000000000000000000000002] got ?d
     = Inr (?d\<lparr>c_downstream_id := 2, c_ints := c_ints ?d @ [example_eth1\<lparr>in_linklocal := 0xfe800000000000000000000000000002\<rparr>]\<rparr>)" for got
    using assms(1-3) i l(2) example_create(2) [of ?d]
    by (simp add: unwanted_addr_def find_or_create_def int_find_def set_address_def drop_unaddressed_def upd_int_def)
  ultimately show ?thesis using assms(4) by (simp add: update_interfaces_def g)
qed

definition example_up :: conf where
  "example_up = example_started\<lparr>c_clock := 1301, c_last_update := 1301, c_upstream_id := 1, c_downstream_id := 2,
     c_ints := [int_zero, example_eth0\<lparr>in_linklocal := 0xfe800000000000000000000000000001\<rparr>, example_eth1\<lparr>in_linklocal := 0xfe800000000000000000000000000002\<rparr>]\<rparr>"

lemma example_up_iteration:
  "main_iteration example_net (Select_error True) False (timeout_signal (example_started\<lparr>c_clock := 1301\<rparr>)) = Inr (False, example_up)"
proof -
  let ?c = "example_started\<lparr>c_clock := 1301, c_needs_timeout := True\<rparr>"
  have "update_interfaces example_net None ?c = Inr (?c\<lparr>c_last_update := c_clock ?c, c_upstream_id := 1, c_downstream_id := 2,
    c_ints := [int_zero, example_eth0\<lparr>in_linklocal := 0xfe800000000000000000000000000001\<rparr>, example_eth1\<lparr>in_linklocal := 0xfe800000000000000000000000000002\<rparr>]\<rparr>)"
    by (rule example_discovery) (simp_all add: example_started_def init_def)
  then show ?thesis
    by (simp add: main_iteration_def run_timeout_def timeout_def timeout_signal_def)
      (simp add: handle_select_def example_started_def init_def example_up_def expire_sources_def)
qed

lemma example_up_facts:
  "wf_conf example_up" "c_routes example_up = Some []" "int_find (c_downstream_id example_up) example_up = Some 2" "group_find mca example_up = None"
  "c_clock example_up = 1301" "\<not> c_quit example_up" "\<not> c_needs_timeout example_up" "c_downstream_id example_up = 2"
  "valid_report example_up 2 1 example_host all_mldv2_routers example_alert [(4, example_mca, [])]"
proof -
  show "wf_conf example_up"
    by (auto simp: wf_conf_def wf_groups_def wf_ints_def example_up_def example_started_def init_def int_zero_def nth_Cons split: nat.splits)
  show "valid_report example_up 2 1 example_host all_mldv2_routers example_alert [(4, example_mca, [])]"
    by (simp add: valid_report_def length_report_packet valid_ext_def valid_grec_def in6_class_defs length_enc_report length_enc_grec
        example_up_def int_zero_def)
qed (simp_all add: example_up_def example_started_def init_def int_zero_def int_find_def group_find_def groups_find_def)

lemma frame_iteration:
  assumes "handleinterfaces os fr c = Inr (True, c')" and "os_setsockopt os = answer" and "\<not> c_quit c" and "\<not> c_needs_timeout c"
  shows "daemon_step answer (False, c) (False, c')"
  by (rule iteration [OF _ assms(3,2), where sel = "Ready None (Some fr)"])
    (use assms in \<open>simp_all add: main_iteration_def run_timeout_def handle_select_def\<close>)

lemma upcall_iteration:
  assumes "mrouter6_handlesocket os (c_mr6_fd c) buf c = Inr c'" and "os_setsockopt os = answer" and "\<not> c_quit c" and "\<not> c_needs_timeout c"
  shows "daemon_step answer (False, c) (False, c')"
  by (rule iteration [OF _ assms(3,2), where sel = "Ready (Some buf) None"])
    (use assms in \<open>simp_all add: main_iteration_def run_timeout_def handle_select_def\<close>)

abbreviation (input) example_route :: kernel_route6 where
  "example_route \<equiv> \<lparr>kr_src = 0x20010db8000000000000000000000007, kr_grp = example_mca, kr_parent = 0\<rparr>"

lemma example_run:
  "\<exists>c rs. (daemon_step (\<lambda>_ _. 0))\<^sup>*\<^sup>* (False, example_started) (False, c) \<and> c_routes c = Some rs \<and> example_route \<in> set rs"
proof -
  let ?step = "daemon_step (\<lambda>_ _. 0)"
  let ?fr = "packet_frame (c_downstream_id example_up) (replicate 12 0) (report_packet 1 example_host all_mldv2_routers example_alert [(4, example_mca, [])]) []"
  have net: "os_setsockopt example_net = (\<lambda>_ _. 0)" by (simp add: example_net_def example_os_def)
  have "?step (False, example_started) (False, example_started\<lparr>c_clock := 1301\<rparr>)"
    by (rule time_passes) (simp add: example_started_def init_def)
  moreover have "?step (False, example_started\<lparr>c_clock := 1301\<rparr>) (False, timeout_signal (example_started\<lparr>c_clock := 1301\<rparr>))" by (rule alarm)
  moreover have "?step (False, timeout_signal (example_started\<lparr>c_clock := 1301\<rparr>)) (False, example_up)"
    by (rule iteration [OF _ _ net example_up_iteration]) (simp_all add: timeout_signal_def example_started_def init_def)
  ultimately have up: "?step\<^sup>*\<^sup>* (False, example_started) (False, example_up)" by simp
  obtain c1 gi gr where c1: "handleinterfaces example_net ?fr example_up = Inr (True, c1)" "wf_conf c1" "calm example_up c1" "same_addresses example_up c1"
    "c_groups c1 = c_groups example_up @ [gr]" "g_mca gr = example_mca" "g_interfaces gr = [gi]" "gi_ifindex gi = c_downstream_id example_up"
    and sv: "\<And>src. admits (4, example_mca, []) src \<Longrightarrow> admitting_until (c_clock example_up + MALI) src gi"
    by (rule frame_join [OF example_up_facts(1) _ _ example_up_facts(3) _ example_up_facts(9,4)]) (auto simp: example_up_facts MALI_value)
  have q: "\<not> c_quit c1" "\<not> c_needs_timeout c1" "c_clock c1 = 1301" "c_downstream_id c1 = c_downstream_id example_up"
    using c1(3,4) example_up_facts(5-7) by (simp_all add: same_addresses_def calm_def)
  obtain rs where rs: "c_routes c1 = Some rs" using c1(3) by (auto simp: calm_def)
  have a: "admitting_until (c_clock example_up + MALI) 0x20010db8000000000000000000000007 gi" by (rule sv) (simp add: admits_def)
  have "routable example_mca" by (simp add: routable_def in6_class_defs)
  then obtain c2 rs' where c2: "mrouter6_handlesocket example_net (c_mr6_fd c1) example_upcall c1 = Inr c2" "c_routes c2 = Some rs'" "example_route \<in> set rs'"
    using upcall_routed [OF c1(2) rs _ c1(6) _ _ a _ _ _ example_upcall_facts, of example_net "c_mr6_fd c1"] c1(5,7,8) q(3,4) net example_up_facts(5)
    by (auto simp: MALI_value)
  have "?step (False, example_up) (False, c1)" using frame_iteration [OF c1(1) net example_up_facts(6,7)] .
  moreover have "?step (False, c1) (False, c2)" using upcall_iteration [OF c2(1) net q(1,2)] .
  ultimately have "?step\<^sup>*\<^sup>* (False, example_started) (False, c2)" using up by simp
  then show ?thesis using c2(2,3) by blast
qed

end
