(* ===== verification/Route_mirror.thy ===== *)
theory Route_mirror
  imports Scenarios
begin

text \<open>
  The route list of the daemon against the multicast forwarding cache of the kernel. A locale states what an invariant of the route list
  and the trace of system calls has to survive (an upcall, the expiry of routes, calls that are not about routes); inside it every handler of
  the daemon is shown to keep such an invariant. It is interpreted twice: with the agreement of list and cache, and with the
  groups that may be routed.
\<close>

section \<open>Invariants of routes and trace\<close>

fun is_mfc :: "io \<Rightarrow> bool" where
  "is_mfc (Mfc_add fd src grp) = True"
| "is_mfc (Mfc_del fd src grp) = True"
| "is_mfc e = False"

locale route_invariant =
  fixes os :: os and I :: "conf \<Rightarrow> bool"
  assumes same: "I c \<Longrightarrow> c_trace d = c_trace c \<Longrightarrow> c_routes d = c_routes c \<Longrightarrow> I d"
    and other_call: "I c \<Longrightarrow> \<not> is_mfc e \<Longrightarrow> I (emit e c)"
    and upcall: "mrouter6_handlesocket os fd buf c = Inr c' \<Longrightarrow> I c \<Longrightarrow> I c'"
    and expire: "expire_routes fd c = Inr c' \<Longrightarrow> I c \<Longrightarrow> I c'"
begin

lemma same_iff: "c_trace d = c_trace c \<Longrightarrow> c_routes d = c_routes c \<Longrightarrow> I d \<longleftrightarrow> I c"
  using same by metis

lemma I_simps [simp]:
  "I (upd_int i f c) \<longleftrightarrow> I c" "I (upd_group g h c) \<longleftrightarrow> I c" "I (upd_grpint g j k c) \<longleftrightarrow> I c" "I (int_destroy i c) \<longleftrightarrow> I c"
  "I (int_set_mld_version i v c) \<longleftrightarrow> I c" "I (count_icmp_sent i c) \<longleftrightarrow> I c" "I (c\<lparr>c_groups := gs\<rparr>) \<longleftrightarrow> I c"
  "I (c\<lparr>c_stat_hlim_exceeded := n\<rparr>) \<longleftrightarrow> I c" "I (c\<lparr>c_stat_icmp_received := n\<rparr>) \<longleftrightarrow> I c" "I (c\<lparr>c_last_update := t\<rparr>) \<longleftrightarrow> I c"
  "I (c\<lparr>c_needs_timeout := b\<rparr>) \<longleftrightarrow> I c" "I (c\<lparr>c_timeout_offset := t\<rparr>) \<longleftrightarrow> I c" "I (c\<lparr>c_clock := t\<rparr>) \<longleftrightarrow> I c" "I (c\<lparr>c_mr6_fd := fd\<rparr>) \<longleftrightarrow> I c"
  "I (c\<lparr>c_stat_packets_received := n, c_stat_bytes_received := m\<rparr>) \<longleftrightarrow> I c"
  "I (c\<lparr>c_stat_packets_sent := n, c_stat_bytes_sent := m\<rparr>) \<longleftrightarrow> I c"
  by (rule same_iff; simp add: upd_int_def upd_group_def upd_grpint_def int_destroy_def count_icmp_sent_def)+

subsection \<open>Sending\<close>

lemma I_sendpacket6: "sendpacket6 os i iph len c = Inr c' \<Longrightarrow> I c \<Longrightarrow> I c'"
  using other_call [of c] by (auto simp: sendpacket6_def after_send_def Let_def bindR_Inr_iff split: send_result.splits)

lemma I_icmp6_send: "icmp6_send os i src type code data dlen c = Inr c' \<Longrightarrow> I c \<Longrightarrow> I c'"
  using I_sendpacket6 by (auto simp: icmp6_send_def Let_def bindR_Inr_iff)

lemma I_query: "mld_send_query os i mca src s c = Inr c' \<Longrightarrow> I c \<Longrightarrow> I c'"
  using I_sendpacket6 by (auto simp: mld_send_query_def Let_def bindR_Inr_iff split: if_splits)

lemma I_mquery: "mld_send_mquery os i mca srcs s c = Inr c' \<Longrightarrow> I c \<Longrightarrow> I c'"
  unfolding mld_send_mquery_def by (erule (1) foldR_invariant) (rule I_query)

lemma I_report2: "mld2_send_report i mca c = Inr c' \<Longrightarrow> I c \<Longrightarrow> I c'"
  by (simp add: mld2_send_report_def Let_def split: if_splits)

lemma I_report: "mld_send_report os i mca c = Inr c' \<Longrightarrow> I c \<Longrightarrow> I c'"
  using I_sendpacket6 I_report2
  by (auto simp: mld_send_report_def mld1_send_report_def Let_def bindR_Inr_iff split: if_splits)

lemma I_report_all: "mld_send_report_all os i mca c = Inr c' \<Longrightarrow> I c \<Longrightarrow> I c'"
  unfolding mld_send_report_all_def by (erule (1) foldR_invariant) (auto split: if_splits intro: I_report)

subsection \<open>Reports and expiry\<close>

lemma I_groupint_get: "groupint_get os mca i c = (gj, isnew, c') \<Longrightarrow> I c \<Longrightarrow> I c'"
  by (auto simp: groupint_get_def group_get_def Let_def split: option.splits)

lemma I_downstream_include: "downstream_include os i mrec g j c = Inr c' \<Longrightarrow> I c \<Longrightarrow> I c'"
  by (auto simp: downstream_include_def Let_def bindR_Inr_iff split: if_splits dest!: I_mquery)

lemma I_downstream_exclude: "downstream_exclude os i mrec g j c = Inr c' \<Longrightarrow> I c \<Longrightarrow> I c'"
  by (auto simp: downstream_exclude_def Let_def bindR_Inr_iff split: if_splits dest!: I_mquery I_query)

lemma I_downstream: "handle_downstream_subscription os i mrec c = Inr c' \<Longrightarrow> I c \<Longrightarrow> I c'"
  by (auto simp: handle_downstream_subscription_def Let_def split: prod.splits if_splits
      dest!: I_groupint_get I_downstream_include I_downstream_exclude)

lemma I_upstream_join: "upstream_join os i sub (s, c) = (s', c') \<Longrightarrow> I c \<Longrightarrow> I c'"
  by (auto simp: upstream_join_def mcast_join_group_def mcast_set_filter_def setsourcefilter_def Let_def
      split: if_splits prod.splits intro!: other_call)

lemma I_upstream_loop: "foldl (\<lambda>st sub. upstream_join os i sub st) (s, c) subs = (s', c') \<Longrightarrow> I c \<Longrightarrow> I c'"
proof (induction subs arbitrary: s c)
  case (Cons sub subs)
  obtain s1 c1 where "upstream_join os i sub (s, c) = (s1, c1)" by fastforce
  then show ?case using Cons I_upstream_join by simp
qed simp

lemma I_upstream: "handle_upstream_subscription os x c = Inr c' \<Longrightarrow> I c \<Longrightarrow> I c'"
  by (auto simp: handle_upstream_subscription_def Let_def split: option.splits prod.splits if_splits
      dest!: expire I_upstream_loop intro!: other_call)

lemma I_remove: "remove_grpintn g j c = (r, c') \<Longrightarrow> I c \<Longrightarrow> I c'"
  by (auto simp: remove_grpintn_def Let_def split: if_splits)

lemma I_expire_source: "expire_source os g j k src now c = Inr (r, c') \<Longrightarrow> I c \<Longrightarrow> I c'"
  by (auto simp: expire_source_def Let_def bindR_Inr_iff split: if_splits prod.splits dest!: I_upstream I_remove)

lemma I_switch: "mld2_switch_to_include os g j c = Inr (r, c') \<Longrightarrow> I c \<Longrightarrow> I c'"
  by (auto simp: mld2_switch_to_include_def Let_def bindR_Inr_iff split: if_splits dest!: I_upstream I_remove)

lemma I_expire_includes: "expire_includes n os g j k now c = Inr (r, c') \<Longrightarrow> I c \<Longrightarrow> I c'"
proof (induction n arbitrary: k c)
  case (Suc n)
  then show ?case by (fastforce simp: bindR_Inr_iff split: option.splits if_splits dest: I_expire_source)
qed simp

lemma I_expire_interfaces: "expire_interfaces n os g j now c = Inr (gone, c') \<Longrightarrow> I c \<Longrightarrow> I c'"
proof (induction n arbitrary: j c)
  case (Suc n)
  from Suc.prems(1) show ?case
    by (auto simp: Let_def bindR_Inr_iff Suc.prems(2) split: if_splits
        intro: Suc.IH dest: I_expire_includes [OF _ Suc.prems(2)] I_switch [OF _ Suc.prems(2)])
qed simp

lemma I_expire_groups: "expire_groups n os g now c = Inr c' \<Longrightarrow> I c \<Longrightarrow> I c'"
proof (induction n arbitrary: g c)
  case (Suc n)
  then show ?case by (fastforce simp: bindR_Inr_iff dest: I_expire_interfaces)
qed simp

lemma I_expire_sources: "expire_sources os c = Inr c' \<Longrightarrow> I c \<Longrightarrow> I c'"
  unfolding expire_sources_def by (rule I_expire_groups)

subsection \<open>Receiving\<close>

lemma I_mld1_report: "l4_ipv6_icmpv6_mld1_report os i mem off c = Inr c' \<Longrightarrow> I c \<Longrightarrow> I c'"
  by (auto simp: l4_ipv6_icmpv6_mld1_report_def Let_def bindR_Inr_iff split: if_splits option.splits prod.splits
      dest!: I_groupint_get I_report_all)

lemma I_mld1_reduction: "l4_ipv6_icmpv6_mld1_reduction i mem off c = Inr c' \<Longrightarrow> I c \<Longrightarrow> I c'"
  by (auto simp: l4_ipv6_icmpv6_mld1_reduction_def Let_def bindR_Inr_iff split: if_splits option.splits)

lemma I_mld2_records: "mld2_records n os i mem off plen grec hu c = Inr (hu', c') \<Longrightarrow> I c \<Longrightarrow> I c'"
proof (induction n arbitrary: grec hu c)
  case (Suc n)
  then obtain r where r: "mld2_record mem off plen grec = Inr r" by (auto simp: bindR_Inr_iff)
  show ?case
  proof (cases r)
    case (Some rn)
    then obtain d where d: "handle_downstream_subscription os i (fst rn) c = Inr d" "mld2_records n os i mem off plen (snd rn) True d = Inr (hu', c')"
      using Suc.prems(1) r by (auto simp: bindR_Inr_iff split: prod.splits)
    show ?thesis by (rule Suc.IH [OF d(2) I_downstream [OF d(1) Suc.prems(2)]])
  qed (use Suc.prems r in simp)
qed simp

lemma I_mld2_report: "l4_ipv6_icmpv6_mld2_report os i mem off plen c = Inr c' \<Longrightarrow> I c \<Longrightarrow> I c'"
  by (auto simp: l4_ipv6_icmpv6_mld2_report_def Let_def bindR_Inr_iff split: if_splits dest!: I_mld2_records I_upstream expire)

lemma I_mld_query: "l4_ipv6_icmpv6_mld_query os i plen c = Inr c' \<Longrightarrow> I c \<Longrightarrow> I c'"
  by (auto simp: l4_ipv6_icmpv6_mld_query_def Let_def split: if_splits
      dest: I_report2 elim!: foldR_invariant [where P = I] intro: I_report)

lemma I_forward_loop: "forward_loop n os i g j src iph len c = Inr c' \<Longrightarrow> I c \<Longrightarrow> I c'"
proof (induction n arbitrary: j c)
  case (Suc n)
  from Suc.prems(1) show ?case
    by (auto simp: Let_def bindR_Inr_iff Suc.prems(2) split: if_splits option.splits
        intro: Suc.IH I_sendpacket6 dest: I_expire_source [OF _ Suc.prems(2)] I_switch [OF _ Suc.prems(2)])
qed simp

lemma I_multicast: "l4_ipv6_multicast os i iph len c = Inr c' \<Longrightarrow> I c \<Longrightarrow> I c'"
  by (auto simp: l4_ipv6_multicast_def Let_def bindR_Inr_iff split: if_splits option.splits dest!: I_forward_loop)

lemma I_dispatch: "icmpv6_dispatch os i iph len off plen c = Inr c' \<Longrightarrow> I c \<Longrightarrow> I c'"
  by (auto simp: icmpv6_dispatch_def Let_def split: if_splits
      dest: I_icmp6_send I_multicast I_mld1_report I_mld1_reduction I_mld2_report I_mld_query)

lemma I_icmpv6: "l4_ipv6_icmpv6 os i iph len off plen c = Inr c' \<Longrightarrow> I c \<Longrightarrow> I c'"
  by (auto simp: l4_ipv6_icmpv6_def Let_def bindR_Inr_iff simp del: read_bytes_Inr_iff split: if_splits dest!: I_dispatch)

lemma I_l3_ipv6: "l3_ipv6 os i iph len c = Inr c' \<Longrightarrow> I c \<Longrightarrow> I c'"
  using I_icmpv6 I_multicast unfolding l3_ipv6_def Let_def
  by (auto simp: bindR_Inr_iff simp del: read_bytes_Inr_iff split: if_splits option.splits prod.splits)

lemma I_ethtype: "l2_ethtype os i packet len t c = Inr c' \<Longrightarrow> I c \<Longrightarrow> I c'"
  by (auto simp: l2_ethtype_def split: if_splits dest: I_l3_ipv6 l3_ipv4_same)

subsection \<open>The daemon\<close>

lemma I_int_mark [simp]: "I (int_mark i c) \<longleftrightarrow> I c"
  by (rule same_iff) (simp_all add: int_mark_def Let_def upd_int_def)

lemma I_int_resize [simp]: "I (int_resize i c) \<longleftrightarrow> I c"
  by (rule same_iff) (simp_all add: int_resize_def)

lemma I_int_create: "int_create os k c = Inr (r, c') \<Longrightarrow> I c \<Longrightarrow> I c'"
  by (auto simp: int_create_def Let_def split: if_splits option.splits)

lemma I_set_address: "set_address i ifa (got, c) = (got', c') \<Longrightarrow> I c \<Longrightarrow> I c'"
  by (auto simp: set_address_def set_other_address_def Let_def split: if_splits prod.splits)

lemma I_find_or_create: "find_or_create os ifa c = Inr (intn, new, c') \<Longrightarrow> I c \<Longrightarrow> I c'"
  by (auto simp: find_or_create_def bindR_Inr_iff split: option.splits if_splits dest!: I_int_create)

lemma I_drop_unaddressed [simp]: "I (drop_unaddressed new got intn c) \<longleftrightarrow> I c"
  by (simp add: drop_unaddressed_def split: prod.splits)

lemma I_update_interfaces: "update_interfaces os specific c = Inr c' \<Longrightarrow> I c \<Longrightarrow> I c'"
proof -
  have "update_loop os specific ifas got c = Inr c' \<Longrightarrow> I c \<Longrightarrow> I c'" for ifas got c
  proof (induction ifas arbitrary: got c)
    case (Cons ifa ifas)
    note IH = Cons.IH and c = Cons.prems
    show ?case
    proof (cases "ifa_family ifa = None \<or> ignored_ifa ifa \<or> unwanted_addr ifa")
      case True
      then show ?thesis using IH c by auto
    next
      case wanted: False
      show ?thesis
      proof (cases specific)
        case None
        then obtain intn new d where d: "find_or_create os ifa c = Inr (intn, new, d)" using c(1) wanted by (auto simp: bindR_Inr_iff)
        obtain got' e where e: "(case intn of None \<Rightarrow> ((False, False), d) | Some i \<Rightarrow> set_address i ifa ((False, False), d)) = (got', e)" by fastforce
        have "I d" using d c(2) by (rule I_find_or_create)
        then have "I e" using e by (auto split: option.splits dest: I_set_address)
        then show ?thesis using IH [of got' "drop_unaddressed new got' intn e"] c(1) wanted None d e by simp
      next
        case (Some i)
        obtain gotl gotg d where d: "set_address i ifa (got, c) = ((gotl, gotg), d)" by (metis surj_pair)
        then have "I d" using c(2) by (rule I_set_address)
        then show ?thesis using IH [of "(gotl, gotg)" d] IH [of got c] c wanted Some d by (auto split: if_splits)
      qed
    qed
  qed simp
  then show "update_interfaces os specific c = Inr c' \<Longrightarrow> I c \<Longrightarrow> I c'"
    by (auto simp: update_interfaces_def Let_def split: if_splits option.splits)
qed

lemma I_querys: "send_mld_querys os c = Inr c' \<Longrightarrow> I c \<Longrightarrow> I c'"
  unfolding send_mld_querys_def by (erule (1) foldR_invariant) (auto split: if_splits intro: I_query)

lemma I_timeout: "timeout os c = Inr c' \<Longrightarrow> I c \<Longrightarrow> I c'"
  by (auto simp: timeout_def bindR_Inr_iff split: if_splits dest!: I_update_interfaces I_querys I_expire_sources)

lemma I_receiving: "receiving_interface os k c = Inr (r, c') \<Longrightarrow> I c \<Longrightarrow> I c'"
  by (auto simp: receiving_interface_def bindR_Inr_iff split: option.splits dest!: I_int_create I_update_interfaces)

lemma I_handleinterfaces: "handleinterfaces os fr c = Inr (ok, c') \<Longrightarrow> I c \<Longrightarrow> I c'"
  by (auto simp: handleinterfaces_def Let_def bindR_Inr_iff split: if_splits option.splits prod.splits dest!: I_receiving I_ethtype)

lemma I_main_iteration: "main_iteration os sel quit c = Inr (quit', c') \<Longrightarrow> I c \<Longrightarrow> I c'"
proof -
  assume "main_iteration os sel quit c = Inr (quit', c')" and c: "I c"
  then obtain d where d: "run_timeout os c = Inr d" "handle_select os sel quit d = Inr (quit', c')"
    by (auto simp: main_iteration_def bindR_Inr_iff)
  have "I d" using d(1) c by (auto simp: run_timeout_def bindR_Inr_iff split: if_splits dest: I_timeout)
  then show "I c'"
    using d(2) by (cases sel) (auto simp: handle_select_def bindR_Inr_iff split: if_splits option.split_asm dest: I_handleinterfaces upcall)
qed

lemma I_setup_kernel:
  assumes "I c" and "I (snd (mrouter_init (bt_mrouter_socket bt) (bt_mrouter_ret bt) c))"
  shows "I (setup_kernel os bt c)"
  using assms by (auto simp: setup_kernel_def mrouter6_addmif_def Let_def split: prod.splits intro!: other_call)

end

section \<open>Invariants of the daemon\<close>

text \<open>Before \<^verbatim>\<open>mrouter_init\<close> there is no route list, and no handler makes one.\<close>

lemma unrouted: "route_invariant os I \<Longrightarrow> route_invariant os (\<lambda>c. I c \<and> c_routes c = None)"
proof (unfold_locales, goal_cases)
  case (1 c d)
  then show ?case using route_invariant.same [of os I c d] by simp
next
  case (2 c e)
  then show ?case using route_invariant.other_call [of os I c e] by (simp add: emit_def)
next
  case (3 fd buf c c')
  then have "c_routes c' = None"
    by (auto simp: mrouter6_handlesocket_def save_route_def Let_def emit_def bindR_Inr_iff split: if_splits)
  then show ?case using 3 route_invariant.upcall [of os I fd buf c c'] by simp
next
  case (4 fd c c')
  then show ?case by (simp add: expire_routes_def)
qed

locale daemon_route_invariant =
  fixes answer :: kernel_answers and I :: "conf \<Rightarrow> bool"
  assumes handlers: "os_setsockopt os = answer \<Longrightarrow> route_invariant os I"
    and initial: "I (init now)"
    and opened: "I c \<Longrightarrow> c_routes c = None \<Longrightarrow> I (snd (mrouter_init s ret c))"
begin

lemma same: "I c \<Longrightarrow> c_trace d = c_trace c \<Longrightarrow> c_routes d = c_routes c \<Longrightarrow> I d"
proof -
  obtain os :: os where "os_setsockopt os = answer" by (metis os.select_convs(3))
  then show "I c \<Longrightarrow> c_trace d = c_trace c \<Longrightarrow> c_routes d = c_routes c \<Longrightarrow> I d"
    by (rule route_invariant.same [OF handlers])
qed

lemma I_options:
  "handle_options getpwnam opts (c, u, g) = Inr (c', u', g') \<Longrightarrow> I c \<Longrightarrow> c_routes c = None \<Longrightarrow> I c' \<and> c_routes c' = None"
proof (induction opts arbitrary: c u g)
  case (Cons opt opts)
  then obtain c1 u1 g1 where o: "handle_option getpwnam opt (c, u, g) = Inr (c1, u1, g1)"
    "handle_options getpwnam opts (c1, u1, g1) = Inr (c', u', g')" by (auto split: sum.splits)
  have "c_trace c1 = c_trace c \<and> c_routes c1 = c_routes c"
    using o(1) by (auto simp: handle_option_def Let_def split: if_splits option.splits prod.splits)
  then show ?case using Cons.IH [OF o(2)] Cons.prems same [of c c1] by simp
qed simp

lemma I_startup:
  assumes "startup os bt c = Inr (Inr c')" and "I c" and "c_routes c = None" and "os_setsockopt os = answer"
  shows "I c'"
proof -
  note r = unrouted [OF handlers [OF assms(4)]]
  obtain t d e where d: "update_interfaces os None (c\<lparr>c_timeout_offset := t\<rparr>) = Inr d" "send_mld_querys os d = Inr e" "c' = setup_kernel os bt e"
    using assms(1) by (auto simp: startup_def Let_def bindR_Inr_iff split: if_splits)
  have "I (c\<lparr>c_timeout_offset := t\<rparr>) \<and> c_routes (c\<lparr>c_timeout_offset := t\<rparr>) = None"
    using assms(2,3) route_invariant.I_simps(12) [OF handlers [OF assms(4)]] by simp
  then have "I e \<and> c_routes e = None"
    using route_invariant.I_querys [OF r d(2)] route_invariant.I_update_interfaces [OF r d(1)] by simp
  then show ?thesis unfolding d(3) using route_invariant.I_setup_kernel [OF handlers [OF assms(4)]] opened by simp
qed

end

sublocale daemon_route_invariant \<subseteq> dr: guarded_system "daemon_start answer" "daemon_step answer" "\<lambda>(quit, c). I c"
proof
  fix s assume "daemon_start answer s"
  then show "case s of (quit, c) \<Rightarrow> I c"
  proof cases
    case (started getpwnam opts now c0 uid gid os bt c)
    have "c_routes (init now) = None" by (simp add: init_def)
    then have "I c0 \<and> c_routes c0 = None" using I_options [OF started(2) initial] by simp
    then show ?thesis using started I_startup by simp
  qed
next
  fix s t assume s: "case s of (quit, c) \<Rightarrow> I c" and "daemon_step answer s t"
  from \<open>daemon_step answer s t\<close> s show "case t of (quit, c) \<Rightarrow> I c"
  proof cases
    case (iteration quit c os sel quit' c')
    then show ?thesis using s route_invariant.I_main_iteration [OF handlers, of os] by simp
  qed (auto simp: timeout_signal_def sighup_def sigusr2_same dest!: cleanpid_quits intro: same)
qed

section \<open>The calls\<close>

text \<open>
  What the trace writes as \<open>Mfc_add\<close> and \<open>Mfc_del\<close> is a socket option call with a \<^verbatim>\<open>struct mf6cctl\<close>: two socket addresses, the incoming
  interface (padded to four bytes) and a set of 256 outgoing interfaces, of which \<^verbatim>\<open>IF_SET(1, ...)\<close> sets the second. Both callers pass
  interface 0.
\<close>

definition mrouter6_changeroute :: "u16 \<Rightarrow> in6_addr \<Rightarrow> in6_addr \<Rightarrow> bytes" where
  "mrouter6_changeroute vif im6_src im6_dst =
     (let sockaddr = (\<lambda>a. [10, 0] @ replicate 6 0 @ be_bytes 16 a @ replicate 4 0) in
      sockaddr im6_src @ sockaddr im6_dst @ le_bytes16 vif @ [0, 0] @ [2] @ replicate 31 0)"

definition mrouter6_add_route :: "u16 \<Rightarrow> in6_addr \<Rightarrow> in6_addr \<Rightarrow> nat \<times> bytes" where
  "mrouter6_add_route vif im6_src im6_dst = (204, mrouter6_changeroute vif im6_src im6_dst)"

definition mrouter6_del_route :: "u16 \<Rightarrow> in6_addr \<Rightarrow> in6_addr \<Rightarrow> nat \<times> bytes" where
  "mrouter6_del_route vif im6_src im6_dst = (205, mrouter6_changeroute vif im6_src im6_dst)"

fun mfc_call :: "io \<Rightarrow> (int \<times> nat \<times> bytes) option" where
  "mfc_call (Mfc_add fd src grp) = Some (fd, mrouter6_add_route 0 src grp)"
| "mfc_call (Mfc_del fd src grp) = Some (fd, mrouter6_del_route 0 src grp)"
| "mfc_call e = None"

lemma changeroute_inject: "mrouter6_changeroute vif src grp = mrouter6_changeroute vif src' grp' \<longleftrightarrow> src = src' \<and> grp = grp'"
proof -
  have "be_bytes 16 a = be_bytes 16 b \<longleftrightarrow> a = b" for a b :: in6_addr using be_word_in6 by metis
  then show ?thesis by (simp add: mrouter6_changeroute_def Let_def)
qed

text \<open>No information is lost in the trace: the bytes of a call determine the entry, and only these two kinds of entry have such a call.\<close>

lemma mfc_call_inject: "mfc_call e = Some m \<Longrightarrow> mfc_call e' = Some m \<Longrightarrow> e = e'"
  by (cases e; cases e'; auto simp: mrouter6_add_route_def mrouter6_del_route_def changeroute_inject)

lemma mfc_call_None: "mfc_call e = None \<longleftrightarrow> \<not> is_mfc e"
  by (cases e) simp_all

lemma length_changeroute: "length (mrouter6_changeroute vif src grp) = 92"
  by (simp add: mrouter6_changeroute_def le_bytes16_def)

section \<open>The forwarding cache of the kernel\<close>

text \<open>
  What the kernel holds after a trace: a call that it answers with 0 has been carried out, any other has changed nothing.
\<close>

fun mfc_step :: "int \<Rightarrow> io \<Rightarrow> (in6_addr \<times> in6_addr) set \<Rightarrow> (in6_addr \<times> in6_addr) set" where
  "mfc_step res (Mfc_add fd src grp) K = (if res = 0 then insert (src, grp) K else K)"
| "mfc_step res (Mfc_del fd src grp) K = (if res = 0 then K - {(src, grp)} else K)"
| "mfc_step res e K = K"

primrec mfc_run :: "kernel_answers \<Rightarrow> io list \<Rightarrow> io list \<Rightarrow> (in6_addr \<times> in6_addr) set \<Rightarrow> (in6_addr \<times> in6_addr) set" where
  "mfc_run answer before [] K = K"
| "mfc_run answer before (e # es) K = mfc_run answer (before @ [e]) es (mfc_step (answer before e) e K)"

definition kernel_mfc :: "kernel_answers \<Rightarrow> io list \<Rightarrow> (in6_addr \<times> in6_addr) set" where
  "kernel_mfc answer trace = mfc_run answer [] trace {}"

lemma mfc_run_append: "mfc_run answer before (es @ fs) K = mfc_run answer (before @ es) fs (mfc_run answer before es K)"
  by (induction es arbitrary: before K) simp_all

lemma kernel_mfc_append: "kernel_mfc answer (tr @ es) = mfc_run answer tr es (kernel_mfc answer tr)"
  by (simp add: kernel_mfc_def mfc_run_append)

lemma kernel_mfc_Nil [simp]: "kernel_mfc answer [] = {}"
  by (simp add: kernel_mfc_def)

lemma kernel_mfc_snoc [simp]: "kernel_mfc answer (tr @ [e]) = mfc_step (answer tr e) e (kernel_mfc answer tr)"
  by (simp add: kernel_mfc_append)

lemma mfc_step_other: "\<not> is_mfc e \<Longrightarrow> mfc_step res e K = K"
  by (cases e) simp_all

definition deletes_succeed :: "kernel_answers \<Rightarrow> bool" where
  "deletes_succeed answer \<longleftrightarrow> (\<forall>tr fd src grp. answer tr (Mfc_del fd src grp) = 0)"

definition route_key :: "kernel_route6 \<Rightarrow> in6_addr \<times> in6_addr" where
  "route_key r = (kr_src r, kr_grp r)"

lemma mfc_run_deletes:
  "mfc_run answer tr (map (\<lambda>r. Mfc_del fd (kr_src r) (kr_grp r)) del) K \<subseteq> K"
  "K - route_key ` set del \<subseteq> mfc_run answer tr (map (\<lambda>r. Mfc_del fd (kr_src r) (kr_grp r)) del) K"
  "deletes_succeed answer \<Longrightarrow> mfc_run answer tr (map (\<lambda>r. Mfc_del fd (kr_src r) (kr_grp r)) del) K = K - route_key ` set del"
proof (induction del arbitrary: tr K)
  case (Cons r del)
  let ?e = "Mfc_del fd (kr_src r) (kr_grp r)"
  { case 1 show ?case using Cons(1) [of "tr @ [?e]" "mfc_step (answer tr ?e) ?e K"] by (auto split: if_splits) }
  { case 2 show ?case using Cons(2) [of "mfc_step (answer tr ?e) ?e K" "tr @ [?e]"] by (auto simp: route_key_def split: if_splits) }
  { case 3 then show ?case using Cons(3) [of "tr @ [?e]" "mfc_step (answer tr ?e) ?e K"] by (auto simp: route_key_def deletes_succeed_def) }
qed simp_all

section \<open>Upcalls and expiry, on routes and trace only\<close>

definition route_of :: "in6_addr \<Rightarrow> in6_addr \<Rightarrow> kernel_route6" where
  "route_of src grp = \<lparr>kr_src = src, kr_grp = grp, kr_parent = 0\<rparr>"

lemma route_key_of [simp]: "route_key (route_of src grp) = (src, grp)" "kr_parent (route_of src grp) = 0" "kr_grp (route_of src grp) = grp"
  by (simp_all add: route_key_def route_of_def)

lemma route_key_mem: "route_of src grp \<in> set rs \<Longrightarrow> (src, grp) \<in> route_key ` set rs"
  by (metis image_eqI route_key_of(1))

lemma upcall_cases:
  assumes "mrouter6_handlesocket os fd buf c = Inr c'"
  obtains "c' = c"
  | src grp where "routable grp" "os_setsockopt os (c_trace c) (Mfc_add fd src grp) \<noteq> 0" "c' = emit (Mfc_add fd src grp) c"
  | src grp rs where "routable grp" "os_setsockopt os (c_trace c) (Mfc_add fd src grp) = 0" "c_routes c = Some rs"
      "c_routes c' = Some (if route_of src grp \<in> set rs then rs else rs @ [route_of src grp])" "c_trace c' = c_trace c @ [Mfc_add fd src grp]"
proof -
  let ?m = "take 40 buf"
  let ?src = "be_word (take 16 (drop 8 ?m)) :: in6_addr" and ?grp = "be_word (drop 24 ?m) :: in6_addr"
  let ?call = "Mfc_add fd ?src ?grp"
  have "40 \<le> length buf" using assms by (auto simp: mrouter6_handlesocket_def bindR_Inr_iff)
  then have r: "read_bytes buf 0 40 = Inr ?m" by simp
  have "mrouter6_handlesocket os fd buf c =
      (if ?m ! 0 = 0 \<and> routable ?grp \<and> ?m ! 2 = 0 \<and> ?m ! 3 = 0 \<and> check_route (c_downstream_id c) ?src ?grp c
       then if os_setsockopt os (c_trace c) ?call = 0
         then bindR (have_route 0 ?src ?grp (emit ?call c)) (\<lambda>have. if have then Inr (emit ?call c) else save_route 0 ?src ?grp (emit ?call c))
         else Inr (emit ?call c)
       else Inr c)"
    unfolding mrouter6_handlesocket_def r bindR_simps Let_def by (simp add: routable_def del: drop_take take_drop)
  then consider "c' = c" | "routable ?grp" "(if os_setsockopt os (c_trace c) ?call = 0
      then bindR (have_route 0 ?src ?grp (emit ?call c)) (\<lambda>have. if have then Inr (emit ?call c) else save_route 0 ?src ?grp (emit ?call c))
      else Inr (emit ?call c)) = Inr c'"
    using assms by (metis sum.inject(2))
  then show ?thesis
  proof cases
    case 2
    show ?thesis
    proof (cases "os_setsockopt os (c_trace c) ?call = 0")
      case True
      then obtain rs where rs: "c_routes c = Some rs" using 2(2) by (cases "c_routes c") (simp_all add: have_route_def emit_def)
      then have "have_route 0 ?src ?grp (emit ?call c) = Inr (route_of ?src ?grp \<in> set rs)"
        unfolding route_of_def by (intro have_route_iff) (simp add: emit_def)
      then show ?thesis
        using 2(2) True rs by (intro that(3) [OF 2(1) True rs]) (auto simp: save_route_def emit_def route_of_def split: if_splits)
    next
      case False
      then show ?thesis using 2 by (intro that(2) [OF 2(1) False]) simp
    qed
  qed (rule that(1))
qed

lemma expire_cases:
  assumes "expire_routes fd c = Inr c'"
  obtains rs keep del where "c_routes c = Some rs" "c_routes c' = Some keep" "mset keep + mset del = mset rs"
    "c_trace c' = c_trace c @ map (\<lambda>r. Mfc_del fd (kr_src r) (kr_grp r)) del"
proof -
  obtain rs where rs: "c_routes c = Some rs" using assms by (auto simp: expire_routes_def split: option.splits)
  obtain keep calls where e: "expire_list (\<lambda>r. check_route (c_downstream_id c) (kr_src r) (kr_grp r) c) fd rs = (keep, calls)" by fastforce
  from expire_list_spec [OF this] obtain del where "calls = map (\<lambda>r. Mfc_del fd (kr_src r) (kr_grp r)) del" "mset keep + mset del = mset rs" by blast
  then show ?thesis using that [OF rs] assms expire_routes_some [OF rs, of fd] e by auto
qed

section \<open>List and cache agree\<close>

definition mirrored :: "kernel_answers \<Rightarrow> conf \<Rightarrow> bool" where
  "mirrored answer c \<longleftrightarrow>
     (case c_routes c of
        None \<Rightarrow> kernel_mfc answer (c_trace c) = {}
      | Some rs \<Rightarrow> distinct rs \<and> (\<forall>r \<in> set rs. kr_parent r = 0) \<and> route_key ` set rs \<subseteq> kernel_mfc answer (c_trace c)
          \<and> (deletes_succeed answer \<longrightarrow> kernel_mfc answer (c_trace c) \<subseteq> route_key ` set rs))"

lemma mirrored_upcall:
  assumes "mrouter6_handlesocket os fd buf c = Inr c'" and "mirrored (os_setsockopt os) c"
  shows "mirrored (os_setsockopt os) c'"
  using assms(1)
proof (cases rule: upcall_cases)
  case (2 src grp)
  then show ?thesis using assms(2) by (simp add: mirrored_def emit_def split: option.splits)
next
  case (3 src grp rs)
  then show ?thesis using assms(2) by (auto simp: mirrored_def route_key_mem)
qed (use assms in simp)

lemma mirrored_expire:
  assumes "expire_routes fd c = Inr c'" and "mirrored answer c"
  shows "mirrored answer c'"
proof -
  obtain rs keep del where e: "c_routes c = Some rs" "c_routes c' = Some keep" "mset keep + mset del = mset rs"
    "c_trace c' = c_trace c @ map (\<lambda>r. Mfc_del fd (kr_src r) (kr_grp r)) del"
    using assms(1) by (rule expire_cases)
  have rs: "distinct rs" "\<forall>r \<in> set rs. kr_parent r = 0" "route_key ` set rs \<subseteq> kernel_mfc answer (c_trace c)"
    "deletes_succeed answer \<Longrightarrow> kernel_mfc answer (c_trace c) \<subseteq> route_key ` set rs"
    using assms(2) e(1) by (simp_all add: mirrored_def)
  have m: "mset rs = mset (keep @ del)" using e(3) by simp
  then have s: "set rs = set keep \<union> set del" "distinct keep" "set keep \<inter> set del = {}"
    using rs(1) mset_eq_setD [OF m] mset_eq_imp_distinct_iff [OF m] by auto
  have inj: "inj_on route_key (set rs)" using rs(2) by (auto simp: inj_on_def route_key_def)
  have d: "route_key ` set keep \<inter> route_key ` set del = {}" using inj_on_image_Int [OF inj, of "set keep" "set del"] s by simp
  have u: "route_key ` set rs = route_key ` set keep \<union> route_key ` set del" unfolding s(1) by (rule image_Un)
  let ?K = "kernel_mfc answer (c_trace c)" and ?K' = "kernel_mfc answer (c_trace c')"
  have k: "?K - route_key ` set del \<subseteq> ?K'" "deletes_succeed answer \<Longrightarrow> ?K' = ?K - route_key ` set del"
    unfolding e(4) kernel_mfc_append by (rule mfc_run_deletes)+
  have "route_key ` set keep \<subseteq> ?K - route_key ` set del" using rs(3) d unfolding u by blast
  then have "route_key ` set keep \<subseteq> ?K'" using k(1) by (rule subset_trans)
  moreover have "?K' \<subseteq> route_key ` set keep" if "deletes_succeed answer" unfolding k(2) [OF that] using rs(4) [OF that] unfolding u by blast
  moreover have "\<forall>r \<in> set keep. kr_parent r = 0" using rs(2) s(1) by blast
  ultimately show ?thesis using s(2) by (simp add: mirrored_def e(2))
qed

lemma mirrored_handlers: "route_invariant os (mirrored (os_setsockopt os))"
proof (unfold_locales, goal_cases)
  case (2 c e)
  then show ?case by (cases "c_routes c") (simp_all add: mirrored_def emit_def mfc_step_other)
next
  case (1 c d)
  then show ?case by (cases "c_routes c") (simp_all add: mirrored_def)
qed (rule mirrored_upcall mirrored_expire; assumption)+

interpretation rm: daemon_route_invariant answer "mirrored answer" for answer
proof (rule daemon_route_invariant.intro)
  show "mirrored answer (init now)" for now by (simp add: mirrored_def init_def)
  show "mirrored answer c \<Longrightarrow> c_routes c = None \<Longrightarrow> mirrored answer (snd (mrouter_init s ret c))" for c s ret
    by (simp add: mirrored_def mrouter_init_def)
qed (use mirrored_handlers in blast)

section \<open>Only routable groups\<close>

definition only_routable :: "conf \<Rightarrow> bool" where
  "only_routable c \<longleftrightarrow> list_all (\<lambda>e. case e of Mfc_add fd src grp \<Rightarrow> routable grp | _ \<Rightarrow> True) (c_trace c)
     \<and> (case c_routes c of None \<Rightarrow> True | Some rs \<Rightarrow> list_all (\<lambda>r. routable (kr_grp r)) rs)"

lemma only_routable_handlers: "route_invariant os only_routable"
proof (unfold_locales, goal_cases)
  case (1 c d)
  then show ?case by (simp add: only_routable_def)
next
  case (2 c e)
  then show ?case by (cases e) (simp_all add: only_routable_def emit_def)
next
  case (3 fd buf c c')
  from 3(1) show ?case
  proof (cases rule: upcall_cases)
    case (2 src grp)
    then show ?thesis using 3(2) by (simp add: only_routable_def emit_def)
  next
    case up: (3 src grp rs)
    then show ?thesis using 3(2) by (simp add: only_routable_def)
  qed (use 3(2) in simp)
next
  case (4 fd c c')
  from 4(1) obtain rs keep del where e: "c_routes c = Some rs" "c_routes c' = Some keep" "mset keep + mset del = mset rs"
    "c_trace c' = c_trace c @ map (\<lambda>r. Mfc_del fd (kr_src r) (kr_grp r)) del" by (rule expire_cases)
  have "set keep \<subseteq> set rs" using mset_eq_setD [of rs "keep @ del"] e(3) by auto
  then show ?case using 4(2) e by (auto simp: only_routable_def list_all_iff)
qed

interpretation ro: daemon_route_invariant answer only_routable for answer
  by (rule daemon_route_invariant.intro) (auto simp: only_routable_handlers only_routable_def init_def mrouter_init_def)

section \<open>Properties\<close>

text \<open>
  C5. The route list is the kernel's forwarding cache: in every state the daemon reaches, the recorded routes are pairwise different, each is in
  the kernel and each is for a group that may be routed. If the kernel never refuses a deletion, it holds no other
  route (a refused one stays in the kernel while the daemon forgets it). No call ever asked for a route of a group that is not multicast, or of
  node-local or link-local scope.
\<close>

theorem routes_mirror_kernel:
  assumes "daemon_start answer s" and "(daemon_step answer)\<^sup>*\<^sup>* s (quit, c)" and "c_routes c = Some rs"
  shows "distinct (map route_key rs) \<and> route_key ` set rs \<subseteq> kernel_mfc answer (c_trace c)
    \<and> (deletes_succeed answer \<longrightarrow> kernel_mfc answer (c_trace c) = route_key ` set rs)
    \<and> (\<forall>r \<in> set rs. routable (kr_grp r)) \<and> (\<forall>fd src grp. Mfc_add fd src grp \<in> set (c_trace c) \<longrightarrow> routable grp)"
proof -
  have "mirrored answer c" using rm.dr.reachable_inv [OF assms(1,2)] by simp
  then have m: "distinct rs" "\<forall>r \<in> set rs. kr_parent r = 0" "route_key ` set rs \<subseteq> kernel_mfc answer (c_trace c)"
    "deletes_succeed answer \<longrightarrow> kernel_mfc answer (c_trace c) \<subseteq> route_key ` set rs"
    by (simp_all add: mirrored_def assms(3))
  have "only_routable c" using ro.dr.reachable_inv [OF assms(1,2)] by simp
  then have "\<forall>r \<in> set rs. routable (kr_grp r)" "\<forall>fd src grp. Mfc_add fd src grp \<in> set (c_trace c) \<longrightarrow> routable grp"
    by (auto simp: only_routable_def assms(3) list_all_iff)
  moreover have "distinct (map route_key rs)"
    using m(1,2) by (simp add: distinct_map inj_on_def route_key_def)
  ultimately show ?thesis using m(3,4) by blast
qed

theorem routes_mirror_kernel_witness:
  "\<exists>c rs. daemon_start (\<lambda>_ _. 0) (False, example_started) \<and> (daemon_step (\<lambda>_ _. 0))\<^sup>*\<^sup>* (False, example_started) (False, c)
    \<and> c_routes c = Some rs \<and> example_route \<in> set rs \<and> distinct (map route_key rs) \<and> kernel_mfc (\<lambda>_ _. 0) (c_trace c) = route_key ` set rs"
proof -
  obtain c rs where c: "(daemon_step (\<lambda>_ _. 0))\<^sup>*\<^sup>* (False, example_started) (False, c)" "c_routes c = Some rs" "example_route \<in> set rs"
    using example_run by blast
  have "deletes_succeed (\<lambda>_ _. 0)" by (simp add: deletes_succeed_def)
  with routes_mirror_kernel [OF example_started c(1,2)] c example_started show ?thesis by blast
qed

end
