(* ===== verification/Options.thy ===== *)
theory Options
  imports Daemon
begin

text \<open>
  The command line of the daemon: the option string and the table \<^verbatim>\<open>long_options\<close> of \<^verbatim>\<open>src/ecmh.c\<close>, and what
  \<^verbatim>\<open>getopt_long\<close> of the C library makes of an argument vector with them. Its result is the list of letters and arguments that the option
  loop of \<^verbatim>\<open>main\<close> (\<open>handle_options\<close>) works on.
\<close>

section \<open>The tables\<close>

definition optstring :: string where
  "optstring = ''fi:d:kpPu:'' @ ''vV'' @ ''12''"

text \<open>Name, whether an argument is required, letter. The two tunnel options are not in the option string of this build.\<close>

type_synonym long_option = "string \<times> bool \<times> char"

definition long_options :: "long_option list" where
  "long_options =
    [(''foreground'', False, CHR ''f''), (''upstream'', True, CHR ''i''), (''downstream'', True, CHR ''d''),
     (''kernel'', False, CHR ''k''), (''promisc'', False, CHR ''p''), (''nopromisc'', False, CHR ''P''),
     (''user'', True, CHR ''u''), (''tunnelmode'', False, CHR ''t''), (''notunnelmode'', False, CHR ''T''),
     (''verbose'', False, CHR ''v''), (''version'', False, CHR ''V''), (''mld1only'', False, CHR ''1''),
     (''mld2only'', False, CHR ''2'')]"

section \<open>getopt_long\<close>

text \<open>Whether a letter is an option, and if so whether it takes an argument.\<close>

fun takes_arg :: "string \<Rightarrow> char \<Rightarrow> bool option" where
  "takes_arg [] ch = None"
| "takes_arg (x # xs) ch = (if x = ch then Some (xs \<noteq> [] \<and> hd xs = CHR '':'') else takes_arg xs ch)"

text \<open>
  The letters after a single dash: flags may be joined, an argument is the rest of the word or the next word. A letter that is no
  option and an argument that is missing give \<^verbatim>\<open>?\<close>. The second component is what is left of the argument vector.
\<close>

fun getopt_short :: "string \<Rightarrow> string list \<Rightarrow> (char \<times> string) list \<times> string list" where
  "getopt_short [] argv = ([], argv)"
| "getopt_short (ch # cs) argv =
     (case if ch = CHR '':'' then None else takes_arg optstring ch of
        None \<Rightarrow> (case getopt_short cs argv of (opts, rest) \<Rightarrow> ((CHR ''?'', []) # opts, rest))
      | Some False \<Rightarrow> (case getopt_short cs argv of (opts, rest) \<Rightarrow> ((ch, []) # opts, rest))
      | Some True \<Rightarrow>
          if cs \<noteq> [] then ([(ch, cs)], argv)
          else (case argv of [] \<Rightarrow> ([(CHR ''?'', [])], []) | arg # argv \<Rightarrow> ([(ch, arg)], argv)))"

text \<open>A long name may be cut short as long as only one option begins with it.\<close>

definition find_long :: "string \<Rightarrow> long_option option" where
  "find_long name =
     (case find (\<lambda>(n, _). n = name) long_options of
        Some opt \<Rightarrow> Some opt
      | None \<Rightarrow> (case filter (\<lambda>(n, _). take (length name) n = name) long_options of [opt] \<Rightarrow> Some opt | _ \<Rightarrow> None))"

definition getopt_name :: "string \<Rightarrow> string list \<Rightarrow> (char \<times> string) \<times> string list" where
  "getopt_name word argv =
     (let name = takeWhile (\<lambda>ch. ch \<noteq> CHR ''='') word; val = dropWhile (\<lambda>ch. ch \<noteq> CHR ''='') word in
      case find_long name of
        None \<Rightarrow> ((CHR ''?'', []), argv)
      | Some (_, arg, letter) \<Rightarrow>
          if val \<noteq> [] then (if arg then ((letter, tl val), argv) else ((CHR ''?'', []), argv))
          else if arg then (case argv of [] \<Rightarrow> ((CHR ''?'', []), []) | a # argv \<Rightarrow> ((letter, a), argv))
          else ((letter, []), argv))"

lemma getopt_short_rest: "length (snd (getopt_short cs argv)) \<le> length argv"
proof (induction cs)
  case (Cons ch cs)
  then show ?case by (cases "getopt_short cs argv") (auto split: option.splits bool.splits list.splits)
qed simp

lemma getopt_name_rest: "length (snd (getopt_name word argv)) \<le> length argv"
  by (auto simp: getopt_name_def Let_def split: option.splits list.splits)

text \<open>The whole vector, without the name of the program: words that are no options are passed over, \<^verbatim>\<open>--\<close> ends the options.\<close>

function getopt_long :: "string list \<Rightarrow> (char \<times> string) list" where
  "getopt_long [] = []"
| "getopt_long (word # argv) =
     (if word = ''--'' then []
      else if take 2 word = ''--'' then (case getopt_name (drop 2 word) argv of (opt, rest) \<Rightarrow> opt # getopt_long rest)
      else if 2 \<le> length word \<and> hd word = CHR ''-'' then (case getopt_short (tl word) argv of (opts, rest) \<Rightarrow> opts @ getopt_long rest)
      else getopt_long argv)"
  by pat_completeness auto
termination
proof (relation "measure length", goal_cases)
  case (2 word argv opt rest)
  then show ?case using getopt_name_rest [of "drop 2 word" argv] by (metis in_measure le_imp_less_Suc length_Cons snd_conv)
next
  case (3 word argv opts rest)
  then show ?case using getopt_short_rest [of "tl word" argv] by (metis in_measure le_imp_less_Suc length_Cons snd_conv)
qed simp_all

text \<open>The command line as \<^verbatim>\<open>main\<close> handles it: an exit code, or the configuration with the user and group to become.\<close>

definition command_line :: "(string \<Rightarrow> (nat \<times> nat) option) \<Rightarrow> time_t \<Rightarrow> string list \<Rightarrow> int + (conf \<times> nat \<times> nat)" where
  "command_line getpwnam now argv = handle_options getpwnam (getopt_long argv) (init now, 0, 0)"

section \<open>Spelling an option\<close>

datatype spelling = Short | Joined | Long | Long_eq

type_synonym option_use = "spelling \<times> long_option \<times> string"

fun spell :: "option_use \<Rightarrow> string list" where
  "spell (Short, (name, arg, letter), a) = [CHR ''-'', letter] # (if arg then [a] else [])"
| "spell (Joined, (name, arg, letter), a) = [CHR ''-'' # letter # a]"
| "spell (Long, (name, arg, letter), a) = (''--'' @ name) # (if arg then [a] else [])"
| "spell (Long_eq, (name, arg, letter), a) = [''--'' @ name @ (if arg then CHR ''='' # a else [])]"

definition letter_of :: "option_use \<Rightarrow> char \<times> string" where
  "letter_of u = (case u of (sp, (name, arg, letter), a) \<Rightarrow> (letter, a))"

text \<open>A sensible use: an option of the table that this build has, with an argument only if it takes one, and not an empty one joined.\<close>

definition valid_use :: "option_use \<Rightarrow> bool" where
  "valid_use u = (case u of (sp, (name, arg, letter), a) \<Rightarrow>
     (name, arg, letter) \<in> set long_options \<and> letter \<notin> {CHR ''t'', CHR ''T''} \<and> (\<not> arg \<longrightarrow> a = []) \<and> (arg \<and> sp = Joined \<longrightarrow> a \<noteq> []))"

definition entry_agrees :: "long_option \<Rightarrow> bool" where
  "entry_agrees opt = (case opt of (name, arg, letter) \<Rightarrow>
     takes_arg optstring letter = Some arg \<and> letter \<noteq> CHR '':'' \<and> letter \<noteq> CHR ''-'' \<and> find_long name = Some opt
     \<and> name \<noteq> [] \<and> CHR ''='' \<notin> set name)"

lemma table_agrees_all: "list_all entry_agrees (filter (\<lambda>(_, _, letter). letter \<notin> {CHR ''t'', CHR ''T''}) long_options)"
  by code_simp

lemma table_agrees:
  assumes "(name, arg, letter) \<in> set long_options" and "letter \<notin> {CHR ''t'', CHR ''T''}"
  shows "takes_arg optstring letter = Some arg" "letter \<noteq> CHR '':''" "find_long name = Some (name, arg, letter)"
    "CHR ''='' \<notin> set name" "letter \<noteq> CHR ''-''" "name \<noteq> []"
proof -
  have "entry_agrees (name, arg, letter)" using table_agrees_all assms by (auto simp: list_all_iff)
  then show "takes_arg optstring letter = Some arg" "letter \<noteq> CHR '':''" "find_long name = Some (name, arg, letter)"
    "CHR ''='' \<notin> set name" "letter \<noteq> CHR ''-''" "name \<noteq> []"
    by (simp_all add: entry_agrees_def)
qed

lemma getopt_spelled:
  assumes "valid_use u"
  shows "getopt_long (spell u @ argv) = letter_of u # getopt_long argv"
proof -
  obtain sp name arg letter a where u: "u = (sp, (name, arg, letter), a)" by (metis prod_cases3)
  have v: "(name, arg, letter) \<in> set long_options" "letter \<notin> {CHR ''t'', CHR ''T''}" "\<not> arg \<Longrightarrow> a = []" "arg \<Longrightarrow> sp = Joined \<Longrightarrow> a \<noteq> []"
    using assms by (auto simp: valid_use_def u)
  note t = table_agrees [OF v(1,2)]
  have n: "takeWhile (\<lambda>ch. ch \<noteq> CHR ''='') name = name" "dropWhile (\<lambda>ch. ch \<noteq> CHR ''='') name = []"
    using t(4) by (auto simp: takeWhile_eq_all_conv)
  have eq: "takeWhile (\<lambda>ch. ch \<noteq> CHR ''='') (name @ CHR ''='' # a) = name" "dropWhile (\<lambda>ch. ch \<noteq> CHR ''='') (name @ CHR ''='' # a) = CHR ''='' # a"
    using t(4) by (auto simp: takeWhile_append dropWhile_append)
  show ?thesis
    by (cases sp; cases arg) (use v(3,4) in \<open>simp_all add: u letter_of_def t getopt_name_def n eq\<close>)
qed

section \<open>Properties\<close>

text \<open>
  C39. Every sensible command line is understood as it was meant: whatever spelling each option is given in (a letter, a letter with its argument
  joined, the long name, the long name with \<^verbatim>\<open>=\<close>), and with words that are no options behind them, the option loop gets exactly the letters
  and arguments in order. So the table of long names and the option string say the same of every option of this build.
\<close>

theorem command_line_spelling:
  assumes "list_all valid_use uses" and "list_all (\<lambda>word. word = [] \<or> hd word \<noteq> CHR ''-'') words"
  shows "getopt_long (concat (map spell uses) @ words) = map letter_of uses
    \<and> command_line getpwnam now (concat (map spell uses) @ words) = handle_options getpwnam (map letter_of uses) (init now, 0, 0)"
proof -
  have w: "getopt_long words = []" using assms(2)
  proof (induction words)
    case (Cons word words)
    then show ?case by (cases word; cases "tl word") auto
  qed simp
  have "getopt_long (concat (map spell uses) @ words) = map letter_of uses"
    using assms(1) by (induction uses) (simp_all add: w getopt_spelled)
  then show ?thesis by (simp add: command_line_def)
qed

theorem command_line_spelling_witness:
  "getopt_long [''--upstream=eth0'', ''-deth1'', ''--kernel'', ''-u'', ''nobody'', ''x'']
     = [(CHR ''i'', ''eth0''), (CHR ''d'', ''eth1''), (CHR ''k'', []), (CHR ''u'', ''nobody'')]"
  using command_line_spelling [of "[(Long_eq, (''upstream'', True, CHR ''i''), ''eth0''), (Joined, (''downstream'', True, CHR ''d''), ''eth1''),
      (Long, (''kernel'', False, CHR ''k''), []), (Short, (''user'', True, CHR ''u''), ''nobody'')]" "[''x'']" "\<lambda>_. None" 0]
  by (simp add: valid_use_def long_options_def letter_of_def)

text \<open>
  The table still has the tunnel options of the BPF build: \<^verbatim>\<open>getopt_long\<close> accepts them here, and \<^verbatim>\<open>main\<close> then prints its usage and exits with -1,
  as for a name that is cut so short that it fits two options.
\<close>

lemma tunnelmode_refused:
  "command_line getpwnam now (''--tunnelmode'' # argv) = Inl (-1)" "command_line getpwnam now (''--ver'' # argv) = Inl (-1)"
  "command_line getpwnam now (''--verb'' # ''-V'' # argv) = Inl 0"
  by (simp_all add: command_line_def getopt_name_def find_long_def long_options_def handle_option_def optstring_def)

end
