(* ===== verification/Bpf.thy ===== *)
theory Bpf
  imports Mld_input Checksum
begin

text \<open>
  The other build of the daemon, \<^verbatim>\<open>ECMH_BPF\<close>: one packet filter device per interface instead of one packet socket, and tunnels (IPv6 in
  IPv4, protocol 41) that are taken apart and put together by the daemon itself. What differs from the Linux build is modelled:
  \<^verbatim>\<open>int_create_bpf\<close>, \<^verbatim>\<open>int_find_ipv4\<close> and the list of local addresses of \<^verbatim>\<open>src/interfaces.c\<close>; in \<^verbatim>\<open>src/ecmh.c\<close> the BPF halves of \<^verbatim>\<open>sendpacket6\<close>,
  \<^verbatim>\<open>update_interfaces\<close> and \<^verbatim>\<open>handleinterfaces\<close>, and \<^verbatim>\<open>l4_ipv4_proto41\<close>. A handler of this build that the others call back into
  (\<^verbatim>\<open>l2_ethtype\<close>, \<^verbatim>\<open>update_interfaces\<close>) is an argument. A pointer to an interface is its position, as everywhere. Pointers are 64 bits wide.
\<close>

section \<open>State\<close>

record bpfnode =
  b_socket :: int
  b_dlt :: nat
  b_bufferlen :: nat
  b_master :: "nat option"
  b_ipv4_local :: "u32 list"
  b_ipv4_remote :: u32

datatype bio = Writev int bytes | Close_dev int

record bconf =
  b_conf :: conf
  b_nodes :: "bpfnode list"
  b_locals :: "nat list"
  b_tunnelmode :: bool
  b_selectset :: "int set"
  b_hifd :: int
  b_trace :: "bio list"

abbreviation (input) INTNODE_MAXIPV4 :: nat where "INTNODE_MAXIPV4 \<equiv> 4"
abbreviation (input) DLT_NULL :: nat where "DLT_NULL \<equiv> 0"
abbreviation (input) DLT_EN10MB :: nat where "DLT_EN10MB \<equiv> 1"
abbreviation (input) IPPROTO_IPV6 :: u8 where "IPPROTO_IPV6 \<equiv> 41"
abbreviation (input) ETH_P_IPV6 :: nat where "ETH_P_IPV6 \<equiv> 0x86dd"

abbreviation bpf_at :: "bconf \<Rightarrow> nat \<Rightarrow> bpfnode" where
  "bpf_at c i \<equiv> b_nodes c ! i"

definition upd_bpf :: "nat \<Rightarrow> (bpfnode \<Rightarrow> bpfnode) \<Rightarrow> bconf \<Rightarrow> bconf" where
  "upd_bpf i f c = c\<lparr>b_nodes := (b_nodes c)[i := f (b_nodes c ! i)]\<rparr>"

definition upd_conf :: "(conf \<Rightarrow> conf) \<Rightarrow> bconf \<Rightarrow> bconf" where
  "upd_conf f c = c\<lparr>b_conf := f (b_conf c)\<rparr>"

definition int_destroy_bpf :: "nat \<Rightarrow> bconf \<Rightarrow> bconf" where
  "int_destroy_bpf i c =
     (let s = b_socket (bpf_at c i);
          c = (if s \<noteq> -1 then upd_bpf i (\<lambda>n. n\<lparr>b_socket := -1\<rparr>) (c\<lparr>b_trace := b_trace c @ [Close_dev s]\<rparr>) else c) in
      upd_conf (int_destroy i) c)"

section \<open>IPv4 addresses of an interface\<close>

text \<open>
  The words of memory from \<^verbatim>\<open>ipv4_local[0]\<close> on: the four local addresses, the remote one, and behind it the link-local IPv6 address of
  the same structure. The comparisons and copies below run over more than one address, so the order matters.
\<close>

definition ll_words :: "in6_addr \<Rightarrow> u32 list" where
  "ll_words a = map (\<lambda>k. ucast (drop_bit (32 * (3 - k)) a)) [0..<4]"

definition addr_words :: "bconf \<Rightarrow> nat \<Rightarrow> u32 list" where
  "addr_words c i = b_ipv4_local (bpf_at c i) @ [b_ipv4_remote (bpf_at c i)] @ ll_words (in_linklocal (int_at (b_conf c) i))"

text \<open>\<^verbatim>\<open>sizeof(ipv4)\<close> is the size of a pointer: eight bytes are compared, two words from \<open>num\<close> on.\<close>

definition pair_at :: "bconf \<Rightarrow> nat \<Rightarrow> nat \<Rightarrow> u32 \<times> u32" where
  "pair_at c i num = (addr_words c i ! num, addr_words c i ! Suc num)"

text \<open>The second argument is the address looked for and the word behind it in the memory of the caller.\<close>

definition int_find_ipv4 :: "bool \<Rightarrow> u32 \<times> u32 \<Rightarrow> bconf \<Rightarrow> nat option" where
  "int_find_ipv4 local ipv4 c =
     find (\<lambda>i. in_mtu (int_at (b_conf c) i) \<noteq> 0
              \<and> (if local then list_ex (\<lambda>num. pair_at c i num = ipv4) [0..<INTNODE_MAXIPV4] else pair_at c i INTNODE_MAXIPV4 = ipv4))
       [0..<length (c_ints (b_conf c))]"

definition local_find :: "u32 \<times> u32 \<Rightarrow> bconf \<Rightarrow> nat option" where
  "local_find ipv4 c = index_of (\<lambda>i. list_ex (\<lambda>num. pair_at c i num = ipv4) [0..<INTNODE_MAXIPV4]) (b_locals c)"

definition local_update :: "nat \<Rightarrow> bconf \<Rightarrow> bconf" where
  "local_update i c =
     fold (\<lambda>num c. if fst (pair_at c i num) = 0 then c
                   else if local_find (pair_at c i num) c \<noteq> None then c
                   else c\<lparr>b_locals := b_locals c @ [i]\<rparr>) [0..<INTNODE_MAXIPV4] c"

definition local_remove :: "nat \<Rightarrow> bconf \<Rightarrow> bconf" where
  "local_remove i c = (case local_find (pair_at c i 0) c of None \<Rightarrow> c | Some p \<Rightarrow> c\<lparr>b_locals := remove_nth p (b_locals c)\<rparr>)"

section \<open>Opening a device\<close>

datatype open_result = Opened nat | Open_EBUSY | Open_error

record bos =
  bo_open :: "nat \<Rightarrow> open_result"
  bo_setif :: "int \<Rightarrow> string \<Rightarrow> bool"
  bo_promisc :: "int \<Rightarrow> bool"
  bo_nonblock :: "int \<Rightarrow> bool"
  bo_immediate :: "int \<Rightarrow> bool"
  bo_dlt :: "int \<Rightarrow> nat option"
  bo_blen :: "int \<Rightarrow> nat option"
  bo_malloc :: "nat \<Rightarrow> bool"
  bo_socket :: bool
  bo_phyaddr :: "string \<Rightarrow> ((u32 \<times> u32) \<times> u32) option"

text \<open>
  The loop over \<^verbatim>\<open>/dev/bpf0\<close>, \<^verbatim>\<open>/dev/bpf1\<close>, ... ends with the first device that is not busy; the value is the
  descriptor, -1 when the open failed for another reason, and \<open>None\<close> when the loop does not end.
\<close>

partial_function (option) open_bpf :: "(nat \<Rightarrow> open_result) \<Rightarrow> nat \<Rightarrow> int option" where
  "open_bpf open_dev i =
     (case open_dev i of Opened fd \<Rightarrow> Some (int fd) | Open_error \<Rightarrow> Some (-1) | Open_EBUSY \<Rightarrow> open_bpf open_dev (Suc i))"

text \<open>
  \<^verbatim>\<open>int_create_bpf\<close>, first the device, then the tunnel. \<open>Inl\<close> is \<^verbatim>\<open>exit\<close>. The call of \<^verbatim>\<open>int_find_ipv4\<close> has a third argument
  that the function does not take; \<open>bo_phyaddr\<close> gives source (with the word behind it) and destination of the tunnel.
\<close>

definition create_device :: "bos \<Rightarrow> nat \<Rightarrow> int \<Rightarrow> bconf \<Rightarrow> int + bool \<times> bconf" where
  "create_device bos i fd c =
     (let c = upd_bpf i (\<lambda>n. n\<lparr>b_socket := fd\<rparr>) c in
      if fd < 0 then Inr (False, c)
      else if \<not> bo_setif bos fd (in_name (int_at (b_conf c) i)) then Inr (False, c)
      else if c_promisc (b_conf c) \<and> \<not> bo_promisc bos fd then Inr (False, c)
      else if \<not> bo_nonblock bos fd then Inr (False, c)
      else if \<not> bo_immediate bos fd then Inr (False, c)
      else (case bo_dlt bos fd of
          None \<Rightarrow> Inr (False, c)
        | Some dlt \<Rightarrow>
            let c = upd_bpf i (\<lambda>n. n\<lparr>b_dlt := dlt\<rparr>) c in
            if dlt \<noteq> DLT_NULL \<and> dlt \<noteq> DLT_EN10MB then Inr (False, c)
            else (case bo_blen bos fd of
                None \<Rightarrow> Inr (False, c)
              | Some len \<Rightarrow>
                  let c = upd_bpf i (\<lambda>n. n\<lparr>b_bufferlen := len\<rparr>) c in
                  if len > c_bufferlen (b_conf c) \<and> \<not> bo_malloc bos len then Inl (-1)
                  else
                    let c = (if len > c_bufferlen (b_conf c) then upd_conf (\<lambda>d. d\<lparr>c_bufferlen := len\<rparr>) c else c) in
                    Inr (True, c\<lparr>b_selectset := insert fd (b_selectset c), b_hifd := max fd (b_hifd c)\<rparr>))))"

definition create_tunnel :: "bos \<Rightarrow> nat \<Rightarrow> bconf \<Rightarrow> bool \<times> bconf" where
  "create_tunnel bos i c =
     (if \<not> bo_socket bos then (False, c)
      else (case bo_phyaddr bos (in_name (int_at (b_conf c) i)) of
          None \<Rightarrow> (False, c)
        | Some (src, dst) \<Rightarrow>
            let master = int_find_ipv4 True src c; c = upd_bpf i (\<lambda>n. n\<lparr>b_master := master\<rparr>) c in
            if master = None then (False, c)
            else (True, upd_bpf i (\<lambda>n. n\<lparr>b_ipv4_local := (b_ipv4_local n)[0 := fst src], b_ipv4_remote := dst\<rparr>) c)))"

definition int_create_bpf :: "bos \<Rightarrow> nat \<Rightarrow> bool \<Rightarrow> bconf \<Rightarrow> (int + bool \<times> bconf) option" where
  "int_create_bpf bos i tunnel c =
     (if \<not> b_tunnelmode c \<or> \<not> tunnel then
        let s = b_socket (bpf_at c i) in
        map_option (\<lambda>fd. create_device bos i fd c) (if s < 0 then open_bpf (bo_open bos) 0 else Some s)
      else Some (Inr (create_tunnel bos i c)))"

definition bpf_zero :: bpfnode where
  "bpf_zero = \<lparr>b_socket = 0, b_dlt = 0, b_bufferlen = 0, b_master = None, b_ipv4_local = [0, 0, 0, 0], b_ipv4_remote = 0\<rparr>"

text \<open>
  \<^verbatim>\<open>int_create\<close> of this build; what the Linux build asks about the hardware is gone, and the device comes before the marking.
\<close>

definition int_create_b :: "os \<Rightarrow> bos \<Rightarrow> ifindex \<Rightarrow> bool \<Rightarrow> bconf \<Rightarrow> (int + nat option \<times> bconf) res option" where
  "int_create_b os bos ifindex tunnel c =
     (let c = upd_conf (int_resize ifindex) c;
          c = c\<lparr>b_nodes := b_nodes c @ replicate (length (c_ints (b_conf c)) - length (b_nodes c)) bpf_zero\<rparr>;
          i = ifindex; failed = (\<lambda>c. Some (Inr (Inr (None, int_destroy_bpf i c)))) in
      if \<not> os_ioctl_socket os (c_trace (b_conf c)) then Some (Inr (Inr (None, c)))
      else
        let c = upd_conf (upd_int i (\<lambda>_. int_zero\<lparr>in_ifindex := ifindex, in_mld_version := 0\<rparr>)) c;
            c = upd_bpf i (\<lambda>_. bpf_zero\<lparr>b_socket := -1\<rparr>) c in
        (case os_indextoname os ifindex of
           None \<Rightarrow> failed c
         | Some name \<Rightarrow>
             let c = upd_conf (upd_int i (\<lambda>n. n\<lparr>in_name := name\<rparr>)) c in
             (case os_ifmtu os name of
                None \<Rightarrow> failed c
              | Some mtu \<Rightarrow>
                  let c = upd_conf (upd_int i (\<lambda>n. n\<lparr>in_mtu := mtu\<rparr>)) c in
                  (case c_upstream (b_conf c) of
                     None \<Rightarrow> Some (Inl Null_deref)
                   | Some up \<Rightarrow>
                       if name \<noteq> up \<and> c_downstream (b_conf c) = None then Some (Inl Null_deref)
                       else if \<not> (name = up \<or> c_downstream (b_conf c) = Some name) then failed c
                       else (case int_create_bpf bos i tunnel c of
                           None \<Rightarrow> None
                         | Some (Inl e) \<Rightarrow> Some (Inr (Inl e))
                         | Some (Inr (ok, c)) \<Rightarrow>
                             if \<not> ok then failed c else Some (Inr (Inr (Some i, upd_conf (int_mark i) c))))))))"

section \<open>Sending\<close>

definition ipv4_header :: "u16 \<Rightarrow> u16 \<Rightarrow> u32 \<Rightarrow> u32 \<Rightarrow> bytes" where
  "ipv4_header len ip_sum src dst =
     [0x45, 0] @ be_bytes 2 (len + 20) @ be_bytes 2 (42 :: u16) @ [0, 0] @ [100, IPPROTO_IPV6] @ le_bytes16 ip_sum
       @ be_bytes 4 src @ be_bytes 4 dst"

definition tunnel_checksum :: "bytes \<Rightarrow> u16" where
  "tunnel_checksum hdr =
     (let chksum = ucast (inchksum hdr) :: u32;
          chksum = drop_bit 16 chksum + (chksum AND 0xffff);
          chksum = chksum + drop_bit 16 chksum;
          r = ucast (NOT chksum) :: u16 in
      if r = 0 then 0xffff else r)"

definition tunnel_header :: "bpfnode \<Rightarrow> u16 \<Rightarrow> bytes" where
  "tunnel_header n len =
     (let src = b_ipv4_local n ! 0; dst = b_ipv4_remote n in
      ipv4_header len (tunnel_checksum (ipv4_header len 0 src dst)) src dst)"

definition sendpacket6_bpf :: "(bio list \<Rightarrow> bio \<Rightarrow> send_result) \<Rightarrow> nat \<Rightarrow> bytes \<Rightarrow> u16 \<Rightarrow> bconf \<Rightarrow> bconf res" where
  "sendpacket6_bpf writev i iph len c =
     bindR (read_bytes iph 24 16) (\<lambda>ip6_dst.
     bindR (read_bytes iph 0 (unat len)) (\<lambda>data.
       let hosts = eth_multicast ip6_dst @ replicate 6 0;
           call = (case if b_tunnelmode c then b_master (bpf_at c i) else None of
                     None \<Rightarrow> Writev (b_socket (bpf_at c i)) (hosts @ [0x86, 0xdd] @ data)
                   | Some m \<Rightarrow> Writev (b_socket (bpf_at c m)) (hosts @ [0x08, 0x00] @ tunnel_header (bpf_at c i) len @ data));
           sent = writev (b_trace c) call;
           c = c\<lparr>b_trace := b_trace c @ [call]\<rparr> in
       Inr (case sent of Send_ENXIO \<Rightarrow> int_destroy_bpf i c | _ \<Rightarrow> upd_conf (after_send i len sent) c)))"

section \<open>Receiving\<close>

text \<open>\<open>packet\<close> is the memory behind the IPv4 header; the pair is \<^verbatim>\<open>ip_src\<close> with \<^verbatim>\<open>ip_dst\<close>, which lies behind it.\<close>

definition l4_ipv4_proto41 :: "(nat \<Rightarrow> bytes \<Rightarrow> nat \<Rightarrow> nat \<Rightarrow> bconf \<Rightarrow> bconf res) \<Rightarrow> (bconf \<Rightarrow> bconf res)
    \<Rightarrow> u32 \<times> u32 \<Rightarrow> bytes \<Rightarrow> u16 \<Rightarrow> bconf \<Rightarrow> bconf res" where
  "l4_ipv4_proto41 l2 update ip packet len c =
     (if \<not> b_tunnelmode c then Inr c
      else if local_find ip c \<noteq> None then Inr c
      else
        bindR (case int_find_ipv4 False ip c of
                 Some tun \<Rightarrow> Inr (Some tun, c)
               | None \<Rightarrow> bindR (update c) (\<lambda>c. Inr (int_find_ipv4 False ip c, c))) (\<lambda>(tun, c).
          case tun of None \<Rightarrow> Inr c | Some tun \<Rightarrow> l2 tun packet (unat len) ETH_P_IPV6 c))"

definition l3_ipv4_bpf :: "(nat \<Rightarrow> bytes \<Rightarrow> nat \<Rightarrow> nat \<Rightarrow> bconf \<Rightarrow> bconf res) \<Rightarrow> (bconf \<Rightarrow> bconf res)
    \<Rightarrow> bytes \<Rightarrow> u16 \<Rightarrow> bconf \<Rightarrow> bconf res" where
  "l3_ipv4_bpf l2 update iph len c =
     bindR (read_bytes iph 0 20) (\<lambda>h.
       let hl = unat (h ! 0 AND 0x0f) in
       if drop_bit 4 (h ! 0) \<noteq> 4 then Inr c
       else if hl < 5 then Inr c
       else if take 4 (drop 12 h) = [0xc0, 0x58, 0x63, 0x01] \<or> drop 16 h = [0xc0, 0x58, 0x63, 0x01] then Inr c
       else if h ! 9 = IPPROTO_IPV6
       then l4_ipv4_proto41 l2 update (be_word (take 4 (drop 12 h)), be_word (drop 16 h)) (drop (4 * hl) iph) (len - of_nat (4 * hl)) c
       else Inr c)"

text \<open>
  Storing an IPv4 address of an interface: \<open>ws\<close> are the words from \<^verbatim>\<open>ipv4_local[0]\<close> on, \<open>addr\<close> the four words of the variable \<^verbatim>\<open>addr\<close>, a
  \<^verbatim>\<open>struct in6_addr\<close> filled from a \<^verbatim>\<open>struct sockaddr_in\<close>. Copy and comparison both take sixteen bytes. The flag
  \<^verbatim>\<open>gotipv4\<close> starts out false, as it does whenever all interfaces are updated.
\<close>

definition put_words :: "nat \<Rightarrow> u32 list \<Rightarrow> u32 list \<Rightarrow> u32 list" where
  "put_words num addr ws = take num ws @ addr @ drop (num + 4) ws"

function update_ipv4 :: "bool \<Rightarrow> u32 list \<Rightarrow> nat \<Rightarrow> u32 list \<Rightarrow> u32 list \<times> bool" where
  "update_ipv4 ptp addr num ws =
     (if num \<ge> INTNODE_MAXIPV4 then (ws, False)
      else if ws ! num = 0 then (put_words num addr ws, True)
      else if take 4 (drop num ws) = addr then (ws, False)
      else if ptp then (ws, False)
      else update_ipv4 ptp addr (Suc num) ws)"
  by pat_completeness auto
termination
  by (relation "measure (\<lambda>(ptp, addr, num, ws). 4 - num)") auto

declare update_ipv4.simps [simp del]

definition ll_of_words :: "u32 list \<Rightarrow> in6_addr" where
  "ll_of_words ws = be_word (concat (map (be_bytes 4) ws))"

definition set_ipv4_address :: "nat \<Rightarrow> bool \<Rightarrow> u32 list \<Rightarrow> bconf \<Rightarrow> bconf" where
  "set_ipv4_address i ptp addr c =
     (let (ws, gotipv4) = update_ipv4 ptp addr 0 (addr_words c i);
          c = upd_bpf i (\<lambda>n. n\<lparr>b_ipv4_local := take 4 ws, b_ipv4_remote := ws ! 4\<rparr>) c;
          c = upd_conf (upd_int i (\<lambda>n. n\<lparr>in_linklocal := ll_of_words (drop 5 ws)\<rparr>)) c in
      if gotipv4 \<and> \<not> ptp then local_update i c else c)"

text \<open>
  What \<^verbatim>\<open>read\<close> leaves in the buffer is a sequence of packets with a \<^verbatim>\<open>struct bpf_hdr\<close> each (time stamp, captured length, length, length of the
  header with its padding). The end of the loop is computed from the captured length of the first packet.
\<close>

definition le_nat :: "bytes \<Rightarrow> nat" where
  "le_nat bs = be_nat (rev bs)"

definition bpf_hdr :: "bytes \<Rightarrow> nat \<Rightarrow> (nat \<times> nat) res" where
  "bpf_hdr mem bp = bindR (read_bytes mem bp 26) (\<lambda>h. Inr (le_nat (take 4 (drop 16 h)), le_nat (take 2 (drop 24 h))))"

definition BPF_WORDALIGN :: "nat \<Rightarrow> nat" where
  "BPF_WORDALIGN x = (x + 7) div 8 * 8"

definition count_bpf :: "nat \<Rightarrow> nat \<Rightarrow> bconf \<Rightarrow> bconf" where
  "count_bpf i caplen = upd_conf (upd_int i (\<lambda>n. n\<lparr>in_stat_packets_received := in_stat_packets_received n + 1,
     in_stat_bytes_received := in_stat_bytes_received n + of_nat caplen\<rparr>))"

partial_function (option) bpf_packets :: "(nat \<Rightarrow> bytes \<Rightarrow> nat \<Rightarrow> bconf \<Rightarrow> bconf res) \<Rightarrow> nat \<Rightarrow> bytes \<Rightarrow> nat \<Rightarrow> nat \<Rightarrow> bconf \<Rightarrow> bconf res option" where
  "bpf_packets l2 i mem ep bp c =
     (if bp < ep then
        (case bpf_hdr mem bp of Inl e \<Rightarrow> Some (Inl e)
         | Inr (caplen, hdrlen) \<Rightarrow>
             (case l2 i (drop (bp + hdrlen) mem) caplen (count_bpf i caplen c) of Inl e \<Rightarrow> Some (Inl e)
              | Inr c \<Rightarrow> bpf_packets l2 i mem ep (bp + BPF_WORDALIGN (caplen + hdrlen)) c))
      else Some (Inr c))"

definition read_interface :: "(nat \<Rightarrow> bytes \<Rightarrow> nat \<Rightarrow> bconf \<Rightarrow> bconf res) \<Rightarrow> nat \<Rightarrow> bytes \<Rightarrow> bconf \<Rightarrow> bconf res option" where
  "read_interface l2 i mem c =
     (case bpf_hdr mem 0 of Inl e \<Rightarrow> Some (Inl e) | Inr (caplen, hdrlen) \<Rightarrow> bpf_packets l2 i mem caplen 0 c)"

text \<open>
  \<open>ready\<close>: for the interfaces whose descriptor is set, what \<^verbatim>\<open>read\<close> gives, \<open>None\<close> on failure. The loop returns \<open>False\<close> when a read fails.
\<close>

fun read_interfaces :: "(nat \<Rightarrow> bytes \<Rightarrow> nat \<Rightarrow> bconf \<Rightarrow> bconf res) \<Rightarrow> (int \<Rightarrow> bytes option option) \<Rightarrow> nat list \<Rightarrow> bconf \<Rightarrow> (bool \<times> bconf) res option" where
  "read_interfaces l2 ready [] c = Some (Inr (True, c))"
| "read_interfaces l2 ready (i # is) c =
     (if in_mtu (int_at (b_conf c) i) = 0 \<or> b_socket (bpf_at c i) = -1 then read_interfaces l2 ready is c
      else (case ready (b_socket (bpf_at c i)) of
          None \<Rightarrow> read_interfaces l2 ready is c
        | Some None \<Rightarrow> Some (Inr (False, c))
        | Some (Some mem) \<Rightarrow>
            (case read_interface l2 i mem c of None \<Rightarrow> None
             | Some (Inl e) \<Rightarrow> Some (Inl e)
             | Some (Inr c) \<Rightarrow> read_interfaces l2 ready is c)))"

text \<open>
  \<open>r\<close> is the result of \<^verbatim>\<open>select\<close>, stored in an \<^verbatim>\<open>unsigned int\<close> and then compared with 0; \<open>ready\<close> answers for the descriptors that the set has
  afterwards.
\<close>

definition handleinterfaces_bpf :: "(nat \<Rightarrow> bytes \<Rightarrow> nat \<Rightarrow> bconf \<Rightarrow> bconf res) \<Rightarrow> int \<Rightarrow> bool \<Rightarrow> (int \<Rightarrow> bytes option option) \<Rightarrow> bconf \<Rightarrow> (bool \<times> bconf) res option" where
  "handleinterfaces_bpf l2 r eintr ready c =
     (let i = of_int r :: u32 in
      if i < 0 then Some (Inr (eintr, c))
      else if i = 0 then Some (Inr (True, c))
      else read_interfaces l2 ready [0..<length (c_ints (b_conf c))] c)"

text \<open>So a failed \<^verbatim>\<open>select\<close> is not noticed, and the descriptors are read.\<close>

lemma select_error_unnoticed:
  "handleinterfaces_bpf l2 (-1) eintr ready c = read_interfaces l2 ready [0..<length (c_ints (b_conf c))] c"
  by (simp add: handleinterfaces_bpf_def)

section \<open>Opening a device, again\<close>

text \<open>The loop ends when a device is not busy, with the first one that is not.\<close>

lemma open_bpf_first:
  assumes "open_dev (i + n) \<noteq> Open_EBUSY" and "\<forall>k < n. open_dev (i + k) = Open_EBUSY"
  shows "open_bpf open_dev i = Some (case open_dev (i + n) of Opened fd \<Rightarrow> int fd | _ \<Rightarrow> -1)"
  using assms
proof (induction n arbitrary: i)
  case 0
  then show ?case by (subst open_bpf.simps) (auto split: open_result.splits)
next
  case (Suc n)
  have "open_dev i = Open_EBUSY" using Suc.prems(2) by force
  moreover have "open_bpf open_dev (Suc i) = Some (case open_dev (Suc i + n) of Opened fd \<Rightarrow> int fd | _ \<Rightarrow> -1)"
  proof (rule Suc.IH)
    show "\<forall>k < n. open_dev (Suc i + k) = Open_EBUSY" using Suc.prems(2) by (metis Suc_less_eq add_Suc_right add_Suc_shift)
  qed (use Suc.prems(1) in simp)
  ultimately show ?case by (subst open_bpf.simps) simp
qed

text \<open>What the two halves of \<^verbatim>\<open>int_create_bpf\<close> leave in the node.\<close>

lemma upd_bpf_at: "i < length (b_nodes c) \<Longrightarrow> bpf_at (upd_bpf i f c) i = f (bpf_at c i)" "length (b_nodes (upd_bpf i f c)) = length (b_nodes c)"
  by (simp_all add: upd_bpf_def)

lemma upd_conf_nodes [simp]: "b_nodes (upd_conf f c) = b_nodes c" "b_selectset (upd_conf f c) = b_selectset c"
  by (simp_all add: upd_conf_def)

definition usable :: "bconf \<Rightarrow> nat \<Rightarrow> bool" where
  "usable c i \<longleftrightarrow> i < length (b_nodes c) \<and> (0 \<le> b_socket (bpf_at c i) \<and> b_socket (bpf_at c i) \<in> b_selectset c \<or> b_master (bpf_at c i) \<noteq> None)"

lemma usable_conf [simp]: "usable (upd_conf f c) i = usable c i"
  by (simp add: usable_def)

lemma create_device_ready:
  assumes "create_device bos i fd c = Inr (True, c')" and "i < length (b_nodes c)"
  shows "usable c' i"
  using assms by (auto simp: create_device_def Let_def usable_def upd_bpf_at split: if_splits option.splits)

lemma create_tunnel_ready:
  assumes "create_tunnel bos i c = (True, c')" and "i < length (b_nodes c)"
  shows "usable c' i"
  using assms by (auto simp: create_tunnel_def Let_def usable_def upd_bpf_at split: if_splits option.splits)

lemma create_nodes: "create_device bos i fd c = Inr (ok, c') \<Longrightarrow> length (b_nodes c') = length (b_nodes c)"
  "create_tunnel bos i c = (ok, c') \<Longrightarrow> length (b_nodes c') = length (b_nodes c)"
  by (auto simp: create_device_def create_tunnel_def Let_def upd_bpf_at split: if_splits option.splits)

lemma int_create_bpf_ready:
  assumes "int_create_bpf bos i tunnel c = Some (Inr (ok, c'))" and "i < length (b_nodes c)"
  shows "ok \<Longrightarrow> usable c' i" "i < length (b_nodes c')"
  using assms create_device_ready [of bos i _ c c'] create_tunnel_ready [of bos i c c'] create_nodes
  by (auto simp: int_create_bpf_def Let_def split: if_splits)

lemma int_destroy_bpf_closed: "i < length (b_nodes c) \<Longrightarrow> b_socket (bpf_at (int_destroy_bpf i c) i) = -1"
  by (simp add: int_destroy_bpf_def Let_def upd_bpf_def)

section \<open>Local addresses\<close>

lemma pair_at_locals [simp]: "pair_at (c\<lparr>b_locals := l\<rparr>) i num = pair_at c i num"
  by (simp add: pair_at_def addr_words_def)

lemma local_find_None: "local_find a c = None \<longleftrightarrow> (\<forall>i \<in> set (b_locals c). \<forall>num < 4. pair_at c i num \<noteq> a)"
  unfolding local_find_def index_of_None list_ex_iff set_upt atLeastLessThan_iff Ball_def Bex_def by blast

lemma local_update_step:
  fixes i :: nat
  defines "f \<equiv> \<lambda>num c. if fst (pair_at c i num) = 0 then c else if local_find (pair_at c i num) c \<noteq> None then c else c\<lparr>b_locals := b_locals c @ [i]\<rparr>"
  shows "\<exists>l. fold f ns c = c\<lparr>b_locals := b_locals c @ l\<rparr> \<and> set l \<subseteq> {i}
    \<and> (\<forall>num \<in> set ns. num < 4 \<longrightarrow> fst (pair_at c i num) \<noteq> 0 \<longrightarrow> local_find (pair_at c i num) (fold f ns c) \<noteq> None)"
proof (induction ns arbitrary: c)
  case Nil
  then show ?case by (intro exI [of _ "[]"]) simp
next
  case (Cons n ns)
  obtain l1 where l1: "f n c = c\<lparr>b_locals := b_locals c @ l1\<rparr>" "set l1 \<subseteq> {i}"
    "n < 4 \<longrightarrow> fst (pair_at c i n) \<noteq> 0 \<longrightarrow> local_find (pair_at c i n) (f n c) \<noteq> None"
  proof (cases "fst (pair_at c i n) = 0 \<or> local_find (pair_at c i n) c \<noteq> None")
    case True
    then show thesis using that [of "[]"] by (auto simp: f_def)
  next
    case False
    then show thesis using that [of "[i]"] by (auto simp: f_def local_find_None)
  qed
  obtain l where l: "fold f ns (f n c) = (f n c)\<lparr>b_locals := b_locals (f n c) @ l\<rparr>" "set l \<subseteq> {i}"
    "\<forall>num \<in> set ns. num < 4 \<longrightarrow> fst (pair_at (f n c) i num) \<noteq> 0 \<longrightarrow> local_find (pair_at (f n c) i num) (fold f ns (f n c)) \<noteq> None"
    using Cons by blast
  have "fold f (n # ns) c = c\<lparr>b_locals := b_locals c @ (l1 @ l)\<rparr>" using l(1) l1(1) by simp
  moreover have "local_find (pair_at c i n) (fold f (n # ns) c) \<noteq> None" if "local_find (pair_at c i n) (f n c) \<noteq> None"
    using that l(1) l1(1) unfolding local_find_None by auto
  ultimately show ?case using l1 l by (intro exI [of _ "l1 @ l"]) auto
qed

text \<open>After an update every address of the interface is found as a local one, and no other interface was added.\<close>

lemma local_update_finds:
  "\<exists>l. local_update i c = c\<lparr>b_locals := b_locals c @ l\<rparr> \<and> set l \<subseteq> {i}
     \<and> (\<forall>num < 4. fst (pair_at c i num) \<noteq> 0 \<longrightarrow> local_find (pair_at c i num) (local_update i c) \<noteq> None)"
proof -
  obtain l where "local_update i c = c\<lparr>b_locals := b_locals c @ l\<rparr>" "set l \<subseteq> {i}"
    "\<forall>num \<in> set [0..<4]. num < 4 \<longrightarrow> fst (pair_at c i num) \<noteq> 0 \<longrightarrow> local_find (pair_at c i num) (local_update i c) \<noteq> None"
    using local_update_step [of i "[0..<4]" c] unfolding local_update_def by blast
  then show ?thesis by (intro exI [of _ l]) simp
qed

section \<open>The tunnel header\<close>

lemma word_sum_ipv4_header: "word_sum (ipv4_header len v src dst) = word_sum (ipv4_header len 0 src dst) + unat v"
proof -
  let ?a = "[0x45, 0] @ be_bytes 2 (len + 20) @ be_bytes 2 (42 :: u16) @ [0, 0] @ [100, 41]" and ?b = "be_bytes 4 src @ be_bytes 4 dst"
  have h: "ipv4_header len v src dst = ?a @ le_bytes16 v @ ?b" for v by (simp add: ipv4_header_def)
  have "even (length ?a)" "even (length (le_bytes16 v))" for v by (simp_all add: le_bytes16_def)
  then have "word_sum (ipv4_header len v src dst) = word_sum ?a + unat v + word_sum ?b" for v
    unfolding h by (simp only: word_sum_append word_sum_le_bytes16)
  from this [of v] this [of 0] show ?thesis by simp
qed

lemma tunnel_checksum_finish: "unat (tunnel_checksum hdr) = finish_checksum (fold_carry (word_sum hdr))"
proof -
  have "unat (ucast (inchksum hdr) :: u32) = fold_carry (word_sum hdr)" by (simp only: unat_ucast_u32 unat_inchksum)
  moreover have "fold_carry (word_sum hdr) < 3 * 65536" using fold_carry_bound [of "word_sum hdr"] by simp
  ultimately show ?thesis unfolding tunnel_checksum_def Let_def by (subst unat_finish) simp_all
qed

lemma tunnel_header_valid: "word_sum (tunnel_header n len) mod 65535 = 0" "word_sum (tunnel_header n len) \<noteq> 0"
proof -
  let ?h = "ipv4_header len 0 (b_ipv4_local n ! 0) (b_ipv4_remote n)"
  let ?f = "fold_carry (word_sum ?h)"
  have b: "?f < 3 * 65536" using fold_carry_bound [of "word_sum ?h"] by simp
  have s: "word_sum (tunnel_header n len) = word_sum ?h + finish_checksum ?f"
    unfolding tunnel_header_def Let_def by (subst word_sum_ipv4_header) (simp add: tunnel_checksum_finish)
  have "(finish_checksum ?f + word_sum ?h) mod 65535 = (finish_checksum ?f + ?f) mod 65535"
    using fold_carry_mod [of "word_sum ?h"] by (metis mod_add_right_eq)
  then show "word_sum (tunnel_header n len) mod 65535 = 0" using finish_checksum_mod(1) [OF b] by (simp add: s add.commute)
  show "word_sum (tunnel_header n len) \<noteq> 0" using finish_checksum_mod(2) [OF b] by (simp add: s)
qed

lemma length_tunnel_header [simp]: "length (tunnel_header n len) = 20"
  by (simp add: tunnel_header_def ipv4_header_def le_bytes16_def Let_def)

section \<open>Storing an address\<close>

lemma be_nat_append: "be_nat (xs @ ys) = be_nat xs * 256 ^ length ys + be_nat ys"
proof (induction ys rule: rev_induct)
  case (snoc y ys)
  have "be_nat (xs @ ys @ [y]) = be_nat (xs @ ys) * 256 + unat y" using be_nat_snoc [of "xs @ ys" y] by simp
  then show ?case using snoc by (simp add: be_nat_snoc algebra_simps)
qed simp

lemma unat_u32_of_drop: "unat (ucast (drop_bit k (w :: in6_addr)) :: u32) = unat w div 2 ^ k mod 2 ^ 32"
proof -
  have "unat (drop_bit k w) = unat w div 2 ^ k"
    unfolding unat_drop_bit_eq by (simp only: drop_bit_eq_div)
  then show ?thesis
    by (simp add: unsigned_ucast_eq take_bit_eq_mod del: drop_bit_eq_div)
qed

lemma digit32: "(x * 2 ^ 32 + y) div 2 ^ 32 = (x :: nat)" "(x * 2 ^ 32 + y) mod 2 ^ 32 = y" if "y < 2 ^ 32"
  using that by simp_all

lemma ll_words_of: "ll_words (ll_of_words [a, b, c, d]) = [a, b, c, d]"
proof -
  have lt: "unat w < 2 ^ 32" for w :: u32 using unsigned_less [of w, where 'a = nat] by simp
  let ?ab = "unat a * 2 ^ 32 + unat b"
  let ?abc = "?ab * 2 ^ 32 + unat c"
  let ?n = "?abc * 2 ^ 32 + unat d"
  have "be_nat (be_bytes 4 w) = unat w" for w :: u32 using lt [of w] by (simp add: be_nat_be_bytes)
  then have n: "be_nat (concat (map (be_bytes 4) [a, b, c, d])) = ?n" by (simp add: be_nat_append algebra_simps)
  have "?n < 2 ^ 128" using lt [of a] lt [of b] lt [of c] lt [of d] by simp
  then have u: "unat (ll_of_words [a, b, c, d]) = ?n"
    unfolding ll_of_words_def be_word_def n by (simp only: unat_of_nat take_bit_nat_eq_self) (simp add: take_bit_nat_eq_self)
  have e: "ll_words x = [ucast (drop_bit 96 x), ucast (drop_bit 64 x), ucast (drop_bit 32 x), ucast (drop_bit 0 x)]" for x
    by (simp add: ll_words_def upt_rec)
  have p: "2 ^ 64 = (2 ^ 32 * 2 ^ 32 :: nat)" "2 ^ 96 = (2 ^ 32 * (2 ^ 32 * 2 ^ 32) :: nat)" by simp_all
  have "?n div 2 ^ 32 = ?abc" "?n mod 2 ^ 32 = unat d" "?abc div 2 ^ 32 = ?ab" "?abc mod 2 ^ 32 = unat c" "?ab div 2 ^ 32 = unat a" "?ab mod 2 ^ 32 = unat b"
    by (rule digit32, rule lt)+
  moreover have "unat a mod 2 ^ 32 = unat a" using lt [of a] by simp
  ultimately show ?thesis
    unfolding e list.inject word_unat_eq_iff unat_u32_of_drop u p div_mult2_eq by (simp only: power_0 div_by_1 simp_thms)
qed

lemma ll_words_length4: "length ws = 4 \<Longrightarrow> ll_words (ll_of_words ws) = ws"
  by (auto simp: numeral_eq_Suc length_Suc_conv ll_words_of)

lemma update_ipv4_length: "length ws = 9 \<Longrightarrow> length addr = 4 \<Longrightarrow> length (fst (update_ipv4 ptp addr num ws)) = 9"
proof (induction ptp addr num ws rule: update_ipv4.induct)
  case (1 ptp addr num ws)
  then show ?case by (subst update_ipv4.simps) (simp add: put_words_def)
qed

lemma local_update_same [simp]: "addr_words (local_update i c) k = addr_words c k" "b_nodes (local_update i c) = b_nodes c" "b_conf (local_update i c) = b_conf c"
proof -
  obtain l where "local_update i c = c\<lparr>b_locals := b_locals c @ l\<rparr>" using local_update_finds by blast
  then show "addr_words (local_update i c) k = addr_words c k" "b_nodes (local_update i c) = b_nodes c" "b_conf (local_update i c) = b_conf c"
    by (simp_all add: addr_words_def)
qed

text \<open>An interface node of both arrays with its four places for local addresses.\<close>

definition addressable :: "bconf \<Rightarrow> nat \<Rightarrow> bool" where
  "addressable c i \<longleftrightarrow> i < length (b_nodes c) \<and> i < length (c_ints (b_conf c)) \<and> length (b_ipv4_local (bpf_at c i)) = 4"

lemma set_ipv4_address_words:
  assumes "addressable c i" and "length addr = 4"
  shows "addr_words (set_ipv4_address i ptp addr c) i = fst (update_ipv4 ptp addr 0 (addr_words c i))"
    "addressable (set_ipv4_address i ptp addr c) i"
proof -
  obtain ws got where u: "update_ipv4 ptp addr 0 (addr_words c i) = (ws, got)" by fastforce
  have "length (addr_words c i) = 9" using assms(1) by (simp add: addr_words_def ll_words_def addressable_def)
  then have l: "length ws = 9" using update_ipv4_length [of "addr_words c i" addr ptp 0] assms(2) u by simp
  let ?c = "upd_conf (upd_int i (\<lambda>n. n\<lparr>in_linklocal := ll_of_words (drop 5 ws)\<rparr>)) (upd_bpf i (\<lambda>n. n\<lparr>b_ipv4_local := take 4 ws, b_ipv4_remote := ws ! 4\<rparr>) c)"
  have s: "set_ipv4_address i ptp addr c = (if got \<and> \<not> ptp then local_update i ?c else ?c)"
    by (simp add: set_ipv4_address_def u Let_def)
  have "ws = take 4 ws @ [ws ! 4] @ drop 5 ws" using l id_take_nth_drop [of 4 ws] by simp
  moreover have "addr_words ?c i = take 4 ws @ [ws ! 4] @ drop 5 ws"
    using assms(1) l by (simp add: addr_words_def upd_conf_def upd_bpf_def upd_int_def ll_words_length4 addressable_def)
  ultimately show "addr_words (set_ipv4_address i ptp addr c) i = fst (update_ipv4 ptp addr 0 (addr_words c i))"
    using s u by simp
  show "addressable (set_ipv4_address i ptp addr c) i"
    using assms(1) l s by (simp add: addressable_def upd_conf_def upd_bpf_def)
qed

lemma third_address_words:
  assumes "a1 \<noteq> 0" and "a2 \<noteq> 0" and "a1 \<noteq> a2" and "a1 \<noteq> a3" and "a2 \<noteq> a3"
  shows "fst (update_ipv4 False [a3, 0, 0, j3] 0 (fst (update_ipv4 False [a2, 0, 0, j2] 0
      (fst (update_ipv4 False [a1, 0, 0, j1] 0 [0, 0, 0, 0, 0, l0, l1, l2, l3]))))) = [a1, a2, a3, 0, 0, j3, l1, l2, l3]"
proof -
  have u1: "update_ipv4 False [a1, 0, 0, j1] 0 [0, 0, 0, 0, 0, l0, l1, l2, l3] = ([a1, 0, 0, j1, 0, l0, l1, l2, l3], True)"
    by (simp add: update_ipv4.simps put_words_def)
  have "update_ipv4 False [a2, 0, 0, j2] 1 [a1, 0, 0, j1, 0, l0, l1, l2, l3] = ([a1, a2, 0, 0, j2, l0, l1, l2, l3], True)"
    by (subst update_ipv4.simps) (simp add: put_words_def)
  then have u2: "update_ipv4 False [a2, 0, 0, j2] 0 [a1, 0, 0, j1, 0, l0, l1, l2, l3] = ([a1, a2, 0, 0, j2, l0, l1, l2, l3], True)"
    by (subst update_ipv4.simps) (use assms in simp)
  have "update_ipv4 False [a3, 0, 0, j3] 2 [a1, a2, 0, 0, j2, l0, l1, l2, l3] = ([a1, a2, a3, 0, 0, j3, l1, l2, l3], True)"
    by (subst update_ipv4.simps) (simp add: put_words_def)
  then have "update_ipv4 False [a3, 0, 0, j3] 1 [a1, a2, 0, 0, j2, l0, l1, l2, l3] = ([a1, a2, a3, 0, 0, j3, l1, l2, l3], True)"
    by (subst update_ipv4.simps) (use assms in \<open>simp add: numeral_2_eq_2\<close>)
  then have u3: "update_ipv4 False [a3, 0, 0, j3] 0 [a1, a2, 0, 0, j2, l0, l1, l2, l3] = ([a1, a2, a3, 0, 0, j3, l1, l2, l3], True)"
    by (subst update_ipv4.simps) (use assms in simp)
  show ?thesis by (simp only: u1 u2 u3 fst_conv)
qed

section \<open>Properties\<close>

text \<open>
  An interface that \<^verbatim>\<open>int_create\<close> returns can be used: its device is open and in the set that \<^verbatim>\<open>select\<close> watches, or it is a tunnel and
  knows its master. One that it gives up holds no device: whatever was opened on the way is closed.
\<close>

lemma int_create_b_outcome:
  assumes "int_create_b os bos i tunnel c = Some (Inr (Inr (r, c')))" and "os_ioctl_socket os (c_trace (b_conf c))"
  shows "(case r of Some k \<Rightarrow> k = i \<and> usable c' i | None \<Rightarrow> b_socket (bpf_at c' i) = -1)"
proof -
  let ?c = "upd_conf (int_resize i) c"
  define c1 where "c1 = ?c\<lparr>b_nodes := b_nodes ?c @ replicate (length (c_ints (b_conf ?c)) - length (b_nodes ?c)) bpf_zero\<rparr>"
  have "i < length (c_ints (b_conf ?c))" by (simp add: upd_conf_def int_resize_facts)
  then have n: "i < length (b_nodes c1)" by (simp add: c1_def)
  have t: "c_trace (b_conf c1) = c_trace (b_conf c)" by (simp add: c1_def upd_conf_def int_resize_def)
  have rd: "(ok \<longrightarrow> usable d' i) \<and> i < length (b_nodes d')"
    if "int_create_bpf bos i tunnel d = Some (Inr (ok, d'))" "length (b_nodes d) = length (b_nodes c1)" for d d' ok
    using int_create_bpf_ready [OF that(1)] that(2) n by simp
  show ?thesis
    using assms n unfolding int_create_b_def Let_def c1_def [symmetric, unfolded Let_def] t
    by (auto simp: upd_bpf_at int_destroy_bpf_closed dest!: rd split: if_splits option.splits sum.splits prod.splits)
qed

text \<open>
  C19. A packet for a tunnel goes out on the device of its master interface as one frame: an Ethernet header of type IPv4 with the
  multicast address, an IPv4 header of protocol 41 with the addresses of the tunnel, the length of both and a checksum that
  the receiver finds correct (the 16-bit sum of the header is zero in one's complement), and the packet unchanged.
\<close>

theorem tunnel_packet_on_wire:
  assumes "40 \<le> length iph" and "unat len \<le> length iph" and "b_tunnelmode c" and "b_master (bpf_at c i) = Some m"
  shows "\<exists>c' hdr. sendpacket6_bpf writev i iph len c = Inr c'
    \<and> filter (\<lambda>e. case e of Writev _ _ \<Rightarrow> True | Close_dev _ \<Rightarrow> False) (b_trace c')
       = filter (\<lambda>e. case e of Writev _ _ \<Rightarrow> True | Close_dev _ \<Rightarrow> False) (b_trace c)
         @ [Writev (b_socket (bpf_at c m)) (eth_multicast (take 16 (drop 24 iph)) @ replicate 6 0 @ [0x08, 0x00] @ hdr @ take (unat len) iph)]
    \<and> length hdr = 20 \<and> take 2 hdr = [0x45, 0] \<and> take 2 (drop 2 hdr) = be_bytes 2 (len + 20) \<and> hdr ! 9 = 41
    \<and> take 4 (drop 12 hdr) = be_bytes 4 (b_ipv4_local (bpf_at c i) ! 0) \<and> drop 16 hdr = be_bytes 4 (b_ipv4_remote (bpf_at c i))
    \<and> word_sum hdr mod 65535 = 0 \<and> word_sum hdr \<noteq> 0"
proof -
  let ?n = "bpf_at c i"
  let ?hdr = "tunnel_header ?n len"
  let ?k = "tunnel_checksum (ipv4_header len 0 (b_ipv4_local ?n ! 0) (b_ipv4_remote ?n))"
  have b2: "\<exists>x y. be_bytes 2 w = [x, y]" for w :: u16 by (simp add: be_bytes_def upt_rec)
  obtain x y where xy: "be_bytes 2 (len + 20) = [x, y]" using b2 by blast
  obtain u v where uv: "be_bytes 2 (42 :: u16) = [u, v]" using b2 by blast
  have e: "?hdr = [0x45, 0, x, y, u, v, 0, 0, 100, 41, ucast ?k, ucast (drop_bit 8 ?k)] @ be_bytes 4 (b_ipv4_local ?n ! 0) @ be_bytes 4 (b_ipv4_remote ?n)"
    by (simp add: tunnel_header_def ipv4_header_def xy uv le_bytes16_def Let_def)
  have f: "take 2 ?hdr = [0x45, 0]" "take 2 (drop 2 ?hdr) = be_bytes 2 (len + 20)" "?hdr ! 9 = 41"
    "take 4 (drop 12 ?hdr) = be_bytes 4 (b_ipv4_local ?n ! 0)" "drop 16 ?hdr = be_bytes 4 (b_ipv4_remote ?n)"
    unfolding e xy by simp_all
  have r: "read_bytes iph 24 16 = Inr (take 16 (drop 24 iph))" "read_bytes iph 0 (unat len) = Inr (take (unat len) iph)"
    using assms(1,2) by simp_all
  let ?call = "Writev (b_socket (bpf_at c m)) (eth_multicast (take 16 (drop 24 iph)) @ replicate 6 0 @ [0x08, 0x00] @ ?hdr @ take (unat len) iph)"
  let ?c = "c\<lparr>b_trace := b_trace c @ [?call]\<rparr>"
  let ?w = "\<lambda>e. case e of Writev _ _ \<Rightarrow> True | Close_dev _ \<Rightarrow> False"
  have s: "sendpacket6_bpf writev i iph len c
      = Inr (case writev (b_trace c) ?call of Send_ENXIO \<Rightarrow> int_destroy_bpf i ?c | sent \<Rightarrow> upd_conf (after_send i len sent) ?c)"
    unfolding sendpacket6_bpf_def r bindR_simps Let_def using assms(3,4) by (auto split: send_result.split)
  have "filter ?w (b_trace (case x of Send_ENXIO \<Rightarrow> int_destroy_bpf i ?c | sent \<Rightarrow> upd_conf (after_send i len sent) ?c))
      = filter ?w (b_trace c) @ [?call]" for x
    by (cases x) (simp_all add: int_destroy_bpf_def upd_conf_def upd_bpf_def Let_def)
  then show ?thesis
    unfolding s using f tunnel_header_valid [of ?n len] by (intro exI [of _ ?hdr] exI conjI refl) (simp_all del: append_Cons)
qed

definition example_bconf :: bconf where
  "example_bconf = \<lparr>b_conf = example_conf\<lparr>c_ints := [int_zero\<lparr>in_mtu := 1500, in_linklocal := 0xfe800000000000000000000000000002\<rparr>,
       int_zero\<lparr>in_ifindex := 1, in_mtu := 1480, in_linklocal := 0xfe800000000000000000000000000001\<rparr>]\<rparr>,
     b_nodes = [\<lparr>b_socket = 5, b_dlt = 1, b_bufferlen = 4096, b_master = None, b_ipv4_local = [0x0a000001, 0, 0, 0], b_ipv4_remote = 0\<rparr>,
       \<lparr>b_socket = -1, b_dlt = 0, b_bufferlen = 0, b_master = Some 0, b_ipv4_local = [0x0a000001, 0, 0, 0], b_ipv4_remote = 0x0a000002\<rparr>],
     b_locals = [], b_tunnelmode = True, b_selectset = {5}, b_hifd = 5, b_trace = []\<rparr>"

theorem tunnel_packet_on_wire_witness:
  "\<exists>c'. sendpacket6_bpf (\<lambda>_ _. Sent) 1 (replicate 40 0) 40 example_bconf = Inr c' \<and> b_trace c' \<noteq> []"
proof -
  have b: "b_tunnelmode example_bconf" "b_master (bpf_at example_bconf 1) = Some 0" by (simp_all add: example_bconf_def)
  show ?thesis
    using tunnel_packet_on_wire [of "replicate 40 0" 40 example_bconf 1 0 "\<lambda>_ _. Sent", OF _ _ b] by fastforce
qed

text \<open>
  C31. Tunnel packets do not come in: the search for the tunnel compares eight bytes, the remote address of the tunnel and the
  beginning of its link-local address against source and destination of the packet. When the link-local addresses of the
  interfaces begin with \<^verbatim>\<open>fe80:0\<close>, as they do, a packet of protocol 41 to any destination but 254.128.0.0 is dropped, after
  the interfaces were updated in vain.
\<close>

definition linklocals_ok :: "bconf \<Rightarrow> bool" where
  "linklocals_ok c \<longleftrightarrow> (\<forall>i < length (c_ints (b_conf c)). length (b_ipv4_local (bpf_at c i)) = 4
     \<and> (in_mtu (int_at (b_conf c) i) \<noteq> 0 \<longrightarrow> ll_words (in_linklocal (int_at (b_conf c) i)) ! 0 = 0xfe800000))"

lemma int_find_ipv4_remote:
  assumes "linklocals_ok c" and "dst \<noteq> 0xfe800000"
  shows "int_find_ipv4 False (src, dst) c = None"
proof -
  have "pair_at c i 4 \<noteq> (src, dst)" if "i < length (c_ints (b_conf c))" "in_mtu (int_at (b_conf c) i) \<noteq> 0" for i
    using assms that by (auto simp: pair_at_def addr_words_def linklocals_ok_def nth_append)
  then show ?thesis by (auto simp: int_find_ipv4_def find_None_iff)
qed


lemma example_linklocals: "linklocals_ok example_bconf"
  by (auto simp: linklocals_ok_def example_bconf_def ll_words_def upt_rec less_Suc_eq)


text \<open>
  One read gives one packet: the loop over a buffer ends after the first packet, which is handed on with its captured
  length, however many packets the buffer holds; an empty one ends it at once.
\<close>

lemma bpf_first_packet_only:
  assumes "bpf_hdr mem 0 = Inr (caplen, hdrlen)"
  shows "read_interface l2 i mem c = Some (if caplen = 0 then Inr c else l2 i (drop hdrlen mem) caplen (count_bpf i caplen c))"
proof -
  have "caplen + hdrlen \<le> BPF_WORDALIGN (caplen + hdrlen)" unfolding BPF_WORDALIGN_def by linarith
  then have "bpf_packets l2 i mem caplen (BPF_WORDALIGN (caplen + hdrlen)) d = Some (Inr d)" for d
    by (subst bpf_packets.simps) simp
  then show ?thesis
    using assms unfolding read_interface_def
    by (subst bpf_packets.simps) (auto split: sum.splits)
qed

lemma bpf_first_packet_only_witness:
  "read_interface (\<lambda>i m n c. Inr c) 0 (replicate 16 0 @ [1, 0, 0, 0, 1, 0, 0, 0, 26, 0, 7] @ replicate 100 0) example_bconf
     = Some (Inr (count_bpf 0 1 example_bconf))"
proof -
  have "bpf_hdr (replicate 16 0 @ [1, 0, 0, 0, 1, 0, 0, 0, 26, 0, 7] @ replicate 100 0) 0 = Inr (1, 26)"
    by (simp add: bpf_hdr_def read_bytes_def le_nat_def be_nat_def)
  from bpf_first_packet_only [OF this, of "\<lambda>i m n c. Inr c" 0 example_bconf] show ?thesis by simp
qed

text \<open>
  Three IPv4 addresses on an interface destroy its link-local IPv6 address: each is copied with sixteen bytes, so the third one ends
  in the first word of the link-local address, which then holds whatever lay behind the operating system's socket address; the
  remote address is overwritten on the way.
\<close>

lemma third_ipv4_address_overruns:
  assumes "addressable c i" and "b_ipv4_local (bpf_at c i) = [0, 0, 0, 0]" and "b_ipv4_remote (bpf_at c i) = 0"
    and "a1 \<noteq> 0" and "a2 \<noteq> 0" and "a1 \<noteq> a2" and "a1 \<noteq> a3" and "a2 \<noteq> a3"
  shows "(let c' = set_ipv4_address i False [a3, 0, 0, j3] (set_ipv4_address i False [a2, 0, 0, j2] (set_ipv4_address i False [a1, 0, 0, j1] c)) in
     b_ipv4_local (bpf_at c' i) = [a1, a2, a3, 0]
     \<and> ll_words (in_linklocal (int_at (b_conf c') i)) = j3 # tl (ll_words (in_linklocal (int_at (b_conf c) i))))"
proof -
  define c1 where "c1 = set_ipv4_address i False [a1, 0, 0, j1] c"
  define c2 where "c2 = set_ipv4_address i False [a2, 0, 0, j2] c1"
  define c3 where "c3 = set_ipv4_address i False [a3, 0, 0, j3] c2"
  obtain l0 l1 l2 l3 where l: "ll_words (in_linklocal (int_at (b_conf c) i)) = [l0, l1, l2, l3]" by (simp add: ll_words_def upt_rec)
  have a1: "addressable c1 i" and w1: "addr_words c1 i = fst (update_ipv4 False [a1, 0, 0, j1] 0 [0, 0, 0, 0, 0, l0, l1, l2, l3])"
    using set_ipv4_address_words [OF assms(1)] assms(2,3) l by (simp_all add: c1_def addr_words_def [of c])
  have a2: "addressable c2 i" and w2: "addr_words c2 i = fst (update_ipv4 False [a2, 0, 0, j2] 0 (addr_words c1 i))"
    using set_ipv4_address_words [OF a1] by (simp_all add: c2_def)
  have a3: "addressable c3 i" and w3: "addr_words c3 i = fst (update_ipv4 False [a3, 0, 0, j3] 0 (addr_words c2 i))"
    using set_ipv4_address_words [OF a2] by (simp_all add: c3_def)
  have "addr_words c3 i = [a1, a2, a3, 0] @ [0] @ [j3, l1, l2, l3]"
    unfolding w3 w2 w1 using third_address_words [OF assms(4-8)] by simp
  moreover have "length (b_ipv4_local (bpf_at c3 i)) = 4" using a3 by (simp add: addressable_def)
  ultimately have "b_ipv4_local (bpf_at c3 i) = [a1, a2, a3, 0] \<and> ll_words (in_linklocal (int_at (b_conf c3) i)) = [j3, l1, l2, l3]"
    unfolding addr_words_def by (subst (asm) append_eq_append_conv) auto
  then show ?thesis unfolding Let_def l by (simp add: c3_def c2_def c1_def)
qed

lemma third_ipv4_address_overruns_witness:
  "\<exists>c. ll_words (in_linklocal (int_at (b_conf c) 0)) = [9, 0, 0, 2]
     \<and> c = set_ipv4_address 0 False [3, 0, 0, 9] (set_ipv4_address 0 False [2, 0, 0, 8] (set_ipv4_address 0 False [1, 0, 0, 7]
         (upd_bpf 0 (\<lambda>n. n\<lparr>b_ipv4_local := [0, 0, 0, 0]\<rparr>) example_bconf)))"
proof -
  let ?c = "upd_bpf 0 (\<lambda>n. n\<lparr>b_ipv4_local := [0, 0, 0, 0]\<rparr>) example_bconf"
  have "addressable ?c 0" "b_ipv4_local (bpf_at ?c 0) = [0, 0, 0, 0]" "b_ipv4_remote (bpf_at ?c 0) = 0"
    "ll_words (in_linklocal (int_at (b_conf ?c) 0)) = [0xfe800000, 0, 0, 2]"
    by (simp_all add: addressable_def upd_bpf_def example_bconf_def ll_words_def upt_rec)
  then show ?thesis using third_ipv4_address_overruns [of ?c 0 1 2 3 9 8 7] by (simp add: Let_def)
qed

end
