(* ===== verification/Header_macros.thy ===== *)
theory Header_macros
  imports Ecmh_Prelude
begin

text \<open>
  Macros of the headers that compute: those at the end of \<^verbatim>\<open>src/mld.h\<close> for the floating-point codes of MLDv2, the query interval and the
  maximum response, against the formula of RFC 3810 (5.1.3, 5.1.9), and those of \<^verbatim>\<open>src/trace.h\<close> that convert between a prefix
  length and a netmask.
\<close>

section \<open>MLDv2 codes\<close>

text \<open>They work on small non-negative \<^verbatim>\<open>int\<close> values, which are natural numbers here.\<close>

definition MLDV2_MASK :: "nat \<Rightarrow> nat \<Rightarrow> nat" where
  "MLDV2_MASK v nb = (if nb \<ge> 32 then v else (push_bit nb 1 - 1) AND v)"

definition MLDV2_EXP :: "nat \<Rightarrow> nat \<Rightarrow> nat \<Rightarrow> nat \<Rightarrow> nat" where
  "MLDV2_EXP thresh nbmant nbexp v =
     (if v < thresh then v
      else push_bit (MLDV2_MASK (drop_bit nbmant v) nbexp + nbexp) (MLDV2_MASK v nbmant OR push_bit (nbmant + nbexp) 1))"

definition MLDV2_QQIC :: "nat \<Rightarrow> nat" where
  "MLDV2_QQIC v = MLDV2_EXP 0x80 4 3 v"

definition MLDV2_MRC :: "nat \<Rightarrow> nat" where
  "MLDV2_MRC v = MLDV2_EXP 0x8000 12 3 v"

text \<open>The RFC: the mantissa with a leading one, shifted left by the exponent and three.\<close>

definition rfc3810_code :: "nat \<Rightarrow> nat \<Rightarrow> nat \<Rightarrow> nat" where
  "rfc3810_code thresh nbmant v =
     (if v < thresh then v else (v mod 2 ^ nbmant + 2 ^ nbmant) * 2 ^ (v div 2 ^ nbmant mod 8 + 3))"

lemma mask_mod: "nb < 32 \<Longrightarrow> MLDV2_MASK v nb = v mod 2 ^ nb"
proof -
  have "(2 ^ nb - 1) AND v = take_bit nb v" unfolding take_bit_eq_mask mask_eq_exp_minus_1 by (rule and.commute)
  then show "nb < 32 \<Longrightarrow> MLDV2_MASK v nb = v mod 2 ^ nb" by (simp add: MLDV2_MASK_def push_bit_eq_mult take_bit_eq_mod)
qed

lemma or_disjoint: "a < 2 ^ k \<Longrightarrow> a OR push_bit k 1 = a + 2 ^ k" for a :: nat
proof -
  assume a: "a < 2 ^ k"
  have "a AND push_bit k 1 = 0"
  proof (rule bit_eqI)
    fix n
    have "\<not> bit a k" using a by (metis bit_take_bit_iff less_irrefl take_bit_nat_eq_self)
    then show "bit (a AND push_bit k 1) n \<longleftrightarrow> bit (0 :: nat) n" by (auto simp: bit_and_iff bit_exp_iff push_bit_eq_mult)
  qed
  then show ?thesis by (simp add: disjunctive_add_eq_or push_bit_eq_mult)
qed

lemma exp_value:
  "v \<ge> thresh \<Longrightarrow> nbmant < 32 \<Longrightarrow> MLDV2_EXP thresh nbmant 3 v = (v mod 2 ^ nbmant + 2 ^ (nbmant + 3)) * 2 ^ (v div 2 ^ nbmant mod 8 + 3)"
proof -
  assume a: "v \<ge> thresh" "nbmant < 32"
  have "v mod 2 ^ nbmant < 2 ^ (nbmant + 3)"
    by (rule less_le_trans [of _ "2 ^ nbmant"]) (simp_all add: power_add)
  then have "v mod 2 ^ nbmant OR push_bit (nbmant + 3) 1 = v mod 2 ^ nbmant + 2 ^ (nbmant + 3)" by (rule or_disjoint)
  moreover have "MLDV2_EXP thresh nbmant 3 v = push_bit (v div 2 ^ nbmant mod 8 + 3) (v mod 2 ^ nbmant OR push_bit (nbmant + 3) 1)"
    using a by (simp only: MLDV2_EXP_def mask_mod drop_bit_eq_div not_le [symmetric] not_True_eq_False if_False) (simp add: mask_mod)
  ultimately show ?thesis by (simp only: push_bit_eq_mult)
qed

text \<open>
  The macros set the leading one three places too high: they agree with the RFC exactly on the values below the threshold,
  which stand for themselves.
\<close>

lemma mldv2_codes_agree:
  "MLDV2_QQIC v = rfc3810_code 0x80 4 v \<longleftrightarrow> v < 0x80"
  "MLDV2_MRC v = rfc3810_code 0x8000 12 v \<longleftrightarrow> v < 0x8000"
proof -
  have "MLDV2_EXP t n 3 v = rfc3810_code t n v \<longleftrightarrow> v < t" if "n < 32" for t n
  proof (cases "v < t")
    case False
    then show ?thesis using exp_value [of t v n] that by (simp add: rfc3810_code_def power_add)
  qed (simp add: MLDV2_EXP_def rfc3810_code_def)
  from this [of 4 "0x80"] this [of 12 "0x8000"] show "MLDV2_QQIC v = rfc3810_code 0x80 4 v \<longleftrightarrow> v < 0x80"
    "MLDV2_MRC v = rfc3810_code 0x8000 12 v \<longleftrightarrow> v < 0x8000" by (simp_all add: MLDV2_QQIC_def MLDV2_MRC_def)
qed

section \<open>Netmasks\<close>

text \<open>\<^verbatim>\<open>VAL_TO_MASK\<close> for lengths from 1 on (of 0 it would shift by 32), without the change of byte order that \<^verbatim>\<open>MASK_TO_VAL\<close> takes back.\<close>

definition VAL_TO_MASK :: "nat \<Rightarrow> u32" where
  "VAL_TO_MASK i = NOT (push_bit (32 - i) 1 - 1)"

lemma shift_out: "\<exists>n. push_bit n (x :: u32) = 0"
  by (rule exI [of _ 32]) (simp add: bit_eq_iff bit_push_bit_iff)

text \<open>The loop of \<^verbatim>\<open>MASK_TO_VAL\<close>: how often the mask can be shifted until nothing is left.\<close>

function mask_loop :: "u32 \<Rightarrow> nat \<Rightarrow> nat" where
  "mask_loop x i = (let x = push_bit 1 x in if x \<noteq> 0 then mask_loop x (i + 1) else i)"
  by pat_completeness auto
termination
proof (relation "measure (\<lambda>(x, i). LEAST n. push_bit n x = 0)")
  fix x xa :: u32 and i :: nat
  assume x: "xa = push_bit 1 x" "xa \<noteq> 0"
  define m where "m = (LEAST n. push_bit n x = 0)"
  have m: "push_bit m x = 0" unfolding m_def by (rule LeastI_ex [OF shift_out])
  then have "m \<noteq> 0" using x by (auto intro!: gr0I)
  moreover have "push_bit (m - 1) xa = push_bit (m - 1 + 1) x" unfolding x(1) by (rule push_bit_push_bit)
  ultimately have "push_bit (m - 1) xa = 0" using m by simp
  then have "(LEAST n. push_bit n xa = 0) \<le> m - 1" by (rule Least_le)
  then show "((xa, i + 1), (x, i)) \<in> measure (\<lambda>(x, i). LEAST n. push_bit n x = 0)"
    using \<open>m \<noteq> 0\<close> by (simp add: m_def)
qed simp

declare mask_loop.simps [simp del]

definition MASK_TO_VAL :: "u32 \<Rightarrow> nat" where
  "MASK_TO_VAL x = mask_loop x 1"

lemma bit_VAL_TO_MASK: "i \<le> 32 \<Longrightarrow> bit (VAL_TO_MASK i) n \<longleftrightarrow> 32 - i \<le> n \<and> n < 32"
proof -
  have "push_bit (32 - i) 1 - 1 = (mask (32 - i) :: u32)" by (simp add: mask_eq_exp_minus_1)
  then show ?thesis by (auto simp: VAL_TO_MASK_def bit_not_iff bit_mask_iff)
qed

lemma shift_mask: "1 \<le> i \<Longrightarrow> i \<le> 32 \<Longrightarrow> push_bit 1 (VAL_TO_MASK i) = (if i = 1 then 0 else VAL_TO_MASK (i - 1))"
proof (rule bit_eqI)
  fix n
  assume "1 \<le> i" "i \<le> 32"
  then show "bit (push_bit 1 (VAL_TO_MASK i)) n \<longleftrightarrow> bit (if i = 1 then 0 else VAL_TO_MASK (i - 1)) n"
    unfolding bit_push_bit_iff by (cases "i = 1") (auto simp: bit_VAL_TO_MASK)
qed

lemma mask_loop_mask: "1 \<le> i \<Longrightarrow> i \<le> 32 \<Longrightarrow> mask_loop (VAL_TO_MASK i) k = k + i - 1"
proof (induction i arbitrary: k)
  case (Suc i)
  have nz: "VAL_TO_MASK i \<noteq> 0" if "1 \<le> i" using bit_VAL_TO_MASK [of i 31] that Suc.prems by auto
  show ?case
  proof (cases "i = 0")
    case True
    then have "push_bit 1 (VAL_TO_MASK (Suc i)) = 0" using shift_mask [of "Suc i"] Suc.prems by simp
    then show ?thesis using True by (subst mask_loop.simps) (simp only: Let_def, simp)
  next
    case False
    then have "push_bit 1 (VAL_TO_MASK (Suc i)) = VAL_TO_MASK i" using shift_mask [of "Suc i"] Suc.prems by simp
    then show ?thesis using Suc nz False by (subst mask_loop.simps) (simp only: Let_def, simp)
  qed
qed simp

text \<open>The two are inverse on the lengths from 1 to 32; the empty mask is taken for length 1.\<close>

lemma mask_roundtrip: "1 \<le> i \<Longrightarrow> i \<le> 32 \<Longrightarrow> MASK_TO_VAL (VAL_TO_MASK i) = i" "MASK_TO_VAL 0 = 1"
  by (simp_all add: MASK_TO_VAL_def mask_loop_mask) (simp add: mask_loop.simps)

text \<open>\<^verbatim>\<open>MASKLEN_TO_MASK6\<close>: the sixteen bytes are cleared first; a length over 128 writes behind them.\<close>

definition maskarray :: bytes where
  "maskarray = [0x80, 0xc0, 0xe0, 0xf0, 0xf8, 0xfc, 0xfe, 0xff]"

definition MASKLEN_TO_MASK6 :: "nat \<Rightarrow> bytes res" where
  "MASKLEN_TO_MASK6 masklen =
     (let bytelen = masklen div 8; bitlen = masklen mod 8 in
      if masklen > 128 then Inl Out_of_bounds
      else
        let mask6 = replicate bytelen 0xff @ replicate (16 - bytelen) 0 in
        Inr (if bitlen \<noteq> 0 then mask6[bytelen := maskarray ! (bitlen - 1)] else mask6))"

lemma maskarray_bits: "0 < k \<Longrightarrow> k < 8 \<Longrightarrow> j < 8 \<Longrightarrow> bit (maskarray ! (k - 1)) (7 - j) \<longleftrightarrow> j < k"
proof -
  assume "0 < k" "k < 8" "j < 8"
  then have "k \<in> {1, 2, 3, 4, 5, 6, 7}" "j \<in> {0, 1, 2, 3, 4, 5, 6, 7}" by auto
  then show ?thesis by (auto simp: maskarray_def)
qed

text \<open>The bits that are set are the first ones, counted from the top, as many as the length says.\<close>

lemma masklen_bits:
  assumes "masklen \<le> 128"
  shows "\<exists>m. MASKLEN_TO_MASK6 masklen = Inr m \<and> length m = 16 \<and> (\<forall>i < 16. \<forall>j < 8. bit (m ! i) (7 - j) \<longleftrightarrow> 8 * i + j < masklen)"
proof -
  define b where "b = masklen div 8"
  define r where "r = masklen mod 8"
  define z :: bytes where "z = replicate b 0xff @ replicate (16 - b) 0"
  define m where "m = (if r \<noteq> 0 then z[b := maskarray ! (r - 1)] else z)"
  have d: "masklen = 8 * b + r" "r < 8" by (simp_all add: b_def r_def)
  have "bit (m ! i) (7 - j) \<longleftrightarrow> 8 * i + j < masklen" if ij: "i < 16" "j < 8" for i j
  proof (cases "i = b")
    case True
    have "bit (m ! i) (7 - j) \<longleftrightarrow> j < r"
      using ij True d(2) maskarray_bits [of r j] by (cases "r = 0") (simp_all add: m_def z_def nth_append)
    then show ?thesis using True d by linarith
  next
    case False
    have "bit (0xff :: u8) n \<longleftrightarrow> n < 8" for n
    proof -
      have "(0xff :: u8) = mask 8" by (simp add: mask_eq_exp_minus_1)
      then show ?thesis by (simp only: bit_mask_iff) simp
    qed
    from this [of "7 - j"] have "bit (0xff :: u8) (7 - j)" by simp
    then have "bit (m ! i) (7 - j) \<longleftrightarrow> i < b" using ij False by (simp add: m_def z_def nth_append less_Suc_eq_le)
    then show ?thesis using False d ij by linarith
  qed
  moreover have "length m = 16" using assms by (simp add: m_def z_def b_def)
  moreover have "MASKLEN_TO_MASK6 masklen = Inr m" using assms by (simp add: MASKLEN_TO_MASK6_def Let_def m_def z_def b_def r_def)
  ultimately show ?thesis by blast
qed

end
