(* ===== verification/Spec2Isabelle.thy ===== *)
theory Spec2Isabelle
  imports Mship_db Dump Mtrace6 Hash Scenarios Route_mirror Options Bpf Header_macros
begin

text \<open>
  A verification library for \<^verbatim>\<open>ecmh\<close>, a multicast forwarding daemon for IPv6, and for \<^verbatim>\<open>mtrace6\<close>, the trace
  tool beside it. File names are relative to \<^verbatim>\<open>src/\<close>.

  \<^bold>\<open>The program.\<close> \<^verbatim>\<open>ecmh\<close> sits between one upstream and one downstream interface. It sends MLD queries, takes MLD reports apart
  (\<^verbatim>\<open>src/ecmh.c\<close>), keeps for every group and interface a filter mode with two source lists
  (\<^verbatim>\<open>src/groups.c\<close>, \<^verbatim>\<open>src/grpint.c\<close>, \<^verbatim>\<open>src/mld2_logic.c\<close>), joins the groups upstream through a socket of its own
  (\<^verbatim>\<open>src/mcast_client.c\<close>), and either forwards multicast packets itself or asks the kernel to
  (\<^verbatim>\<open>src/kernel_routing.c\<close>). A loop in \<^verbatim>\<open>main\<close> waits for frames and for kernel upcalls; an alarm makes it expire
  sources and routes and send the next query.

  \<^bold>\<open>The build.\<close> The one of the top-level \<^verbatim>\<open>Makefile\<close>: Linux, \<^verbatim>\<open>ECMH_SUPPORT_MLD2\<close>, \<^verbatim>\<open>ECMH_GETIFADDR\<close>, without
  \<^verbatim>\<open>ECMH_BPF\<close>, on a little-endian machine with 64-bit pointers. The branches under \<^verbatim>\<open>ECMH_BPF\<close> are modelled on their own in \<open>Bpf\<close>.

  \<^bold>\<open>How C is read.\<close> A function that can dereference \<^verbatim>\<open>NULL\<close>, read outside a buffer or free twice returns
  \<open>fault + result\<close>. Counters are 64-bit words, timers 32-bit words, lengths on the wire 16-bit words;
  addresses are 128-bit words, packets lists of bytes. \<^verbatim>\<open>g_conf\<close> and the file-static variables are the record
  \<open>conf\<close>, passed through every handler, with the clock and the trace of system calls. What the
  operating system answers is the parameter \<open>os\<close>, a record of functions of that trace; no property assumes anything of
  it that is not written in its statement. A pointer to an interface, a group or a group interface is a position in its list.
  \<^verbatim>\<open>malloc\<close> succeeds except in \<open>Linklist\<close>, \<open>Mtrace6\<close> and the startup, where its failure is a branch.

  \<^bold>\<open>Theories.\<close>
  \<^item> \<open>Ecmh_Prelude\<close>: machine types, faults, IPv6 addresses, byte order, numbers in text, list lemmas. \<open>Tables\<close>: the interfaces as
    locales (\<open>keyed_table\<close>, \<open>source_sets\<close>, \<open>guarded_system\<close>, \<open>fixed_record\<close>; two more, \<open>route_invariant\<close> and \<open>daemon_route_invariant\<close>, are in \<open>Route_mirror\<close>), each interpreted by the theory that
    provides it.
  \<^item> \<open>Linklist\<close>: \<^verbatim>\<open>src/linklist.c\<close>, first on a heap of doubly linked nodes (adding, deleting, moving to the front, freeing
    all: each keeps the list well formed and touches no freed node), then the set-like operations on the sequence of data
    pointers.
  \<^item> \<open>Sources\<close>: \<^verbatim>\<open>src/msrc.c\<close> and \<^verbatim>\<open>src/mrec.c\<close>; the list operations are the set operations on
    addresses. \<open>Mship_db\<close>: \<^verbatim>\<open>src/mship_db.c\<close>; how a subscription changes what the database accepts.
  \<^item> \<open>Conf\<close>: the structures of the headers and the well-formedness invariant \<open>wf_conf\<close>. \<open>Interfaces\<close>: \<^verbatim>\<open>src/interfaces.c\<close>.
    \<open>Group_table\<close>: \<^verbatim>\<open>src/groups.c\<close>, \<^verbatim>\<open>src/grpint.c\<close>, \<^verbatim>\<open>src/subscr.c\<close>.
  \<^item> \<open>Checksum\<close>: \<^verbatim>\<open>inchksum\<close>, \<^verbatim>\<open>ipv6_checksum\<close> (equal to the checksum of RFC 8200) and the name tables.
    \<open>Mld_send\<close>: \<^verbatim>\<open>sendpacket6\<close>, \<^verbatim>\<open>icmp6_send\<close>, queries and reports, byte for byte.
  \<^item> \<open>Kernel_routing\<close>: \<^verbatim>\<open>src/kernel_routing.c\<close> and \<^verbatim>\<open>src/mcast_client.c\<close>; upcalls, route checks and their expiry.
    \<open>Mld2_logic\<close>: reports against the router's table of RFC 3810; \<open>Upstream\<close>: the rebuilding of the upstream
    subscription; \<open>Expiry\<close>: the timers.
  \<^item> \<open>Mld_input\<close>: the receive path of \<^verbatim>\<open>src/ecmh.c\<close>, from the Ethernet type to the MLD handlers. \<open>Input_inv\<close>: each
    handler keeps \<open>wf_conf\<close>. \<open>Forwarding\<close>: \<^verbatim>\<open>l4_ipv6_multicast\<close>. \<open>Reception\<close>: encoded reports and header chains read
    back, bounds on what is read, the missing checks.
  \<^item> \<open>Daemon\<close>: \<^verbatim>\<open>update_interfaces\<close>, the periodic work, \<^verbatim>\<open>handleinterfaces\<close>, and \<^verbatim>\<open>main\<close> with options, startup, loop, signals and
    shutdown, as the step relation \<open>daemon_step\<close>. \<open>Options\<close>: the option string, the table of long options, and what
    \<^verbatim>\<open>getopt_long\<close> makes of an argument vector with them. \<open>Dump\<close>: the statistics dump of \<^verbatim>\<open>SIGUSR1\<close>.
  \<^item> \<open>Route_mirror\<close>: an invariant of the route list and the trace is kept by every handler; with it, the route list against the forwarding
    cache of the kernel. \<open>Socket_filter\<close>: the filter program at the head of \<^verbatim>\<open>src/ecmh.c\<close>, run by the machine of classic BPF.
    \<open>Scenarios\<close>: frames that carry reports and data packets through the whole daemon, from \<^verbatim>\<open>handleinterfaces\<close> to the calls made.
  \<^item> \<open>Process\<close>: \<^verbatim>\<open>src/common.c\<close> (logging, pid file), the debug printers, dropping privileges and the end of \<^verbatim>\<open>main\<close>.
    \<open>Bpf\<close>: the BPF build of \<^verbatim>\<open>src/interfaces.c\<close> and \<^verbatim>\<open>src/ecmh.c\<close> (devices, tunnels, IPv4). \<open>Header_macros\<close>: the macros of
    \<^verbatim>\<open>src/mld.h\<close> and \<^verbatim>\<open>src/trace.h\<close>.
  \<^item> \<open>Mtrace6\<close>: \<^verbatim>\<open>tools/mtrace6/mtrace6.c\<close> with the formats of \<^verbatim>\<open>src/trace.h\<close>. \<open>Hash\<close>: the hash function of \<^verbatim>\<open>src/hash.c\<close>.

  \<^bold>\<open>What is shown.\<close> An encoded report is taken apart into exactly its records, and moves the subscriptions of the receiving
  interface by the steps of the records and no others; in INCLUDE mode the steps are those of RFC 3810, in EXCLUDE mode the difference
  is stated exactly. Forwarding sends at most one copy, to an interface that wants it. Expiry removes what has run out and
  nothing else. The kernel is told exactly the routes that are added and deleted. Every state that the daemon reaches is
  well formed, and its route list is the forwarding cache of the kernel as far as the kernel deletes what it is told to. Put together: a
  frame with a first report for a group makes the daemon forward, or route through the kernel, what the group's sources send, for the
  membership interval; after that, without another report, the group is forgotten and nothing of it is sent or routed. A command line
  means the same however its options are spelled. The socket filter keeps exactly the IPv6 frames to group addresses that are not UDP. Queries go out with the right checksum. The trace tool ends, stays in its buffers, sends one well-formed query and
  prints a response hop by hop. Beside these stand the theorems that pin down what the code does where it departs from its
  comments or its RFC: reports without a route list, wrong checksums, lengths that are not checked, an interface that is gone, tunnels that
  accept no packet.

  \<^bold>\<open>Loops.\<close> Loops over lists are recursion on the list; a loop that deletes while it iterates counts the nodes left to visit,
  which the list bounds. \<^verbatim>\<open>fold_carry\<close> and \<^verbatim>\<open>show_hops\<close> have termination proofs by a measure. Loops over heap
  nodes are partial functions whose value is \<open>None\<close> when they do not end, and they are shown to end on well-formed lists. The
  records of a report are counted by its 16-bit field.

  \<^bold>\<open>Not modelled.\<close> The bodies under \<^verbatim>\<open>#if 0\<close> (among them the group records of \<^verbatim>\<open>mld2_send_report\<close>) and the text of log messages
  outside \<open>Process\<close>; reading \<^verbatim>\<open>/proc/net/if_inet6\<close>, the alternative to \<^verbatim>\<open>getifaddrs\<close>, which does not compile; the
  destructors that only free; the copies in \<^verbatim>\<open>src/mship_db.c\<close> of functions of \<^verbatim>\<open>src/mrec.c\<close>; the table functions of
  \<^verbatim>\<open>src/hash.c\<close>, which do not compile; the scheduling priority in \<^verbatim>\<open>main\<close>; the test programs.
\<close>

end
